(* ===== verification/Prelude.thy ===== *)
theory Prelude
  imports Main "HOL-Library.Word" "HOL-Library.AList" "HOL-Library.Sublist"
begin

text \<open>
  What every component shares: the outcome of a fallible Rust function (a value, an error or a
  panic), the machine integers with Rust's saturating and checked arithmetic, the hash maps of
  \<open>std::collections\<close> as association lists, \<open>str::trim\<close> on UTF-8 bytes, and one generic locale
  for transition systems with an invariant.
\<close>

named_theorems word_nat
  \<comment> \<open>turns goals over \<open>u64\<close> values into goals over natural numbers\<close>
named_theorems hmap_simps
  \<comment> \<open>lookups after the updates of a hash map\<close>

section \<open>Outcomes\<close>

text \<open>\<open>Ok\<close> and \<open>Err\<close> of a \<open>Result\<close>; \<open>Panic\<close> where the Rust code would panic.\<close>

datatype ('a, 'e) outcome = Ok 'a | Err 'e | Panic

text \<open>The \<open>?\<close> operator: continue with the value, return early otherwise.\<close>

fun and_then :: "('a, 'e) outcome \<Rightarrow> ('a \<Rightarrow> ('b, 'e) outcome) \<Rightarrow> ('b, 'e) outcome" where
  "and_then (Ok x) f = f x"
| "and_then (Err e) f = Err e"
| "and_then Panic f = Panic"

fun map_err :: "('e \<Rightarrow> 'f) \<Rightarrow> ('a, 'e) outcome \<Rightarrow> ('a, 'f) outcome" where
  "map_err f (Ok x) = Ok x"
| "map_err f (Err e) = Err (f e)"
| "map_err f Panic = Panic"

text \<open>\<open>Option::ok_or_else\<close>, and a partial operation whose failure is a panic.\<close>

fun ok_or :: "'a option \<Rightarrow> 'e \<Rightarrow> ('a, 'e) outcome" where
  "ok_or (Some x) e = Ok x"
| "ok_or None e = Err e"

fun or_panic :: "'a option \<Rightarrow> ('a, 'e) outcome" where
  "or_panic (Some x) = Ok x"
| "or_panic None = Panic"

lemma and_then_eq_Ok [simp]:
  "and_then m f = Ok y \<longleftrightarrow> (\<exists>x. m = Ok x \<and> f x = Ok y)"
  by (cases m) auto

lemma map_err_eq_Ok [simp]: "map_err f m = Ok y \<longleftrightarrow> m = Ok y"
  by (cases m) auto

lemma ok_or_eq_Ok [simp]: "ok_or m e = Ok x \<longleftrightarrow> m = Some x"
  by (cases m) auto

lemma or_panic_eq_Ok [simp]: "or_panic m = Ok x \<longleftrightarrow> m = Some x"
  by (cases m) auto

lemma or_panic_not_Err [simp]: "or_panic m \<noteq> Err e"
  by (cases m) auto

section \<open>Machine integers\<close>

type_synonym u8 = "8 word"
type_synonym u64 = "64 word"
type_synonym u128 = "128 word"

definition u64_max :: u64 where
  "u64_max = 18446744073709551615"

text \<open>\<open>u64::saturating_add\<close>: the sum wrapped around exactly when it is below an operand.\<close>

definition sat_add :: "u64 \<Rightarrow> u64 \<Rightarrow> u64" where
  "sat_add a b = (if a + b < a then u64_max else a + b)"

definition sat_sub :: "u64 \<Rightarrow> u64 \<Rightarrow> u64" where
  "sat_sub a b = (if b \<le> a then a - b else 0)"

definition checked_add :: "u64 \<Rightarrow> u64 \<Rightarrow> u64 option" where
  "checked_add a b = (if a + b < a then None else Some (a + b))"

lemma unat_u64_max [word_nat]: "unat u64_max = 18446744073709551615"
  by (simp add: u64_max_def)

lemma unat_u64_le: "unat (x :: u64) \<le> 18446744073709551615"
  using unsigned_less [where 'a = nat, of x] by simp

lemma u64_add_wraps:
  "(a :: u64) + b < a \<longleftrightarrow> 18446744073709551615 < unat a + unat b"
proof (cases "unat a + unat b < 18446744073709551616")
  case True
  then have "unat (a + b) = unat a + unat b"
    by (simp add: unat_word_ariths)
  with True show ?thesis
    by (simp add: word_less_nat_alt)
next
  case False
  have b: "unat b < 18446744073709551616"
    using unat_u64_le [of b] by simp
  have "unat a + unat b - 18446744073709551616 < 18446744073709551616"
    using unat_u64_le [of a] unat_u64_le [of b] by simp
  then have "unat (a + b) = unat a + unat b - 18446744073709551616"
    using False by (simp add: unat_word_ariths mod_if)
  with False b show ?thesis
    by (simp add: word_less_nat_alt)
qed

lemma unat_add_no_wrap:
  "unat (a :: u64) + unat b \<le> 18446744073709551615 \<Longrightarrow> unat (a + b) = unat a + unat b"
  by (simp add: unat_word_ariths)

lemma unat_sat_add [word_nat]:
  "unat (sat_add a b) = min 18446744073709551615 (unat a + unat b)"
  by (auto simp: sat_add_def u64_add_wraps unat_u64_max unat_add_no_wrap not_less)

lemma unat_sat_sub [word_nat]: "unat (sat_sub a b) = unat a - unat b"
  by (auto simp: sat_sub_def word_le_nat_alt unat_sub)

lemma checked_add_eq_Some:
  "checked_add a b = Some c \<longleftrightarrow>
     unat a + unat b \<le> 18446744073709551615 \<and> c = a + b"
  by (auto simp: checked_add_def u64_add_wraps)

lemma checked_add_eq_None:
  "checked_add a b = None \<longleftrightarrow> 18446744073709551615 < unat a + unat b"
  by (auto simp: checked_add_def u64_add_wraps)

declare word_le_nat_alt [word_nat] word_less_nat_alt [word_nat]

lemma unat_min_u64 [word_nat]: "unat (min (a :: u64) b) = min (unat a) (unat b)"
  by (simp add: min_def word_le_nat_alt)

lemma sat_add_0 [simp]: "sat_add a 0 = a" "sat_add 0 a = a"
  by (simp_all add: sat_add_def)

lemma sat_sub_0 [simp]: "sat_sub a 0 = a" "sat_sub 0 a = 0"
  by (simp_all add: sat_sub_def)

section \<open>Hash maps\<close>

text \<open>
  A \<open>std::collections::HashMap\<close> is an association list whose keys are distinct; the order of the
  list is the map's iteration order, which Rust leaves open. \<open>hm_get\<close> is \<open>get\<close>, \<open>hm_insert\<close> is
  \<open>insert\<close>, \<open>hm_modify\<close> is an update through \<open>get_mut\<close> (no effect on a missing key).
\<close>

type_synonym ('k, 'v) hmap = "('k \<times> 'v) list"

abbreviation hm_get :: "('k, 'v) hmap \<Rightarrow> 'k \<Rightarrow> 'v option" where
  "hm_get m k \<equiv> map_of m k"

abbreviation hm_insert :: "'k \<Rightarrow> 'v \<Rightarrow> ('k, 'v) hmap \<Rightarrow> ('k, 'v) hmap" where
  "hm_insert \<equiv> AList.update"

fun hm_modify :: "'k \<Rightarrow> ('v \<Rightarrow> 'v) \<Rightarrow> ('k, 'v) hmap \<Rightarrow> ('k, 'v) hmap" where
  "hm_modify k f [] = []"
| "hm_modify k f ((k', v) # m) = (k', if k' = k then f v else v) # hm_modify k f m"

definition hm_keys :: "('k, 'v) hmap \<Rightarrow> 'k list" where
  "hm_keys m = map fst m"

definition hm_ok :: "('k, 'v) hmap \<Rightarrow> bool" where
  "hm_ok m \<longleftrightarrow> distinct (hm_keys m)"

definition hm_total :: "('v \<Rightarrow> nat) \<Rightarrow> ('k, 'v) hmap \<Rightarrow> nat" where
  "hm_total g m = sum_list (map (\<lambda>(k, v). g v) m)"

lemma hm_get_insert [hmap_simps]:
  "hm_get (hm_insert k v m) k' = (if k' = k then Some v else hm_get m k')"
  by (simp add: update_conv')

lemma hm_get_modify [hmap_simps]:
  "hm_get (hm_modify k f m) k' =
     (if k' = k then map_option f (hm_get m k) else hm_get m k')"
  by (induction m) auto

lemma hm_keys_modify [hmap_simps]: "hm_keys (hm_modify k f m) = hm_keys m"
  by (induction m) (auto simp: hm_keys_def)

lemma hm_ok_Nil [simp]: "hm_ok []"
  by (simp add: hm_ok_def hm_keys_def)

lemma hm_ok_modify [hmap_simps]: "hm_ok (hm_modify k f m) = hm_ok m"
  by (simp add: hm_ok_def hm_keys_modify)

lemma hm_ok_insert [hmap_simps]: "hm_ok m \<Longrightarrow> hm_ok (hm_insert k v m)"
  by (simp add: hm_ok_def hm_keys_def distinct_update)

lemma hm_modify_missing: "hm_get m k = None \<Longrightarrow> hm_modify k f m = m"
  by (induction m) (auto split: if_splits)

lemma hm_insert_new: "hm_get m k = None \<Longrightarrow> hm_insert k v m = m @ [(k, v)]"
  by (induction m) (auto split: if_splits)

lemma hm_modify_commute:
  "k \<noteq> l \<Longrightarrow> hm_modify k f (hm_modify l g m) = hm_modify l g (hm_modify k f m)"
  by (induction m) auto

lemma hm_modify_same: "hm_modify k f (hm_modify k g m) = hm_modify k (f \<circ> g) m"
  by (induction m) auto

lemma hm_modify_cong:
  "(\<And>v. hm_get m k = Some v \<Longrightarrow> f v = g v) \<Longrightarrow> hm_ok m \<Longrightarrow>
     hm_modify k f m = hm_modify k g m"
proof (induction m)
  case Nil
  then show ?case by simp
next
  case (Cons p m)
  obtain k' v where p: "p = (k', v)" by (cases p)
  show ?case
  proof (cases "k' = k")
    case True
    with Cons.prems(2) p have "hm_get m k = None"
      by (simp add: hm_ok_def hm_keys_def map_of_eq_None_iff)
    then have "hm_modify k f m = m" "hm_modify k g m = m"
      by (simp_all add: hm_modify_missing)
    with Cons.prems(1) [of v] p True show ?thesis by simp
  next
    case False
    with Cons p show ?thesis by (simp add: hm_ok_def hm_keys_def)
  qed
qed

lemma hm_get_in_keys: "hm_get m k \<noteq> None \<longleftrightarrow> k \<in> set (hm_keys m)"
  by (simp add: hm_keys_def map_of_eq_None_iff)

lemma hm_ok_get: "hm_ok m \<Longrightarrow> hm_get m k = Some v \<longleftrightarrow> (k, v) \<in> set m"
  by (simp add: hm_ok_def hm_keys_def)

lemma hm_total_Nil [simp]: "hm_total g [] = 0"
  by (simp add: hm_total_def)

lemma hm_total_insert_new:
  "hm_get m k = None \<Longrightarrow> hm_total g (hm_insert k v m) = hm_total g m + g v"
  by (simp add: hm_total_def hm_insert_new)

lemma hm_total_modify:
  "hm_ok m \<Longrightarrow> hm_get m k = Some v \<Longrightarrow>
     hm_total g (hm_modify k f m) + g v = hm_total g m + g (f v)"
proof (induction m)
  case Nil
  then show ?case by simp
next
  case (Cons p m)
  obtain k' v' where p: "p = (k', v')" by (cases p)
  show ?case
  proof (cases "k' = k")
    case True
    with Cons.prems(1) p have "hm_get m k = None"
      by (simp add: hm_ok_def hm_keys_def map_of_eq_None_iff)
    with Cons.prems(2) p True show ?thesis
      by (simp add: hm_total_def hm_modify_missing)
  next
    case False
    with Cons p show ?thesis
      by (simp add: hm_total_def hm_ok_def hm_keys_def)
  qed
qed

lemma hm_total_ge: "hm_get m k = Some v \<Longrightarrow> g v \<le> hm_total g m"
  by (induction m) (auto simp: hm_total_def split: if_splits)

lemma hm_total_eq_0: "(\<And>k v. (k, v) \<in> set m \<Longrightarrow> g v = 0) \<Longrightarrow> hm_total g m = 0"
  by (induction m) (auto simp: hm_total_def)

section \<open>Trimming strings\<close>

text \<open>
  A Rust \<open>String\<close> is its UTF-8 bytes, a list of \<open>char\<close>. \<open>white_space\<close> lists the encodings of the
  code points with the Unicode property White\_Space, which is what \<open>str::trim\<close> removes; UTF-8
  is self-synchronising, so the bytes of such a code point at either end of a string are always
  that code point.
\<close>

definition white_space :: "string list" where
  "white_space =
     [[CHR 0x09], [CHR 0x0A], [CHR 0x0B], [CHR 0x0C], [CHR 0x0D], [CHR 0x20],
      [CHR 0xC2, CHR 0x85], [CHR 0xC2, CHR 0xA0],
      [CHR 0xE1, CHR 0x9A, CHR 0x80],
      [CHR 0xE2, CHR 0x80, CHR 0x80], [CHR 0xE2, CHR 0x80, CHR 0x81],
      [CHR 0xE2, CHR 0x80, CHR 0x82], [CHR 0xE2, CHR 0x80, CHR 0x83],
      [CHR 0xE2, CHR 0x80, CHR 0x84], [CHR 0xE2, CHR 0x80, CHR 0x85],
      [CHR 0xE2, CHR 0x80, CHR 0x86], [CHR 0xE2, CHR 0x80, CHR 0x87],
      [CHR 0xE2, CHR 0x80, CHR 0x88], [CHR 0xE2, CHR 0x80, CHR 0x89],
      [CHR 0xE2, CHR 0x80, CHR 0x8A], [CHR 0xE2, CHR 0x80, CHR 0xA8],
      [CHR 0xE2, CHR 0x80, CHR 0xA9], [CHR 0xE2, CHR 0x80, CHR 0xAF],
      [CHR 0xE2, CHR 0x81, CHR 0x9F], [CHR 0xE3, CHR 0x80, CHR 0x80]]"

function strip_with :: "string list \<Rightarrow> string \<Rightarrow> string" where
  "strip_with ws s =
     (case find (\<lambda>w. w \<noteq> [] \<and> prefix w s) ws of
        None \<Rightarrow> s
      | Some w \<Rightarrow> strip_with ws (drop (length w) s))"
  by pat_completeness auto
termination
proof (relation "measure (\<lambda>(ws, s). length s)")
  show "wf (measure (\<lambda>(ws :: string list, s :: string). length s))" by simp
next
  fix ws :: "string list" and s w :: string
  assume "find (\<lambda>w. w \<noteq> [] \<and> prefix w s) ws = Some w"
  then have "w \<noteq> []" and "prefix w s"
    by (auto simp: find_Some_iff)
  then show "((ws, drop (length w) s), ws, s) \<in> measure (\<lambda>(ws, s). length s)"
    by (cases s) (auto simp: length_greater_0_conv)
qed

declare strip_with.simps [simp del]

definition trim :: "string \<Rightarrow> string" where
  "trim s = rev (strip_with (map rev white_space) (rev (strip_with white_space s)))"

text \<open>A string of spaces only, or no character at all, is what the validations call empty.\<close>

definition is_blank :: "string \<Rightarrow> bool" where
  "is_blank s \<longleftrightarrow> trim s = []"

lemma is_blank_Nil [simp]: "is_blank []"
  by (simp add: is_blank_def trim_def strip_with.simps white_space_def)

text \<open>A string that neither starts nor ends with white space is its own trim.\<close>

lemma strip_with_id: "\<forall>w \<in> set ws. w = [] \<or> \<not> prefix w s \<Longrightarrow> strip_with ws s = s"
  by (subst strip_with.simps) (auto simp: find_None_iff split: option.splits, auto simp: find_Some_iff)

section \<open>Transition systems\<close>

text \<open>
  The components with state run as sequences of steps. The locale lifts a fact about one step to
  every run.
\<close>

locale stepwise =
  fixes step :: "'s \<Rightarrow> 's \<Rightarrow> bool"
    and inv :: "'s \<Rightarrow> bool"
  assumes step_inv: "step s t \<Longrightarrow> inv s \<Longrightarrow> inv t"
begin

lemma run_inv: "step\<^sup>*\<^sup>* s t \<Longrightarrow> inv s \<Longrightarrow> inv t"
  by (induction rule: rtranclp_induct) (auto intro: step_inv)

end

locale stepwise_relation = stepwise +
  fixes related :: "'s \<Rightarrow> 's \<Rightarrow> bool"
  assumes related_refl: "related s s"
    and related_trans: "related s t \<Longrightarrow> related t u \<Longrightarrow> related s u"
    and step_related: "step s t \<Longrightarrow> inv s \<Longrightarrow> related s t"
begin

lemma run_related: "step\<^sup>*\<^sup>* s t \<Longrightarrow> inv s \<Longrightarrow> related s t"
proof (induction rule: rtranclp_induct)
  case base
  show ?case by (rule related_refl)
next
  case (step t u)
  then have "inv t" by (blast intro: run_inv)
  with step show ?case by (blast intro: related_trans step_related)
qed

end

end
