(* ===== verification/Errors.thy ===== *)
theory Errors
  imports Prelude
begin

text \<open>
  \<open>error.rs\<close>: the errors of the policy engine and of the stores, their display text, and the
  conversion from a store error that the broker and the reservations apply.
\<close>

datatype budget_error =
    NoMatchingPolicyError
  | InvalidRequestError string
  | StoreUnavailableError
  | StoreErrorText string
  | ReservationNotFoundError
  | ReservationExpiredError
  | ConfigError string
  | WindowError string

datatype store_error =
    StUnavailable
  | StReservationNotFound
  | StReservationExpired
  | StInvalidInput string
  | StOther string

fun budget_error_display :: "budget_error \<Rightarrow> string" where
  "budget_error_display NoMatchingPolicyError = ''no matching budget policy found''"
| "budget_error_display (InvalidRequestError m) = ''budget request is invalid: '' @ m"
| "budget_error_display StoreUnavailableError = ''budget store unavailable''"
| "budget_error_display (StoreErrorText m) = ''budget store error: '' @ m"
| "budget_error_display ReservationNotFoundError = ''reservation not found''"
| "budget_error_display ReservationExpiredError = ''reservation expired''"
| "budget_error_display (ConfigError m) = ''configuration error: '' @ m"
| "budget_error_display (WindowError m) = ''time/window error: '' @ m"

fun store_error_display :: "store_error \<Rightarrow> string" where
  "store_error_display StUnavailable = ''store unavailable''"
| "store_error_display StReservationNotFound = ''reservation not found''"
| "store_error_display StReservationExpired = ''reservation expired''"
| "store_error_display (StInvalidInput m) = ''invalid store input: '' @ m"
| "store_error_display (StOther m) = ''store failure: '' @ m"

fun from_store_error :: "store_error \<Rightarrow> budget_error" where
  "from_store_error StUnavailable = StoreUnavailableError"
| "from_store_error StReservationNotFound = ReservationNotFoundError"
| "from_store_error StReservationExpired = ReservationExpiredError"
| "from_store_error (StInvalidInput m) = StoreErrorText m"
| "from_store_error (StOther m) = StoreErrorText m"

text \<open>A client can tell the lifecycle errors apart after the conversion.\<close>

lemma from_store_error_expired [simp]:
  "from_store_error e = ReservationExpiredError \<longleftrightarrow> e = StReservationExpired"
  by (cases e) auto

lemma from_store_error_not_found [simp]:
  "from_store_error e = ReservationNotFoundError \<longleftrightarrow> e = StReservationNotFound"
  by (cases e) auto

end
