(* ===== verification/Windows.thy ===== *)
theory Windows
  imports Errors
begin

text \<open>
  \<open>window.rs\<close>: the reset windows of a policy and their bounds at an instant. The calendar and
  time-zone arithmetic of the crates chrono and chrono-tz is not in the repository; it is the
  parameter \<open>lib\<close> of the definitions, and \<open>chrono_laws\<close> and \<open>zone_regular\<close> state the documented
  behaviour the properties need.
\<close>

section \<open>The clock library\<close>

text \<open>
  An instant (\<open>DateTime<Utc>\<close>) is its nanoseconds since the Unix epoch, a \<open>Duration\<close> its
  nanoseconds; comparison and the difference of two instants are those of the integers. A
  \<open>DateTime<Tz>\<close> is the instant together with its zone, so a conversion to UTC keeps the instant.
\<close>

type_synonym datetime = int
type_synonym duration = int

datatype local_result = Single datetime | Ambiguous datetime datetime | NoLocalTime

text \<open>
  The library functions the repository calls. \<open>ch_add\<close> is \<open>DateTime + Duration\<close>, \<open>None\<close> where
  it panics because the result is out of range; \<open>ch_from_timestamp s\<close> is
  \<open>from_timestamp(s, 0)\<close>; \<open>ch_parse_tz\<close> is \<open>str::parse::<Tz>\<close> with the text of its error;
  \<open>ch_local_date\<close> gives year, month and day of an instant in a zone; \<open>ch_midnight\<close> is
  \<open>with_ymd_and_hms(y, m, d, 0, 0, 0)\<close>.
\<close>

record 'tz chrono =
  ch_add :: "datetime \<Rightarrow> duration \<Rightarrow> datetime option"
  ch_num_milliseconds :: "duration \<Rightarrow> int"
  ch_num_seconds :: "duration \<Rightarrow> int"
  ch_timestamp :: "datetime \<Rightarrow> int"
  ch_from_timestamp :: "int \<Rightarrow> datetime option"
  ch_parse_tz :: "string \<Rightarrow> string + 'tz"
  ch_local_date :: "'tz \<Rightarrow> datetime \<Rightarrow> int \<times> int \<times> int"
  ch_midnight :: "'tz \<Rightarrow> int \<Rightarrow> int \<Rightarrow> int \<Rightarrow> local_result"

definition nanos_per_second :: int where "nanos_per_second = 1000000000"
definition nanos_per_milli :: int where "nanos_per_milli = 1000000"
definition duration_seconds :: "int \<Rightarrow> duration" where
  "duration_seconds n = n * nanos_per_second"
definition duration_minutes :: "int \<Rightarrow> duration" where
  "duration_minutes n = duration_seconds (60 * n)"
definition duration_days :: "int \<Rightarrow> duration" where
  "duration_days n = duration_seconds (86400 * n)"

lemmas duration_defs =
  duration_seconds_def duration_minutes_def duration_days_def
  nanos_per_second_def nanos_per_milli_def

lemma nanos_per_second_pos [simp]: "0 < nanos_per_second"
  by (simp add: nanos_per_second_def)

text \<open>
  What the documentation of chrono says of the functions above; \<open>num_milliseconds\<close> and
  \<open>num_seconds\<close> truncate, a timestamp is the whole seconds since the epoch, rounded down. The
  longest \<open>Duration\<close> is \<open>i64::MAX\<close> milliseconds, and instants stay within 262143 years of the year 0.
\<close>

definition max_duration :: duration where
  "max_duration = 9223372036854775807 * nanos_per_milli"

definition max_instant :: datetime where
  "max_instant = 9000000000000 * nanos_per_second"

definition chrono_laws :: "('tz, 'more) chrono_scheme \<Rightarrow> bool" where
  "chrono_laws lib \<longleftrightarrow>
     (\<forall>t d r. ch_add lib t d = Some r \<longrightarrow> r = t + d \<and> - max_instant \<le> r \<and> r \<le> max_instant) \<and>
     (\<forall>d. 0 \<le> d \<longrightarrow> d \<le> max_duration \<longrightarrow>
        ch_num_milliseconds lib d = d div nanos_per_milli) \<and>
     (\<forall>d. d \<le> 0 \<longrightarrow> ch_num_milliseconds lib d \<le> 0) \<and>
     (\<forall>d. ch_num_milliseconds lib d \<le> 9223372036854775807) \<and>
     (\<forall>d. 0 \<le> d \<longrightarrow> ch_num_seconds lib d = d div nanos_per_second) \<and>
     (\<forall>t. ch_timestamp lib t = t div nanos_per_second) \<and>
     (\<forall>s r. ch_from_timestamp lib s = Some r \<longrightarrow> r = s * nanos_per_second)"

lemma chrono_add: "chrono_laws lib \<Longrightarrow> ch_add lib t d = Some r \<Longrightarrow> r = t + d"
  by (simp add: chrono_laws_def)

lemma chrono_add_range:
  "chrono_laws lib \<Longrightarrow> ch_add lib t d = Some r \<Longrightarrow> - max_instant \<le> r \<and> r \<le> max_instant"
  by (simp add: chrono_laws_def)

lemma chrono_millis:
  "chrono_laws lib \<Longrightarrow> 0 \<le> d \<Longrightarrow> d \<le> max_duration \<Longrightarrow>
     ch_num_milliseconds lib d = d div nanos_per_milli"
  by (simp add: chrono_laws_def)

lemma chrono_millis_nonpos: "chrono_laws lib \<Longrightarrow> d \<le> 0 \<Longrightarrow> ch_num_milliseconds lib d \<le> 0"
  by (simp add: chrono_laws_def)

lemma chrono_millis_i64: "chrono_laws lib \<Longrightarrow> ch_num_milliseconds lib d \<le> 9223372036854775807"
  by (simp add: chrono_laws_def)

lemma chrono_seconds:
  "chrono_laws lib \<Longrightarrow> 0 \<le> d \<Longrightarrow> ch_num_seconds lib d = d div nanos_per_second"
  by (simp add: chrono_laws_def)

lemma chrono_timestamp: "chrono_laws lib \<Longrightarrow> ch_timestamp lib t = t div nanos_per_second"
  by (simp add: chrono_laws_def)

lemma chrono_from_timestamp:
  "chrono_laws lib \<Longrightarrow> ch_from_timestamp lib s = Some r \<Longrightarrow> r = s * nanos_per_second"
  by (simp add: chrono_laws_def)

section \<open>Window bounds\<close>

record window_bounds =
  wb_start :: datetime
  wb_end :: datetime

definition window_bounds_new :: "datetime \<Rightarrow> datetime \<Rightarrow> (window_bounds, budget_error) outcome" where
  "window_bounds_new s e =
     (if e \<le> s then Err (WindowError ''window end must be after window start'')
      else Ok \<lparr>wb_start = s, wb_end = e\<rparr>)"

definition wb_resets_at :: "window_bounds \<Rightarrow> datetime" where
  "wb_resets_at w = wb_end w"

definition wb_duration :: "window_bounds \<Rightarrow> duration" where
  "wb_duration w = wb_end w - wb_start w"

definition wb_wf :: "window_bounds \<Rightarrow> bool" where
  "wb_wf w \<longleftrightarrow> wb_start w < wb_end w"

definition in_window :: "datetime \<Rightarrow> window_bounds \<Rightarrow> bool" where
  "in_window t w \<longleftrightarrow> wb_start w \<le> t \<and> t < wb_end w"

lemma window_bounds_new_Ok:
  "window_bounds_new s e = Ok w \<longleftrightarrow> s < e \<and> w = \<lparr>wb_start = s, wb_end = e\<rparr>"
  by (auto simp: window_bounds_new_def)

section \<open>Windows\<close>

datatype budget_window =
    CalendarDay string
  | CalendarMonth string
  | Fixed duration
  | Rolling duration

text \<open>Decimal formatting with zero padding, for the text of one error (\<open>{year:04}\<close>).\<close>

fun nat_digits :: "nat \<Rightarrow> string" where
  "nat_digits n =
     (if n < 10 then [char_of (48 + n)] else nat_digits (n div 10) @ [char_of (48 + n mod 10)])"

declare nat_digits.simps [simp del]

definition zero_padded :: "nat \<Rightarrow> int \<Rightarrow> string" where
  "zero_padded width n =
     (let sign = (if n < 0 then ''-'' else ''''); ds = nat_digits (nat \<bar>n\<bar>)
      in sign @ replicate (width - length sign - length ds) CHR ''0'' @ ds)"

definition parse_timezone ::
    "('tz, 'more) chrono_scheme \<Rightarrow> string \<Rightarrow> ('tz, budget_error) outcome" where
  "parse_timezone lib timezone =
     (case ch_parse_tz lib timezone of
        Inr tz \<Rightarrow> Ok tz
      | Inl e \<Rightarrow> Err (WindowError (''invalid timezone `'' @ timezone @ ''`: '' @ e)))"

definition local_boundary ::
    "('tz, 'more) chrono_scheme \<Rightarrow> 'tz \<Rightarrow> int \<Rightarrow> int \<Rightarrow> int \<Rightarrow> (datetime, budget_error) outcome" where
  "local_boundary lib tz year month day =
     (case ch_midnight lib tz year month day of
        Single value \<Rightarrow> Ok value
      | Ambiguous earliest _ \<Rightarrow> Ok earliest
      | NoLocalTime \<Rightarrow>
          Err (WindowError (''local boundary does not exist for '' @ zero_padded 4 year @ ''-'' @
            zero_padded 2 month @ ''-'' @ zero_padded 2 day)))"

definition calendar_day_bounds ::
    "('tz, 'more) chrono_scheme \<Rightarrow> string \<Rightarrow> datetime \<Rightarrow> (window_bounds, budget_error) outcome" where
  "calendar_day_bounds lib timezone now =
     and_then (parse_timezone lib timezone) (\<lambda>tz.
     case ch_local_date lib tz now of (year, month, day) \<Rightarrow>
     and_then (local_boundary lib tz year month day) (\<lambda>start_local.
     and_then (or_panic (ch_add lib start_local (duration_days 1))) (\<lambda>end_local.
     window_bounds_new start_local end_local)))"

definition next_month :: "int \<Rightarrow> int \<Rightarrow> int \<times> int" where
  "next_month year month = (if month = 12 then (year + 1, 1) else (year, month + 1))"

definition calendar_month_bounds ::
    "('tz, 'more) chrono_scheme \<Rightarrow> string \<Rightarrow> datetime \<Rightarrow> (window_bounds, budget_error) outcome" where
  "calendar_month_bounds lib timezone now =
     and_then (parse_timezone lib timezone) (\<lambda>tz.
     case ch_local_date lib tz now of (year, month, day) \<Rightarrow>
     and_then (local_boundary lib tz year month 1) (\<lambda>start_local.
     case next_month year month of (next_y, next_m) \<Rightarrow>
     and_then (local_boundary lib tz next_y next_m 1) (\<lambda>end_local.
     window_bounds_new start_local end_local)))"

text \<open>
  \<open>i64::rem_euclid\<close> panics on a zero divisor, which a positive duration below one second gives;
  otherwise it is the non-negative remainder.
\<close>

definition fixed_bounds ::
    "('tz, 'more) chrono_scheme \<Rightarrow> duration \<Rightarrow> datetime \<Rightarrow> (window_bounds, budget_error) outcome" where
  "fixed_bounds lib d now =
     (if d \<le> 0 then Err (WindowError ''fixed window duration must be positive'')
      else
        let secs = ch_num_seconds lib d; ts = ch_timestamp lib now
        in if secs = 0 then Panic
           else
             case ch_from_timestamp lib (ts - ts mod \<bar>secs\<bar>) of
               None \<Rightarrow> Err (WindowError ''fixed window start is out of range'')
             | Some start \<Rightarrow>
                 and_then (or_panic (ch_add lib start d)) (\<lambda>e. window_bounds_new start e))"

fun bounds_at ::
    "('tz, 'more) chrono_scheme \<Rightarrow> budget_window \<Rightarrow> datetime \<Rightarrow> (window_bounds, budget_error) outcome" where
  "bounds_at lib (CalendarDay timezone) now = calendar_day_bounds lib timezone now"
| "bounds_at lib (CalendarMonth timezone) now = calendar_month_bounds lib timezone now"
| "bounds_at lib (Fixed d) now = fixed_bounds lib d now"
| "bounds_at lib (Rolling d) now = fixed_bounds lib d now"

definition window_duration_error :: "duration \<Rightarrow> (unit, budget_error) outcome" where
  "window_duration_error d =
     (if d \<le> 0 then Err (WindowError ''window duration must be positive'') else Ok ())"

fun window_validate ::
    "('tz, 'more) chrono_scheme \<Rightarrow> budget_window \<Rightarrow> (unit, budget_error) outcome" where
  "window_validate lib (CalendarDay timezone) = and_then (parse_timezone lib timezone) (\<lambda>_. Ok ())"
| "window_validate lib (CalendarMonth timezone) = and_then (parse_timezone lib timezone) (\<lambda>_. Ok ())"
| "window_validate lib (Fixed d) = window_duration_error d"
| "window_validate lib (Rolling d) = window_duration_error d"

section \<open>Every computed window is well formed\<close>

lemma calendar_day_bounds_OkE:
  assumes "calendar_day_bounds lib timezone now = Ok b"
  obtains tz year month day e where
    "parse_timezone lib timezone = Ok tz"
    "ch_local_date lib tz now = (year, month, day)"
    "local_boundary lib tz year month day = Ok (wb_start b)"
    "ch_add lib (wb_start b) (duration_days 1) = Some (wb_end b)"
    "wb_start b < wb_end b"
proof -
  from assms obtain tz where tz: "parse_timezone lib timezone = Ok tz"
    by (auto simp: calendar_day_bounds_def)
  obtain year month day where "ch_local_date lib tz now = (year, month, day)"
    by (cases "ch_local_date lib tz now") auto
  with assms tz that show ?thesis
    by (auto simp: calendar_day_bounds_def window_bounds_new_Ok)
qed

lemma calendar_month_bounds_OkE:
  assumes "calendar_month_bounds lib timezone now = Ok b"
  obtains tz year month day next_y next_m where
    "parse_timezone lib timezone = Ok tz"
    "ch_local_date lib tz now = (year, month, day)"
    "next_month year month = (next_y, next_m)"
    "local_boundary lib tz year month 1 = Ok (wb_start b)"
    "local_boundary lib tz next_y next_m 1 = Ok (wb_end b)"
    "wb_start b < wb_end b"
proof -
  from assms obtain tz where tz: "parse_timezone lib timezone = Ok tz"
    by (auto simp: calendar_month_bounds_def)
  obtain year month day where date: "ch_local_date lib tz now = (year, month, day)"
    by (cases "ch_local_date lib tz now") auto
  obtain next_y next_m where "next_month year month = (next_y, next_m)"
    by (cases "next_month year month") auto
  with assms tz date that show ?thesis
    by (auto simp: calendar_month_bounds_def window_bounds_new_Ok)
qed

lemma fixed_bounds_wf: "fixed_bounds lib d now = Ok b \<Longrightarrow> wb_wf b"
  by (auto simp: fixed_bounds_def Let_def window_bounds_new_Ok wb_wf_def
      split: if_splits option.splits)

lemma bounds_at_wf: "bounds_at lib w now = Ok b \<Longrightarrow> wb_wf b"
  by (cases w) (auto simp: wb_wf_def [of b] elim: calendar_day_bounds_OkE calendar_month_bounds_OkE
      dest: fixed_bounds_wf)

text \<open>Windows of a fixed length: they contain the instant they are computed for.\<close>

lemma fixed_bounds_OkE:
  assumes lib: "chrono_laws lib" and b: "fixed_bounds lib d now = Ok b"
  obtains secs ts where
    "secs = d div nanos_per_second" "0 < secs" "ts = now div nanos_per_second"
    "wb_start b = (ts - ts mod secs) * nanos_per_second"
    "wb_end b = wb_start b + d"
proof -
  define secs where "secs = d div nanos_per_second"
  define ts where "ts = now div nanos_per_second"
  from b have d: "0 < d" by (simp add: fixed_bounds_def split: if_splits)
  then have "0 \<le> secs"
    by (simp add: secs_def pos_imp_zdiv_nonneg_iff)
  from b d lib have "secs \<noteq> 0" and "(case ch_from_timestamp lib (ts - ts mod \<bar>secs\<bar>) of
        None \<Rightarrow> Err (WindowError ''fixed window start is out of range'')
      | Some start \<Rightarrow> and_then (or_panic (ch_add lib start d)) (\<lambda>e. window_bounds_new start e)) = Ok b"
    by (simp_all add: fixed_bounds_def Let_def chrono_seconds chrono_timestamp secs_def ts_def
        split: if_splits)
  then obtain start e where "ch_from_timestamp lib (ts - ts mod \<bar>secs\<bar>) = Some start"
    "ch_add lib start d = Some e" "b = \<lparr>wb_start = start, wb_end = e\<rparr>"
    by (auto simp: window_bounds_new_Ok split: option.splits)
  with lib \<open>0 \<le> secs\<close> have "wb_start b = (ts - ts mod secs) * nanos_per_second"
    "wb_end b = wb_start b + d"
    by (auto dest: chrono_from_timestamp chrono_add)
  with that [OF secs_def _ ts_def] \<open>0 \<le> secs\<close> \<open>secs \<noteq> 0\<close> show ?thesis by simp
qed

lemma div_mult_bounds:
  fixes t n :: int
  assumes "0 < n"
  shows "t div n * n \<le> t" and "t < (t div n + 1) * n"
  using assms pos_mod_bound [of n t] div_mult_mod_eq [of t n]
  by (simp_all add: distrib_right minus_mod_eq_div_mult [symmetric])

lemma fixed_start_le:
  fixes now secs n :: int
  assumes "0 < secs" and "0 < n"
  defines "ts \<equiv> now div n"
  shows "(ts - ts mod secs) * n \<le> now"
    and "now < (ts - ts mod secs + secs) * n"
proof -
  have m: "0 \<le> ts mod secs" "ts mod secs < secs"
    using assms by simp_all
  have "(ts - ts mod secs) * n \<le> ts * n"
    using m assms(2) by simp
  also have "\<dots> \<le> now" unfolding ts_def by (rule div_mult_bounds [OF assms(2)])
  finally show "(ts - ts mod secs) * n \<le> now" .
  have "now < (ts + 1) * n" unfolding ts_def by (rule div_mult_bounds [OF assms(2)])
  also have "\<dots> \<le> (ts - ts mod secs + secs) * n"
    using m assms(2) by (intro mult_right_mono) auto
  finally show "now < (ts - ts mod secs + secs) * n" .
qed

lemma fixed_bounds_contains:
  assumes lib: "chrono_laws lib" and b: "fixed_bounds lib d now = Ok b"
  shows "in_window now b"
proof -
  from lib b obtain secs ts where f: "secs = d div nanos_per_second" "0 < secs"
    "ts = now div nanos_per_second"
    "wb_start b = (ts - ts mod secs) * nanos_per_second" "wb_end b = wb_start b + d"
    by (rule fixed_bounds_OkE)
  have "secs * nanos_per_second \<le> d"
    unfolding f(1) by (rule div_mult_bounds) simp
  moreover note fixed_start_le [OF f(2), of nanos_per_second now]
  ultimately show ?thesis
    using f(3-5) by (simp add: in_window_def distrib_right)
qed

text \<open>
  When the length is a whole number of seconds the windows tile the time line: every instant in
  a window has that window, so a counter is not split or shared within it.
\<close>

lemma aligned_start_unique:
  fixes a b secs :: int
  assumes "0 < secs" "a - a mod secs \<le> b" "b < a - a mod secs + secs"
  shows "b - b mod secs = a - a mod secs"
proof -
  have eq: "a - a mod secs = secs * (a div secs)" "b - b mod secs = secs * (b div secs)"
    by (simp_all add: minus_mod_eq_mult_div)
  have "b = secs * (a div secs) + (b - secs * (a div secs))" by simp
  moreover have "0 \<le> b - secs * (a div secs)" "b - secs * (a div secs) < secs"
    using assms eq by simp_all
  ultimately have "b div secs = a div secs"
    by (metis int_div_pos_eq mult.commute)
  with eq show ?thesis by simp
qed

lemma le_div_of_mult_le:
  fixes t x n :: int
  assumes "0 < n" "x * n \<le> t"
  shows "x \<le> t div n"
  using zdiv_mono1 [OF assms(2) assms(1)] assms(1) by simp

lemma div_less_of_less_mult:
  fixes t y n :: int
  assumes "0 < n" "t < y * n"
  shows "t div n < y"
proof (rule ccontr)
  assume "\<not> t div n < y"
  then have "y * n \<le> t div n * n" using assms(1) by simp
  also have "\<dots> \<le> t" using assms(1) by (simp add: minus_mod_eq_div_mult [symmetric])
  finally show False using assms(2) by simp
qed

lemma fixed_bounds_tile:
  assumes lib: "chrono_laws lib"
    and whole: "nanos_per_second dvd d"
    and b: "fixed_bounds lib d now = Ok b"
    and t: "in_window t b"
  shows "fixed_bounds lib d t = Ok b"
proof -
  from lib b obtain secs ts where f: "secs = d div nanos_per_second" "0 < secs"
    "ts = now div nanos_per_second"
    "wb_start b = (ts - ts mod secs) * nanos_per_second" "wb_end b = wb_start b + d"
    by (rule fixed_bounds_OkE)
  have d: "0 < d" using b by (simp add: fixed_bounds_def split: if_splits)
  have "wb_end b = (ts - ts mod secs + secs) * nanos_per_second"
    using f(1,4,5) whole by (simp add: distrib_right)
  with f(4) t have "ts - ts mod secs \<le> t div nanos_per_second"
    "t div nanos_per_second < ts - ts mod secs + secs"
    by (auto simp: in_window_def intro: le_div_of_mult_le div_less_of_less_mult)
  then have "t div nanos_per_second - t div nanos_per_second mod secs = ts - ts mod secs"
    using f(2) by (intro aligned_start_unique) auto
  with b d lib f(1-3) show ?thesis
    by (simp add: fixed_bounds_def Let_def chrono_seconds chrono_timestamp)
qed

end
