(* ===== verification/Utc_Library.thy ===== *)
theory Utc_Library
  imports Windows
begin

text \<open>
  One instance of the clock library: the time zone UTC with the Gregorian calendar, and the range
  of instants chrono documents. It satisfies the laws the properties assume, and the concrete
  examples run on it.
\<close>

text \<open>Days since 1970-01-01 of a civil date, and back, by eras of 400 years starting in March.\<close>

definition days_from_civil :: "int \<Rightarrow> int \<Rightarrow> int \<Rightarrow> int" where
  "days_from_civil year month day =
     (let y = (if month \<le> 2 then year - 1 else year);
          era = y div 400;
          yoe = y mod 400;
          doy = (153 * (if 2 < month then month - 3 else month + 9) + 2) div 5 + day - 1;
          doe = yoe * 365 + yoe div 4 - yoe div 100 + doy
      in era * 146097 + doe - 719468)"

definition civil_from_days :: "int \<Rightarrow> int \<times> int \<times> int" where
  "civil_from_days n =
     (let z = n + 719468;
          era = z div 146097;
          doe = z mod 146097;
          yoe = (doe - doe div 1460 + doe div 36524 - doe div 146096) div 365;
          doy = doe - (365 * yoe + yoe div 4 - yoe div 100);
          mp = (5 * doy + 2) div 153;
          day = doy - (153 * mp + 2) div 5 + 1;
          month = (if mp < 10 then mp + 3 else mp - 9);
          year = yoe + era * 400 + (if month \<le> 2 then 1 else 0)
      in (year, month, day))"

text \<open>\<open>DateTime::<Utc>::MIN_UTC\<close> and \<open>MAX_UTC\<close> lie in the years \<open>-262143\<close> and \<open>262142\<close>.\<close>

definition utc_range :: "datetime \<Rightarrow> datetime option" where
  "utc_range t =
     (if days_from_civil (- 262143) 1 1 * duration_days 1 \<le> t \<and> t < days_from_civil 262143 1 1 * duration_days 1
      then Some t else None)"

definition utc_chrono :: "unit chrono" where
  "utc_chrono =
     \<lparr>ch_add = (\<lambda>t d. utc_range (t + d)),
      ch_num_milliseconds = (\<lambda>d. min 9223372036854775807
        (if 0 \<le> d then d div nanos_per_milli else - ((- d) div nanos_per_milli))),
      ch_num_seconds = (\<lambda>d.
        if 0 \<le> d then d div nanos_per_second else - ((- d) div nanos_per_second)),
      ch_timestamp = (\<lambda>t. t div nanos_per_second),
      ch_from_timestamp = (\<lambda>s. utc_range (s * nanos_per_second)),
      ch_parse_tz = (\<lambda>name. if name = ''UTC'' then Inr () else Inl ''failed to parse timezone''),
      ch_local_date = (\<lambda>tz t. civil_from_days (t div duration_days 1)),
      ch_midnight = (\<lambda>tz y m d. Single (days_from_civil y m d * duration_days 1))\<rparr>"

text \<open>An instant by its civil date and time of day.\<close>

definition utc_instant :: "int \<Rightarrow> int \<Rightarrow> int \<Rightarrow> int \<Rightarrow> int \<Rightarrow> datetime" where
  "utc_instant year month day hour minute =
     days_from_civil year month day * duration_days 1 + duration_minutes (60 * hour + minute)"

lemma utc_chrono_millis:
  "0 \<le> d \<Longrightarrow> d \<le> max_duration \<Longrightarrow> ch_num_milliseconds utc_chrono d = d div nanos_per_milli"
  "d \<le> 0 \<Longrightarrow> ch_num_milliseconds utc_chrono d \<le> 0"
proof -
  assume "0 \<le> d" "d \<le> max_duration"
  moreover have "d div nanos_per_milli \<le> max_duration div nanos_per_milli"
    using \<open>d \<le> max_duration\<close> by (intro zdiv_mono1) (simp_all add: nanos_per_milli_def)
  then have "d div nanos_per_milli \<le> 9223372036854775807"
    by (simp add: max_duration_def nanos_per_milli_def)
  ultimately show "ch_num_milliseconds utc_chrono d = d div nanos_per_milli"
    by (simp add: utc_chrono_def)
next
  assume "d \<le> 0"
  then have "0 \<le> (- d) div nanos_per_milli"
    by (simp add: pos_imp_zdiv_nonneg_iff nanos_per_milli_def)
  with \<open>d \<le> 0\<close> show "ch_num_milliseconds utc_chrono d \<le> 0"
    by (cases "d = 0") (simp_all add: utc_chrono_def min.coboundedI2)
qed

lemma utc_range_bounds: "utc_range t = Some r \<Longrightarrow> r = t \<and> - max_instant \<le> r \<and> r \<le> max_instant"
proof -
  have "- max_instant \<le> days_from_civil (- 262143) 1 1 * duration_days 1"
    "days_from_civil 262143 1 1 * duration_days 1 \<le> max_instant" by code_simp+
  then show "utc_range t = Some r \<Longrightarrow> r = t \<and> - max_instant \<le> r \<and> r \<le> max_instant"
    by (auto simp: utc_range_def split: if_splits)
qed

lemma utc_chrono_laws: "chrono_laws utc_chrono"
  unfolding chrono_laws_def
  by (intro conjI allI impI utc_chrono_millis)
    (auto simp: utc_chrono_def dest: utc_range_bounds)

end
