(* ===== verification/Vocabulary.thy ===== *)
theory Vocabulary
  imports Prelude
begin

text \<open>
  The enumerations the other components share: \<open>priority.rs\<close>, \<open>unit.rs\<close> and the fallback
  actions and denial reasons of \<open>decision.rs\<close>.
\<close>

section \<open>Priorities\<close>

datatype priority = Background | Normal | Important | Critical

text \<open>The derived \<open>Ord\<close> of the enum is the order of its variants.\<close>

fun priority_rank :: "priority \<Rightarrow> nat" where
  "priority_rank Background = 0"
| "priority_rank Normal = 1"
| "priority_rank Important = 2"
| "priority_rank Critical = 3"

lemma priority_rank_inject: "priority_rank p = priority_rank q \<Longrightarrow> p = q"
  by (cases p; cases q) auto

instantiation priority :: linorder
begin

definition less_eq_priority :: "priority \<Rightarrow> priority \<Rightarrow> bool" where
  "less_eq_priority p q \<longleftrightarrow> priority_rank p \<le> priority_rank q"

definition less_priority :: "priority \<Rightarrow> priority \<Rightarrow> bool" where
  "less_priority p q \<longleftrightarrow> priority_rank p < priority_rank q"

instance
  by standard (auto simp: less_eq_priority_def less_priority_def dest: priority_rank_inject)

end

lemmas priority_order = less_eq_priority_def less_priority_def

lemma priority_le_Critical [simp]: "p \<le> Critical"
  by (cases p) (auto simp: priority_order)

lemma Critical_le_iff [simp]: "Critical \<le> p \<longleftrightarrow> p = Critical"
  by (cases p) (auto simp: priority_order)

lemma less_Critical_iff [simp]: "p < Critical \<longleftrightarrow> p \<noteq> Critical"
  by (cases p) (auto simp: priority_order)

lemma Background_le [simp]: "Background \<le> p"
  by (simp add: priority_order)

definition default_priority :: priority where
  "default_priority = Normal"

section \<open>Units\<close>

datatype budget_unit =
    Requests
  | Tokens
  | Credits
  | Cents
  | Bytes
  | Messages
  | CustomUnit string

fun unit_as_str :: "budget_unit \<Rightarrow> string" where
  "unit_as_str Requests = ''requests''"
| "unit_as_str Tokens = ''tokens''"
| "unit_as_str Credits = ''credits''"
| "unit_as_str Cents = ''cents''"
| "unit_as_str Bytes = ''bytes''"
| "unit_as_str Messages = ''messages''"
| "unit_as_str (CustomUnit v) = v"

definition default_unit :: budget_unit where
  "default_unit = Requests"

text \<open>
  Two units have the same text only when they are equal or one is a custom unit named like a
  built-in one.
\<close>

definition builtin_unit_names :: "string list" where
  "builtin_unit_names = map unit_as_str [Requests, Tokens, Credits, Cents, Bytes, Messages]"

fun plain_unit :: "budget_unit \<Rightarrow> bool" where
  "plain_unit (CustomUnit v) \<longleftrightarrow> v \<notin> set builtin_unit_names"
| "plain_unit u \<longleftrightarrow> True"

lemma unit_as_str_inject:
  "plain_unit u \<Longrightarrow> plain_unit v \<Longrightarrow> unit_as_str u = unit_as_str v \<Longrightarrow> u = v"
  by (cases u; cases v) (auto simp: builtin_unit_names_def)

section \<open>Decisions\<close>

datatype fallback_action =
    UseFreshCache
  | UseStaleCache
  | QueueForLater
  | UseCheaperProvider
  | DowngradeQuality
  | Reject
  | ReturnUnavailable
  | CustomAction string

datatype denial_reason =
    HardLimitReached
  | AheadOfBudgetPace
  | ReservedForHigherPriority
  | MinimumRemainingWouldBeViolated
  | DeniedNoMatchingPolicy
  | DeniedStoreUnavailable
  | DeniedInvalidRequest

end
