(* ===== verification/Keys.thy ===== *)
theory Keys
  imports Errors Vocabulary
begin

text \<open>
  \<open>key.rs\<close>: budget keys, the key patterns of policies, and matching; \<open>reservation.rs\<close>'s
  identifiers and \<open>contract.rs\<close>'s store keys, which name the counters in every store.
\<close>

section \<open>Budget keys\<close>

record budget_key =
  bk_provider :: string
  bk_domain :: string
  bk_resource :: string
  bk_subject :: string

definition validate_component :: "string \<Rightarrow> string \<Rightarrow> (unit, budget_error) outcome" where
  "validate_component name value =
     (if trim value = [] then Err (InvalidRequestError (name @ '' must not be empty''))
      else Ok ())"

definition budget_key_validate :: "budget_key \<Rightarrow> (unit, budget_error) outcome" where
  "budget_key_validate k =
     and_then (validate_component ''provider'' (bk_provider k)) (\<lambda>_.
     and_then (validate_component ''domain'' (bk_domain k)) (\<lambda>_.
     and_then (validate_component ''resource'' (bk_resource k)) (\<lambda>_.
     validate_component ''subject'' (bk_subject k))))"

definition budget_key_new ::
    "string \<Rightarrow> string \<Rightarrow> string \<Rightarrow> string \<Rightarrow> (budget_key, budget_error) outcome" where
  "budget_key_new provider domain resource subject =
     (let k = \<lparr>bk_provider = provider, bk_domain = domain,
               bk_resource = resource, bk_subject = subject\<rparr>
      in and_then (budget_key_validate k) (\<lambda>_. Ok k))"

lemma validate_component_Ok [simp]:
  "validate_component n v = Ok u \<longleftrightarrow> \<not> is_blank v"
  by (simp add: validate_component_def is_blank_def)

lemma budget_key_validate_Ok [simp]:
  "budget_key_validate k = Ok u \<longleftrightarrow>
     \<not> is_blank (bk_provider k) \<and> \<not> is_blank (bk_domain k) \<and>
     \<not> is_blank (bk_resource k) \<and> \<not> is_blank (bk_subject k)"
  by (auto simp: budget_key_validate_def)

definition budget_key_wf :: "budget_key \<Rightarrow> bool" where
  "budget_key_wf k \<longleftrightarrow> budget_key_validate k = Ok ()"

lemma budget_key_new_wf: "budget_key_new p d r s = Ok k \<Longrightarrow> budget_key_wf k"
  by (auto simp: budget_key_new_def budget_key_wf_def Let_def)

section \<open>Key patterns\<close>

record budget_key_pattern =
  kp_provider :: string
  kp_domain :: "string option"
  kp_resource :: "string option"
  kp_subject :: "string option"

definition key_pattern_new :: "string \<Rightarrow> (budget_key_pattern, budget_error) outcome" where
  "key_pattern_new provider =
     and_then (validate_component ''provider'' provider) (\<lambda>_.
     Ok \<lparr>kp_provider = provider, kp_domain = None, kp_resource = None, kp_subject = None\<rparr>)"

definition with_domain :: "string \<Rightarrow> budget_key_pattern \<Rightarrow> budget_key_pattern" where
  "with_domain d p = p\<lparr>kp_domain := Some d\<rparr>"

definition with_resource :: "string \<Rightarrow> budget_key_pattern \<Rightarrow> budget_key_pattern" where
  "with_resource r p = p\<lparr>kp_resource := Some r\<rparr>"

definition with_subject :: "string \<Rightarrow> budget_key_pattern \<Rightarrow> budget_key_pattern" where
  "with_subject s p = p\<lparr>kp_subject := Some s\<rparr>"

fun matches_optional :: "string option \<Rightarrow> string \<Rightarrow> bool" where
  "matches_optional None actual = True"
| "matches_optional (Some value) actual = (value = actual)"

definition pattern_matches :: "budget_key_pattern \<Rightarrow> budget_key \<Rightarrow> bool" where
  "pattern_matches p k \<longleftrightarrow>
     kp_provider p = bk_provider k \<and>
     matches_optional (kp_domain p) (bk_domain k) \<and>
     matches_optional (kp_resource p) (bk_resource k) \<and>
     matches_optional (kp_subject p) (bk_subject k)"

text \<open>
  The count is a \<open>usize\<close>; \<open>try_into\<close> makes a \<open>u8\<close> of it and fails above 255.
\<close>

definition specificity :: "budget_key_pattern \<Rightarrow> u8" where
  "specificity p =
     (let n = length (filter (\<lambda>f. f \<noteq> None) [kp_domain p, kp_resource p, kp_subject p])
      in if n \<le> 255 then of_nat n else 3)"

definition exact_key :: "budget_key_pattern \<Rightarrow> budget_key option" where
  "exact_key p =
     Option.bind (kp_domain p) (\<lambda>d.
     Option.bind (kp_resource p) (\<lambda>r.
     Option.bind (kp_subject p) (\<lambda>s.
     Some \<lparr>bk_provider = kp_provider p, bk_domain = d, bk_resource = r, bk_subject = s\<rparr>)))"

fun or_star :: "string option \<Rightarrow> string" where
  "or_star None = ''*''"
| "or_star (Some v) = v"

definition report_key :: "budget_key_pattern \<Rightarrow> budget_key" where
  "report_key p =
     \<lparr>bk_provider = kp_provider p, bk_domain = or_star (kp_domain p),
      bk_resource = or_star (kp_resource p), bk_subject = or_star (kp_subject p)\<rparr>"

lemma specificity_le_3: "specificity p \<le> 3"
  by (cases "kp_domain p"; cases "kp_resource p"; cases "kp_subject p")
    (simp_all add: specificity_def)

lemma specificity_eq_3: "specificity p = 3 \<longleftrightarrow> exact_key p \<noteq> None"
  by (cases "kp_domain p"; cases "kp_resource p"; cases "kp_subject p")
    (simp_all add: specificity_def exact_key_def)

text \<open>A pattern without wildcards matches its exact key and nothing else.\<close>

lemma exact_key_matches: "exact_key p = Some k \<Longrightarrow> pattern_matches p k' \<longleftrightarrow> k' = k"
  by (auto simp: exact_key_def pattern_matches_def split: Option.bind_splits)

lemma report_key_matches: "pattern_matches p (report_key p)"
  by (cases "kp_domain p"; cases "kp_resource p"; cases "kp_subject p")
    (simp_all add: pattern_matches_def report_key_def)

lemma report_key_exact: "exact_key p = Some k \<Longrightarrow> report_key p = k"
  by (auto simp: exact_key_def report_key_def split: Option.bind_splits)

section \<open>Identifiers\<close>

datatype reservation_id = ReservationId (as_u64: u64)

instantiation reservation_id :: linorder
begin

definition less_eq_reservation_id :: "reservation_id \<Rightarrow> reservation_id \<Rightarrow> bool" where
  "less_eq_reservation_id a b \<longleftrightarrow> as_u64 a \<le> as_u64 b"

definition less_reservation_id :: "reservation_id \<Rightarrow> reservation_id \<Rightarrow> bool" where
  "less_reservation_id a b \<longleftrightarrow> as_u64 a < as_u64 b"

instance
  by standard (auto simp: less_eq_reservation_id_def less_reservation_id_def
      intro: reservation_id.expand)

end

datatype idempotency_key = IdempotencyKey (idempotency_as_str: string)

definition idempotency_key_new :: "string \<Rightarrow> (idempotency_key, budget_error) outcome" where
  "idempotency_key_new value =
     (if trim value = []
      then Err (InvalidRequestError ''idempotency key must not be empty'')
      else Ok (IdempotencyKey value))"

lemma idempotency_key_new_Ok:
  "idempotency_key_new v = Ok k \<longleftrightarrow> \<not> is_blank v \<and> k = IdempotencyKey v"
  by (auto simp: idempotency_key_new_def is_blank_def)

section \<open>Store keys\<close>

record store_key =
  sk_policy_name :: string
  sk_budget_key :: budget_key
  sk_unit :: budget_unit

definition store_key_new :: "string \<Rightarrow> budget_key \<Rightarrow> budget_unit \<Rightarrow> store_key" where
  "store_key_new policy_name k u =
     \<lparr>sk_policy_name = policy_name, sk_budget_key = k, sk_unit = u\<rparr>"

definition compact :: "store_key \<Rightarrow> string" where
  "compact k =
     (let b = sk_budget_key k
      in sk_policy_name k @ '':'' @ bk_provider b @ '':'' @ bk_domain b @ '':'' @
         bk_resource b @ '':'' @ bk_subject b @ '':'' @ unit_as_str (sk_unit k))"

text \<open>
  The parts of a store key, in the order \<open>compact\<close> joins them. No part but the last may hold a
  colon if the text is to determine the key.
\<close>

fun colon_free :: "string \<Rightarrow> bool" where
  "colon_free s \<longleftrightarrow> CHR '':'' \<notin> set s"

definition separable :: "store_key \<Rightarrow> bool" where
  "separable k \<longleftrightarrow>
     (let b = sk_budget_key k
      in colon_free (sk_policy_name k) \<and> colon_free (bk_provider b) \<and>
         colon_free (bk_domain b) \<and> colon_free (bk_resource b) \<and>
         colon_free (bk_subject b) \<and> plain_unit (sk_unit k))"

lemma colon_split:
  "colon_free a \<Longrightarrow> colon_free c \<Longrightarrow>
     a @ CHR '':'' # b = c @ CHR '':'' # d \<longleftrightarrow> a = c \<and> b = d"
proof (induction a arbitrary: c)
  case Nil
  then show ?case by (cases c) auto
next
  case (Cons x a)
  then show ?case by (cases c) auto
qed

lemma compact_inject:
  assumes "separable k" and "separable l" and "compact k = compact l"
  shows "k = l"
proof -
  have eq: "sk_policy_name k = sk_policy_name l \<and>
      bk_provider (sk_budget_key k) = bk_provider (sk_budget_key l) \<and>
      bk_domain (sk_budget_key k) = bk_domain (sk_budget_key l) \<and>
      bk_resource (sk_budget_key k) = bk_resource (sk_budget_key l) \<and>
      bk_subject (sk_budget_key k) = bk_subject (sk_budget_key l) \<and>
      unit_as_str (sk_unit k) = unit_as_str (sk_unit l)"
    using assms by (simp add: separable_def compact_def Let_def colon_split del: colon_free.simps)
  moreover have "sk_unit k = sk_unit l"
    using assms(1,2) eq by (auto simp: separable_def Let_def intro: unit_as_str_inject)
  ultimately show ?thesis by simp
qed

end
