(* ===== verification/Requests.thy ===== *)
theory Requests
  imports Keys
begin

text \<open>
  \<open>request.rs\<close>: a request for budget and its validating builder. The metadata, a \<open>BTreeMap\<close>
  that is never iterated, is an association list.
\<close>

record budget_request =
  rq_key :: budget_key
  rq_unit :: budget_unit
  rq_amount :: u64
  rq_priority :: priority
  rq_idempotency_key :: "idempotency_key option"
  rq_metadata :: "(string, string) hmap"

record budget_request_builder =
  rqb_provider :: string
  rqb_domain :: string
  rqb_resource :: string
  rqb_subject :: string
  rqb_unit :: budget_unit
  rqb_amount :: u64
  rqb_priority :: priority
  rqb_idempotency_key :: "idempotency_key option"
  rqb_metadata :: "(string, string) hmap"

definition request_builder :: "string \<Rightarrow> string \<Rightarrow> string \<Rightarrow> budget_request_builder" where
  "request_builder provider domain resource =
     \<lparr>rqb_provider = provider, rqb_domain = domain, rqb_resource = resource,
      rqb_subject = ''global'', rqb_unit = default_unit, rqb_amount = 1,
      rqb_priority = default_priority, rqb_idempotency_key = None, rqb_metadata = []\<rparr>"

definition rq_set_subject :: "string \<Rightarrow> budget_request_builder \<Rightarrow> budget_request_builder" where
  "rq_set_subject s b = b\<lparr>rqb_subject := s\<rparr>"

definition rq_set_unit :: "budget_unit \<Rightarrow> budget_request_builder \<Rightarrow> budget_request_builder" where
  "rq_set_unit u b = b\<lparr>rqb_unit := u\<rparr>"

definition rq_set_amount :: "u64 \<Rightarrow> budget_request_builder \<Rightarrow> budget_request_builder" where
  "rq_set_amount a b = b\<lparr>rqb_amount := a\<rparr>"

definition rq_set_priority :: "priority \<Rightarrow> budget_request_builder \<Rightarrow> budget_request_builder" where
  "rq_set_priority p b = b\<lparr>rqb_priority := p\<rparr>"

definition rq_set_idempotency_key ::
    "idempotency_key \<Rightarrow> budget_request_builder \<Rightarrow> budget_request_builder" where
  "rq_set_idempotency_key k b = b\<lparr>rqb_idempotency_key := Some k\<rparr>"

definition rq_set_metadata ::
    "string \<Rightarrow> string \<Rightarrow> budget_request_builder \<Rightarrow> budget_request_builder" where
  "rq_set_metadata k v b = b\<lparr>rqb_metadata := hm_insert k v (rqb_metadata b)\<rparr>"

definition request_build :: "budget_request_builder \<Rightarrow> (budget_request, budget_error) outcome" where
  "request_build b =
     (if rqb_amount b = 0 then Err (InvalidRequestError ''amount must be greater than zero'')
      else
        and_then (budget_key_new (rqb_provider b) (rqb_domain b) (rqb_resource b) (rqb_subject b)) (\<lambda>k.
        Ok \<lparr>rq_key = k, rq_unit = rqb_unit b, rq_amount = rqb_amount b,
            rq_priority = rqb_priority b, rq_idempotency_key = rqb_idempotency_key b,
            rq_metadata = rqb_metadata b\<rparr>))"

definition request_wf :: "budget_request \<Rightarrow> bool" where
  "request_wf r \<longleftrightarrow> rq_amount r \<noteq> 0 \<and> budget_key_wf (rq_key r)"

lemma request_build_wf: "request_build b = Ok r \<Longrightarrow> request_wf r"
  by (auto simp: request_build_def request_wf_def dest: budget_key_new_wf split: if_splits)

lemma request_build_keeps:
  "request_build b = Ok r \<Longrightarrow>
     rq_amount r = rqb_amount b \<and> rq_unit r = rqb_unit b \<and> rq_priority r = rqb_priority b \<and>
     rq_idempotency_key r = rqb_idempotency_key b \<and> bk_subject (rq_key r) = rqb_subject b"
  by (auto simp: request_build_def budget_key_new_def Let_def split: if_splits)

end
