(* ===== verification/Policies.thy ===== *)
theory Policies
  imports Keys Windows
begin

text \<open>
  \<open>policy.rs\<close>: the budget strategies, the policy, and the builder that validates one.
\<close>

datatype fail_mode = Open | Closed

definition default_fail_mode :: fail_mode where
  "default_fail_mode = Closed"

record preserve_for_window =
  pw_max_spend_ahead_percent :: u8
  pw_emergency_reserve_percent :: u8
  pw_minimum_remaining_units :: "u64 option"

definition preserve_for_window_new :: "u8 \<Rightarrow> u8 \<Rightarrow> u64 option \<Rightarrow> preserve_for_window" where
  "preserve_for_window_new ahead reserve minimum =
     \<lparr>pw_max_spend_ahead_percent = ahead, pw_emergency_reserve_percent = reserve,
      pw_minimum_remaining_units = minimum\<rparr>"

record reserve_capacity =
  rc_reserved_units :: u64
  rc_reserved_for :: priority

definition reserve_capacity_new :: "u64 \<Rightarrow> priority \<Rightarrow> reserve_capacity" where
  "reserve_capacity_new units p = \<lparr>rc_reserved_units = units, rc_reserved_for = p\<rparr>"

datatype budget_strategy =
    HardLimitOnly
  | PreserveForWindow preserve_for_window
  | ReserveCapacity reserve_capacity

record budget_policy =
  bp_name :: string
  bp_key :: budget_key_pattern
  bp_unit :: budget_unit
  bp_hard_limit :: u64
  bp_window :: budget_window
  bp_strategy :: budget_strategy
  bp_exhausted_action :: fallback_action
  bp_low_budget_action :: "fallback_action option"
  bp_fail_mode :: fail_mode

section \<open>The builder\<close>

record budget_policy_builder =
  pb_name :: string
  pb_provider :: "string option"
  pb_domain :: "string option"
  pb_resource :: "string option"
  pb_subject :: "string option"
  pb_unit :: budget_unit
  pb_hard_limit :: "u64 option"
  pb_window :: "budget_window option"
  pb_strategy :: budget_strategy
  pb_exhausted_action :: fallback_action
  pb_low_budget_action :: "fallback_action option"
  pb_fail_mode :: fail_mode

definition policy_builder :: "string \<Rightarrow> budget_policy_builder" where
  "policy_builder name =
     \<lparr>pb_name = name, pb_provider = None, pb_domain = None, pb_resource = None,
      pb_subject = None, pb_unit = default_unit, pb_hard_limit = None, pb_window = None,
      pb_strategy = HardLimitOnly, pb_exhausted_action = Reject,
      pb_low_budget_action = None, pb_fail_mode = default_fail_mode\<rparr>"

definition pb_set_provider :: "string \<Rightarrow> budget_policy_builder \<Rightarrow> budget_policy_builder" where
  "pb_set_provider v b = b\<lparr>pb_provider := Some v\<rparr>"

definition pb_set_domain :: "string \<Rightarrow> budget_policy_builder \<Rightarrow> budget_policy_builder" where
  "pb_set_domain v b = b\<lparr>pb_domain := Some v\<rparr>"

definition pb_set_resource :: "string \<Rightarrow> budget_policy_builder \<Rightarrow> budget_policy_builder" where
  "pb_set_resource v b = b\<lparr>pb_resource := Some v\<rparr>"

definition pb_set_subject :: "string \<Rightarrow> budget_policy_builder \<Rightarrow> budget_policy_builder" where
  "pb_set_subject v b = b\<lparr>pb_subject := Some v\<rparr>"

definition pb_set_unit :: "budget_unit \<Rightarrow> budget_policy_builder \<Rightarrow> budget_policy_builder" where
  "pb_set_unit v b = b\<lparr>pb_unit := v\<rparr>"

definition pb_set_hard_limit :: "u64 \<Rightarrow> budget_policy_builder \<Rightarrow> budget_policy_builder" where
  "pb_set_hard_limit v b = b\<lparr>pb_hard_limit := Some v\<rparr>"

definition pb_set_calendar_day :: "string \<Rightarrow> budget_policy_builder \<Rightarrow> budget_policy_builder" where
  "pb_set_calendar_day tz b = b\<lparr>pb_window := Some (CalendarDay tz)\<rparr>"

definition pb_set_calendar_month :: "string \<Rightarrow> budget_policy_builder \<Rightarrow> budget_policy_builder" where
  "pb_set_calendar_month tz b = b\<lparr>pb_window := Some (CalendarMonth tz)\<rparr>"

definition pb_set_strategy :: "budget_strategy \<Rightarrow> budget_policy_builder \<Rightarrow> budget_policy_builder" where
  "pb_set_strategy v b = b\<lparr>pb_strategy := v\<rparr>"

definition pb_set_exhausted_action ::
    "fallback_action \<Rightarrow> budget_policy_builder \<Rightarrow> budget_policy_builder" where
  "pb_set_exhausted_action v b = b\<lparr>pb_exhausted_action := v\<rparr>"

definition pb_set_low_budget_action ::
    "fallback_action \<Rightarrow> budget_policy_builder \<Rightarrow> budget_policy_builder" where
  "pb_set_low_budget_action v b = b\<lparr>pb_low_budget_action := Some v\<rparr>"

definition pb_set_fail_mode :: "fail_mode \<Rightarrow> budget_policy_builder \<Rightarrow> budget_policy_builder" where
  "pb_set_fail_mode v b = b\<lparr>pb_fail_mode := v\<rparr>"

fun validate_strategy :: "budget_strategy \<Rightarrow> u64 \<Rightarrow> (unit, budget_error) outcome" where
  "validate_strategy HardLimitOnly hard_limit = Ok ()"
| "validate_strategy (PreserveForWindow s) hard_limit =
     (if 100 < pw_max_spend_ahead_percent s
      then Err (InvalidRequestError ''max spend ahead percent must be at most 100'')
      else if 100 < pw_emergency_reserve_percent s
      then Err (InvalidRequestError ''emergency reserve percent must be at most 100'')
      else
        case pw_minimum_remaining_units s of
          None \<Rightarrow> Ok ()
        | Some minimum \<Rightarrow>
            if hard_limit < minimum
            then Err (InvalidRequestError ''minimum remaining units must not exceed hard limit'')
            else Ok ())"
| "validate_strategy (ReserveCapacity s) hard_limit =
     (if rc_reserved_units s = 0
      then Err (InvalidRequestError ''reserved units must be greater than zero'')
      else if hard_limit < rc_reserved_units s
      then Err (InvalidRequestError ''reserved units must not exceed hard limit'')
      else Ok ())"

text \<open>An optional builder field, applied to the key pattern when it is set.\<close>

fun when_set :: "(string \<Rightarrow> 'a \<Rightarrow> 'a) \<Rightarrow> string option \<Rightarrow> 'a \<Rightarrow> 'a" where
  "when_set f None x = x"
| "when_set f (Some v) x = f v x"

definition policy_build ::
    "('tz, 'more) chrono_scheme \<Rightarrow> budget_policy_builder \<Rightarrow> (budget_policy, budget_error) outcome" where
  "policy_build lib b =
     (if trim (pb_name b) = [] then Err (InvalidRequestError ''policy name must not be empty'')
      else
        and_then (ok_or (pb_hard_limit b) (InvalidRequestError ''hard limit must be configured'')) (\<lambda>hard_limit.
        if hard_limit = 0 then Err (InvalidRequestError ''hard limit must be greater than zero'')
        else
          and_then (ok_or (pb_provider b) (InvalidRequestError ''provider must be configured'')) (\<lambda>provider.
          and_then (key_pattern_new provider) (\<lambda>key0.
          let key1 = when_set with_domain (pb_domain b) key0;
              key2 = when_set with_resource (pb_resource b) key1;
              key3 = when_set with_subject (pb_subject b) key2
          in
          and_then (ok_or (pb_window b) (InvalidRequestError ''window must be configured'')) (\<lambda>window.
          and_then (window_validate lib window) (\<lambda>_.
          and_then (validate_strategy (pb_strategy b) hard_limit) (\<lambda>_.
          Ok \<lparr>bp_name = pb_name b, bp_key = key3, bp_unit = pb_unit b,
              bp_hard_limit = hard_limit, bp_window = window, bp_strategy = pb_strategy b,
              bp_exhausted_action = pb_exhausted_action b,
              bp_low_budget_action = pb_low_budget_action b,
              bp_fail_mode = pb_fail_mode b\<rparr>)))))))"

section \<open>What a built policy satisfies\<close>

fun strategy_wf :: "budget_strategy \<Rightarrow> u64 \<Rightarrow> bool" where
  "strategy_wf HardLimitOnly h \<longleftrightarrow> True"
| "strategy_wf (PreserveForWindow s) h \<longleftrightarrow>
     pw_max_spend_ahead_percent s \<le> 100 \<and> pw_emergency_reserve_percent s \<le> 100 \<and>
     (case pw_minimum_remaining_units s of None \<Rightarrow> True | Some m \<Rightarrow> m \<le> h)"
| "strategy_wf (ReserveCapacity s) h \<longleftrightarrow> 0 < rc_reserved_units s \<and> rc_reserved_units s \<le> h"

definition policy_wf :: "('tz, 'more) chrono_scheme \<Rightarrow> budget_policy \<Rightarrow> bool" where
  "policy_wf lib p \<longleftrightarrow>
     \<not> is_blank (bp_name p) \<and> \<not> is_blank (kp_provider (bp_key p)) \<and>
     0 < bp_hard_limit p \<and>
     window_validate lib (bp_window p) = Ok () \<and>
     strategy_wf (bp_strategy p) (bp_hard_limit p)"

lemma u64_pos_iff: "0 < (x :: u64) \<longleftrightarrow> x \<noteq> 0"
  by (simp add: word_neq_0_conv)

lemma validate_strategy_Ok [simp]: "validate_strategy s h = Ok u \<longleftrightarrow> strategy_wf s h"
  by (cases s) (auto simp: not_less u64_pos_iff split: if_splits option.splits)

lemma when_set_provider:
  "kp_provider (when_set with_domain d k) = kp_provider k"
  "kp_provider (when_set with_resource d k) = kp_provider k"
  "kp_provider (when_set with_subject d k) = kp_provider k"
  by (cases d; simp add: with_domain_def with_resource_def with_subject_def)+

lemma key_pattern_new_Ok:
  "key_pattern_new v = Ok k \<longleftrightarrow>
     \<not> is_blank v \<and>
     k = \<lparr>kp_provider = v, kp_domain = None, kp_resource = None, kp_subject = None\<rparr>"
  by (auto simp: key_pattern_new_def)

lemma policy_build_OkE:
  assumes "policy_build lib b = Ok p"
  obtains h provider w where
    "pb_hard_limit b = Some h" "h \<noteq> 0" "pb_provider b = Some provider" "pb_window b = Some w"
    "\<not> is_blank (pb_name b)" "\<not> is_blank provider"
    "window_validate lib w = Ok ()" "strategy_wf (pb_strategy b) h"
    "p = \<lparr>bp_name = pb_name b,
          bp_key = when_set with_subject (pb_subject b) (when_set with_resource (pb_resource b)
            (when_set with_domain (pb_domain b)
              \<lparr>kp_provider = provider, kp_domain = None, kp_resource = None, kp_subject = None\<rparr>)),
          bp_unit = pb_unit b, bp_hard_limit = h, bp_window = w, bp_strategy = pb_strategy b,
          bp_exhausted_action = pb_exhausted_action b,
          bp_low_budget_action = pb_low_budget_action b, bp_fail_mode = pb_fail_mode b\<rparr>"
  using assms
  by (auto simp: policy_build_def Let_def is_blank_def key_pattern_new_Ok split: if_splits)

lemma policy_build_policy_wf: "policy_build lib b = Ok p \<Longrightarrow> policy_wf lib p"
  by (auto elim!: policy_build_OkE simp: policy_wf_def when_set_provider u64_pos_iff)

end
