(* ===== verification/Pacing.thy ===== *)
theory Pacing
  imports Policies
begin

text \<open>
  \<open>pacing/evaluate.rs\<close>: the evaluation of a policy at an instant. It gives the limit the store
  must enforce now, the numbers of the usage snapshot, and the reason to deny, if there is one.
\<close>

record pacing_evaluation =
  pe_effective_limit :: u64
  pe_safe_to_spend_now :: u64
  pe_reserved_remaining :: u64
  pe_ahead_of_pace :: bool
  pe_denial_reason :: "denial_reason option"

definition pacing_evaluation_new ::
    "u64 \<Rightarrow> u64 \<Rightarrow> u64 \<Rightarrow> bool \<Rightarrow> denial_reason option \<Rightarrow> pacing_evaluation" where
  "pacing_evaluation_new effective_limit safe_to_spend_now reserved_remaining ahead_of_pace denial_reason =
     \<lparr>pe_effective_limit = effective_limit, pe_safe_to_spend_now = safe_to_spend_now,
      pe_reserved_remaining = reserved_remaining, pe_ahead_of_pace = ahead_of_pace,
      pe_denial_reason = denial_reason\<rparr>"

text \<open>\<open>u64::try_from(v).unwrap_or(u64::MAX)\<close> for a \<open>u128\<close>.\<close>

definition saturating_u64 :: "u128 \<Rightarrow> u64" where
  "saturating_u64 v = (if v \<le> ucast u64_max then ucast v else u64_max)"

definition percent_of :: "u64 \<Rightarrow> u8 \<Rightarrow> u64" where
  "percent_of value percent = saturating_u64 (ucast value * ucast percent div 100)"

text \<open>The milliseconds are an \<open>i64\<close>; \<open>max(0)\<close> makes the conversion to \<open>u128\<close> succeed.\<close>

definition non_negative_millis :: "int \<Rightarrow> u128" where
  "non_negative_millis milliseconds = word_of_int (max milliseconds 0)"

definition paced_limit ::
    "('tz, 'more) chrono_scheme \<Rightarrow> budget_policy \<Rightarrow> window_bounds \<Rightarrow> datetime \<Rightarrow> u64 \<Rightarrow>
     preserve_for_window \<Rightarrow> u64" where
  "paced_limit lib policy window now normal_usable_limit strategy =
     (let duration_ms = max (non_negative_millis (ch_num_milliseconds lib (wb_duration window))) 1;
          elapsed_ms = non_negative_millis (ch_num_milliseconds lib (now - wb_start window));
          ideal_spend = saturating_u64 (ucast (bp_hard_limit policy) * elapsed_ms div duration_ms);
          ahead_allowance = percent_of (bp_hard_limit policy) (pw_max_spend_ahead_percent strategy)
      in min normal_usable_limit (sat_add ideal_spend ahead_allowance))"

definition hard_limit_only :: "u64 \<Rightarrow> u64 \<Rightarrow> pacing_evaluation" where
  "hard_limit_only hard_limit used =
     pacing_evaluation_new hard_limit (sat_sub hard_limit used) 0 False None"

text \<open>
  The arm of the \<open>match\<close> for \<open>PreserveForWindow\<close>. The sum \<open>used + amount\<close> under
  \<open>minimum_remaining_units\<close> is the unchecked addition of the source: in a release build it wraps
  around, as \<open>+\<close> does on words.
\<close>

definition evaluate_preserve ::
    "('tz, 'more) chrono_scheme \<Rightarrow> budget_policy \<Rightarrow> preserve_for_window \<Rightarrow> u64 \<Rightarrow> u64 \<Rightarrow> priority \<Rightarrow>
     window_bounds \<Rightarrow> datetime \<Rightarrow> pacing_evaluation" where
  "evaluate_preserve lib policy strategy used amount priority window now =
     (let hard_limit = bp_hard_limit policy;
          reserve = percent_of hard_limit (pw_emergency_reserve_percent strategy);
          normal_usable_limit = sat_sub hard_limit reserve
      in
      if Critical \<le> priority then
        pacing_evaluation_new hard_limit (sat_sub hard_limit used)
          (min reserve (sat_sub hard_limit used)) False None
      else if priority < Critical \<and> normal_usable_limit < sat_add used amount then
        pacing_evaluation_new normal_usable_limit (sat_sub normal_usable_limit used)
          (sat_sub hard_limit used) False (Some ReservedForHigherPriority)
      else
        let paced = paced_limit lib policy window now normal_usable_limit strategy
        in
        if paced < sat_add used amount then
          pacing_evaluation_new paced (sat_sub paced used)
            (sat_sub reserve (sat_sub hard_limit used)) True (Some AheadOfBudgetPace)
        else
          let allowed =
            pacing_evaluation_new paced (sat_sub paced used)
              (min reserve (sat_sub hard_limit used)) (paced < used) None
          in
          case pw_minimum_remaining_units strategy of
            None \<Rightarrow> allowed
          | Some minimum \<Rightarrow>
              if sat_sub hard_limit (used + amount) < minimum \<and> priority < Critical then
                pacing_evaluation_new paced (sat_sub paced used) reserve False
                  (Some MinimumRemainingWouldBeViolated)
              else allowed)"

definition evaluate_reserve ::
    "budget_policy \<Rightarrow> reserve_capacity \<Rightarrow> u64 \<Rightarrow> u64 \<Rightarrow> priority \<Rightarrow> pacing_evaluation" where
  "evaluate_reserve policy strategy used amount priority =
     (let hard_limit = bp_hard_limit policy;
          normal_usable_limit = sat_sub hard_limit (rc_reserved_units strategy)
      in
      if priority < rc_reserved_for strategy \<and> normal_usable_limit < sat_add used amount then
        pacing_evaluation_new normal_usable_limit (sat_sub normal_usable_limit used)
          (rc_reserved_units strategy) False (Some ReservedForHigherPriority)
      else
        pacing_evaluation_new hard_limit (sat_sub hard_limit used)
          (min (rc_reserved_units strategy) (sat_sub hard_limit used)) False None)"

definition evaluate_policy ::
    "('tz, 'more) chrono_scheme \<Rightarrow> budget_policy \<Rightarrow> u64 \<Rightarrow> u64 \<Rightarrow> priority \<Rightarrow> window_bounds \<Rightarrow>
     datetime \<Rightarrow> pacing_evaluation" where
  "evaluate_policy lib policy used amount priority window now =
     (if bp_hard_limit policy < sat_add used amount then
        pacing_evaluation_new (bp_hard_limit policy) 0 0 False (Some HardLimitReached)
      else
        case bp_strategy policy of
          HardLimitOnly \<Rightarrow> hard_limit_only (bp_hard_limit policy) used
        | PreserveForWindow strategy \<Rightarrow>
            evaluate_preserve lib policy strategy used amount priority window now
        | ReserveCapacity strategy \<Rightarrow> evaluate_reserve policy strategy used amount priority)"

lemmas evaluate_defs =
  evaluate_policy_def evaluate_preserve_def evaluate_reserve_def hard_limit_only_def
  pacing_evaluation_new_def

section \<open>The arithmetic\<close>

lemma unat_small_u128: "unat (x :: u64) < 340282366920938463463374607431768211456"
    "unat (y :: u8) < 340282366920938463463374607431768211456"
  using unsigned_less [where 'a = nat, of x] unsigned_less [where 'a = nat, of y] by simp_all

lemma unat_u64_u128: "unat (ucast (x :: u64) :: u128) = unat x"
  by (simp add: unsigned_ucast_eq take_bit_nat_eq_self unat_small_u128)

lemma unat_u8_u128: "unat (ucast (x :: u8) :: u128) = unat x"
  by (simp add: unsigned_ucast_eq take_bit_nat_eq_self unat_small_u128)

lemma unat_saturating_u64 [word_nat]:
  "unat (saturating_u64 v) = min 18446744073709551615 (unat v)"
proof (cases "unat v \<le> 18446744073709551615")
  case True
  then have "unat (ucast v :: u64) = unat v"
    by (simp add: unsigned_ucast_eq take_bit_nat_eq_self)
  with True show ?thesis
    by (simp add: saturating_u64_def word_le_nat_alt unat_u64_u128 unat_u64_max)
next
  case False
  then show ?thesis
    by (simp add: saturating_u64_def word_le_nat_alt unat_u64_u128 unat_u64_max)
qed

text \<open>No product in \<open>u128\<close> overflows: both factors fit in 64 bits.\<close>

lemma u128_mult_no_overflow:
  fixes a b :: u128
  assumes "unat a \<le> 18446744073709551615" and "unat b \<le> 18446744073709551615"
  shows "unat (a * b) = unat a * unat b"
proof -
  have "unat a * unat b \<le> 18446744073709551615 * 18446744073709551615"
    using assms by (rule mult_le_mono)
  then show ?thesis by (simp add: unat_word_ariths)
qed

lemma unat_percent_of [word_nat]:
  "unat (percent_of v p) = min 18446744073709551615 (unat v * unat p div 100)"
proof -
  have "unat (ucast v * ucast p :: u128) = unat v * unat p"
    using unat_u64_le [of v] unsigned_less [where 'a = nat, of p]
    by (subst u128_mult_no_overflow) (simp_all add: unat_u64_u128 unat_u8_u128)
  then show ?thesis
    by (simp add: percent_of_def word_nat unat_div)
qed

lemma percent_of_le:
  assumes "p \<le> 100"
  shows "unat (percent_of v p) = unat v * unat p div 100" and "percent_of v p \<le> v"
proof -
  have "unat p \<le> 100" using assms by (simp add: word_le_nat_alt)
  then have "unat v * unat p div 100 \<le> unat v * 100 div 100"
    by (intro div_le_mono mult_le_mono2)
  then have le: "unat v * unat p div 100 \<le> unat v" by simp
  with unat_u64_le [of v] show "unat (percent_of v p) = unat v * unat p div 100"
    by (simp add: word_nat)
  with le show "percent_of v p \<le> v" by (simp add: word_nat)
qed

lemma unat_non_negative_millis:
  assumes "ms \<le> 9223372036854775807"
  shows "unat (non_negative_millis ms) = nat (max ms 0)"
  using assms by (simp add: non_negative_millis_def unsigned_of_int take_bit_int_eq_self nat_less_iff)

lemma paced_limit_le_usable: "paced_limit lib p w now usable strategy \<le> usable"
  by (simp add: paced_limit_def Let_def)

section \<open>Facts about one evaluation\<close>

lemma sat_sub_le: "sat_sub a b \<le> a"
  by (simp add: word_nat)

lemma effective_limit_le_hard_limit:
  "pe_effective_limit (evaluate_policy lib p used amount prio w now) \<le> bp_hard_limit p"
proof -
  have "paced_limit lib p w now (sat_sub (bp_hard_limit p) r) s \<le> bp_hard_limit p" for r s
    by (rule order_trans [OF paced_limit_le_usable sat_sub_le])
  then show ?thesis
    by (auto simp: evaluate_defs Let_def sat_sub_le split: budget_strategy.splits option.splits)
qed

lemma allowed_fits_effective_limit:
  "pe_denial_reason (evaluate_policy lib p used amount prio w now) = None \<Longrightarrow>
     sat_add used amount \<le> pe_effective_limit (evaluate_policy lib p used amount prio w now)"
  by (auto simp: evaluate_defs Let_def not_less
      split: budget_strategy.splits option.splits if_splits)

section \<open>The reference: a decision table over natural numbers\<close>

text \<open>
  The pace: the share of the hard limit that has elapsed with the window, plus the allowance for
  spending ahead. The reference decision depends on the spending after the request only.
\<close>

definition pace ::
    "('tz, 'more) chrono_scheme \<Rightarrow> nat \<Rightarrow> preserve_for_window \<Rightarrow> window_bounds \<Rightarrow> datetime \<Rightarrow> nat" where
  "pace lib h s w now =
     h * nat (ch_num_milliseconds lib (now - wb_start w)) div
       max (nat (ch_num_milliseconds lib (wb_duration w))) 1 +
     h * unat (pw_max_spend_ahead_percent s) div 100"

definition reserve_units :: "nat \<Rightarrow> preserve_for_window \<Rightarrow> nat" where
  "reserve_units h s = h * unat (pw_emergency_reserve_percent s) div 100"

definition denial_spec ::
    "('tz, 'more) chrono_scheme \<Rightarrow> budget_policy \<Rightarrow> nat \<Rightarrow> priority \<Rightarrow> window_bounds \<Rightarrow> datetime \<Rightarrow>
     denial_reason option" where
  "denial_spec lib p spent prio w now =
     (let h = unat (bp_hard_limit p) in
      if h < spent then Some HardLimitReached
      else
        case bp_strategy p of
          HardLimitOnly \<Rightarrow> None
        | PreserveForWindow s \<Rightarrow>
            if prio = Critical then None
            else if h - reserve_units h s < spent then Some ReservedForHigherPriority
            else if pace lib h s w now < spent then Some AheadOfBudgetPace
            else
              (case pw_minimum_remaining_units s of
                 None \<Rightarrow> None
               | Some m \<Rightarrow>
                   if h - spent < unat m then Some MinimumRemainingWouldBeViolated else None)
        | ReserveCapacity s \<Rightarrow>
            if prio < rc_reserved_for s \<and> h - unat (rc_reserved_units s) < spent
            then Some ReservedForHigherPriority else None)"

lemma unat_paced_limit:
  assumes "chrono_laws lib"
  shows "unat (paced_limit lib p w now usable s) =
    min (unat usable) (min 18446744073709551615 (pace lib (unat (bp_hard_limit p)) s w now))"
proof -
  let ?h = "unat (bp_hard_limit p)"
  let ?e = "nat (ch_num_milliseconds lib (now - wb_start w))"
  let ?d = "nat (ch_num_milliseconds lib (wb_duration w))"
  have ms: "unat (non_negative_millis (ch_num_milliseconds lib d)) =
      nat (ch_num_milliseconds lib d)" for d
    using chrono_millis_i64 [OF assms, of d] by (simp add: unat_non_negative_millis)
  have e: "?e \<le> 18446744073709551615"
    using chrono_millis_i64 [OF assms, of "now - wb_start w"] by simp
  have "unat (ucast (bp_hard_limit p) * non_negative_millis (ch_num_milliseconds lib (now - wb_start w)) :: u128) =
      ?h * ?e"
    using e unat_u64_le [of "bp_hard_limit p"]
    by (subst u128_mult_no_overflow) (simp_all add: ms unat_u64_u128)
  moreover have "unat (max (non_negative_millis (ch_num_milliseconds lib (wb_duration w))) 1) = max ?d 1"
    by (simp add: max_def word_le_nat_alt ms)
  moreover have cap: "min c (min c a + min c b) = min c (a + b)" for a b c :: nat
    by (simp add: min_def)
  ultimately show ?thesis
    unfolding paced_limit_def Let_def unat_min_u64 unat_sat_add unat_saturating_u64 unat_div
      unat_percent_of pace_def cap by (simp only:)
qed

lemma unat_usable_limit:
  "unat (sat_sub (bp_hard_limit p) (percent_of (bp_hard_limit p) (pw_emergency_reserve_percent s))) =
     unat (bp_hard_limit p) - reserve_units (unat (bp_hard_limit p)) s"
proof -
  have cap: "h - min 18446744073709551615 x = h - x" if "h \<le> 18446744073709551615" for h x :: nat
    using that by auto
  show ?thesis
    unfolding unat_sat_sub unat_percent_of reserve_units_def by (rule cap) (rule unat_u64_le)
qed

lemma unat_spent:
  assumes "bp_hard_limit p < u64_max" "\<not> bp_hard_limit p < sat_add used amount"
  shows "unat (used + amount) = unat used + unat amount"
    and "unat (sat_add used amount) = unat used + unat amount"
proof -
  have "unat used + unat amount \<le> 18446744073709551615"
    using assms by (simp add: word_nat not_less min_def split: if_splits)
  then show "unat (used + amount) = unat used + unat amount"
    and "unat (sat_add used amount) = unat used + unat amount"
    by (simp_all add: unat_add_no_wrap unat_sat_add)
qed

lemma evaluate_preserve_spec:
  assumes lib: "chrono_laws lib" and max: "bp_hard_limit p < u64_max"
    and fits: "\<not> bp_hard_limit p < sat_add used amount"
    and strat: "bp_strategy p = PreserveForWindow s"
  shows "pe_denial_reason (evaluate_preserve lib p s used amount prio w now) =
    denial_spec lib p (unat used + unat amount) prio w now"
proof -
  define spent where "spent = unat used + unat amount"
  note sp = unat_spent [OF max fits, folded spent_def]
  have h: "spent \<le> unat (bp_hard_limit p)"
    using fits sp(2) by (simp add: word_less_nat_alt)
  with unat_u64_le [of "bp_hard_limit p"] have spent_max: "spent \<le> 18446744073709551615" by simp
  let ?usable = "sat_sub (bp_hard_limit p) (percent_of (bp_hard_limit p) (pw_emergency_reserve_percent s))"
  have usable: "?usable < sat_add used amount \<longleftrightarrow>
      unat (bp_hard_limit p) - reserve_units (unat (bp_hard_limit p)) s < spent"
    by (simp add: word_less_nat_alt sp unat_usable_limit)
  have paced: "paced_limit lib p w now ?usable s < sat_add used amount \<longleftrightarrow>
      unat (bp_hard_limit p) - reserve_units (unat (bp_hard_limit p)) s < spent \<or>
      pace lib (unat (bp_hard_limit p)) s w now < spent"
    using spent_max by (auto simp: word_less_nat_alt sp unat_paced_limit [OF lib] unat_usable_limit)
  have remaining: "sat_sub (bp_hard_limit p) (used + amount) < m \<longleftrightarrow>
      unat (bp_hard_limit p) - spent < unat m" for m
    by (simp add: word_nat sp)
  show ?thesis
    using h unfolding spent_def [symmetric]
    by (auto simp: evaluate_preserve_def denial_spec_def strat Let_def pacing_evaluation_new_def
        usable paced remaining split: option.splits)
qed

lemma evaluate_policy_spec:
  assumes lib: "chrono_laws lib" and max: "bp_hard_limit p < u64_max"
  shows "pe_denial_reason (evaluate_policy lib p used amount prio w now) =
    denial_spec lib p (unat used + unat amount) prio w now"
proof (cases "bp_hard_limit p < sat_add used amount")
  case True
  then have "unat (bp_hard_limit p) < unat used + unat amount"
    by (simp add: word_nat)
  with True show ?thesis
    by (simp add: evaluate_policy_def denial_spec_def pacing_evaluation_new_def)
next
  case fits: False
  note sp = unat_spent [OF max fits]
  have h: "unat used + unat amount \<le> unat (bp_hard_limit p)"
    using fits sp(2) by (simp add: word_less_nat_alt)
  show ?thesis
  proof (cases "bp_strategy p")
    case HardLimitOnly
    with fits h show ?thesis
      by (simp add: evaluate_defs denial_spec_def)
  next
    case (PreserveForWindow s)
    with evaluate_preserve_spec [OF lib max fits] fits show ?thesis
      by (simp add: evaluate_policy_def)
  next
    case (ReserveCapacity s)
    have "sat_sub (bp_hard_limit p) (rc_reserved_units s) < sat_add used amount \<longleftrightarrow>
        unat (bp_hard_limit p) - unat (rc_reserved_units s) < unat used + unat amount"
      by (simp add: word_less_nat_alt sp unat_sat_sub)
    with ReserveCapacity fits h show ?thesis
      by (simp add: evaluate_policy_def evaluate_reserve_def pacing_evaluation_new_def
          denial_spec_def Let_def)
  qed
qed

section \<open>How a decision changes with priority, spending and time\<close>

lemma denial_spec_priority_mono:
  "denial_spec lib p spent prio w now = None \<Longrightarrow> prio \<le> prio' \<Longrightarrow>
     denial_spec lib p spent prio' w now = None"
  by (auto simp: denial_spec_def Let_def split: budget_strategy.splits option.splits if_splits)

lemma denial_spec_spent_mono:
  "denial_spec lib p spent prio w now = None \<Longrightarrow> spent' \<le> spent \<Longrightarrow>
     denial_spec lib p spent' prio w now = None"
  by (auto simp: denial_spec_def Let_def not_less
      split: budget_strategy.splits option.splits if_splits)

lemma millis_mono:
  assumes lib: "chrono_laws lib" and "d \<le> d'" "d' \<le> max_duration"
  shows "nat (ch_num_milliseconds lib d) \<le> nat (ch_num_milliseconds lib d')"
proof (cases "0 \<le> d")
  case True
  then have "ch_num_milliseconds lib d \<le> ch_num_milliseconds lib d'"
    using assms by (simp add: chrono_millis zdiv_mono1 nanos_per_milli_def)
  then show ?thesis by simp
next
  case False
  then have "ch_num_milliseconds lib d \<le> 0"
    using lib by (simp add: chrono_millis_nonpos)
  then show ?thesis by simp
qed

lemma pace_mono:
  assumes "chrono_laws lib" "now \<le> now'" "now' - wb_start w \<le> max_duration"
  shows "pace lib h s w now \<le> pace lib h s w now'"
  unfolding pace_def using assms
  by (intro add_mono div_le_mono mult_le_mono2 millis_mono) auto

text \<open>Once the window is over, the whole hard limit has been released by the pace.\<close>

lemma pace_full:
  assumes lib: "chrono_laws lib" and w: "wb_wf w" "wb_end w \<le> now"
    "now - wb_start w \<le> max_duration" and ms: "nanos_per_milli \<le> wb_duration w"
  shows "h \<le> pace lib h s w now"
proof -
  let ?d = "nat (ch_num_milliseconds lib (wb_duration w))"
  let ?e = "nat (ch_num_milliseconds lib (now - wb_start w))"
  have dur: "wb_duration w \<le> now - wb_start w"
    using w by (simp add: wb_duration_def)
  then have de: "?d \<le> ?e" using lib w by (intro millis_mono) auto
  have "0 < nanos_per_milli" by (simp add: nanos_per_milli_def)
  with lib ms dur w(3) have d: "0 < ?d"
    by (simp add: chrono_millis pos_imp_zdiv_pos_iff)
  then have "max ?d 1 = ?d" by simp
  moreover have "h \<le> h * ?e div ?d"
    using d de by (simp add: less_eq_div_iff_mult_less_eq)
  ultimately have "h \<le> h * ?e div max ?d 1" by simp
  then show ?thesis by (simp add: pace_def)
qed

lemma denial_spec_time_mono:
  assumes "chrono_laws lib" "now \<le> now'" "now' - wb_start w \<le> max_duration"
    and "denial_spec lib p spent prio w now = None"
  shows "denial_spec lib p spent prio w now' = None"
proof -
  have "pace lib h s w now \<le> pace lib h s w now'" for h s
    using assms(1-3) by (rule pace_mono)
  then have "\<not> pace lib h s w now < spent \<Longrightarrow> \<not> pace lib h s w now' < spent" for h s
    by (metis not_less order_trans)
  with assms(4) show ?thesis
    by (auto simp: denial_spec_def Let_def split: budget_strategy.splits option.splits if_splits)
qed

section \<open>The snapshot numbers\<close>

text \<open>
  The strategies whose whole decision the effective limit carries: no unit is withheld by a rule
  the limit passed to the store does not express.
\<close>

fun limit_carries_decision :: "budget_strategy \<Rightarrow> priority \<Rightarrow> bool" where
  "limit_carries_decision HardLimitOnly prio \<longleftrightarrow> True"
| "limit_carries_decision (PreserveForWindow s) prio \<longleftrightarrow>
     prio = Critical \<or> pw_minimum_remaining_units s = None"
| "limit_carries_decision (ReserveCapacity s) prio \<longleftrightarrow> rc_reserved_for s \<le> prio"

text \<open>
  For those, \<open>safe_to_spend_now\<close> is exact: a request is allowed when, and only when, it asks for
  no more. (For the others it promises too much; see the findings of the manifest.)
\<close>

lemma safe_to_spend_is_slack:
  assumes "limit_carries_decision (bp_strategy p) prio"
    and "pe_denial_reason (evaluate_policy lib p used 0 prio w now) = None"
  shows "pe_safe_to_spend_now (evaluate_policy lib p used 0 prio w now) =
      sat_sub (pe_effective_limit (evaluate_policy lib p used 0 prio w now)) used"
  using assms
  by (cases "bp_strategy p")
    (auto simp: evaluate_defs Let_def split: option.splits if_splits)

lemma limit_decides:
  assumes "limit_carries_decision (bp_strategy p) prio"
    and "pe_denial_reason (evaluate_policy lib p used 0 prio w now) = None"
  shows "pe_denial_reason (evaluate_policy lib p used amount prio w now) = None \<longleftrightarrow>
      sat_add used amount \<le> pe_effective_limit (evaluate_policy lib p used 0 prio w now)"
proof -
  have le: "paced_limit lib p w now u s \<le> u" for u s
    by (rule paced_limit_le_usable)
  have ls: "sat_sub h r \<le> h" for h r
    by (rule sat_sub_le)
  show ?thesis
  proof (cases "bp_strategy p")
    case HardLimitOnly
    with assms show ?thesis
      by (auto simp: evaluate_defs Let_def split: if_splits)
  next
    case (PreserveForWindow s)
    with assms show ?thesis
      by (auto simp: evaluate_defs Let_def not_less split: if_splits option.splits
          intro: order_trans [OF _ le] order_trans [OF order_trans [OF _ le] ls])
  next
    case (ReserveCapacity s)
    with assms show ?thesis
      by (auto simp: evaluate_defs Let_def split: if_splits)
  qed
qed


end
