(* ===== verification/Store_Contract.thy ===== *)
theory Store_Contract
  imports Keys Windows
begin

text \<open>
  \<open>store/contract.rs\<close>: the data a store exchanges with the broker, the trait \<open>BudgetStore\<close> as a
  record of operations on a store state, and the contract every store must keep as a locale, with
  what a client may conclude from it.
\<close>

section \<open>Data\<close>

record store_reservation =
  sr_id :: reservation_id
  sr_expires_at :: datetime

definition store_reservation_new :: "reservation_id \<Rightarrow> datetime \<Rightarrow> store_reservation" where
  "store_reservation_new rid expires_at = \<lparr>sr_id = rid, sr_expires_at = expires_at\<rparr>"

record counter_usage =
  cu_committed :: u64
  cu_reserved :: u64

definition counter_usage_new :: "u64 \<Rightarrow> u64 \<Rightarrow> counter_usage" where
  "counter_usage_new committed reserved = \<lparr>cu_committed = committed, cu_reserved = reserved\<rparr>"

definition default_counter_usage :: counter_usage where
  "default_counter_usage = \<lparr>cu_committed = 0, cu_reserved = 0\<rparr>"

definition cu_used :: "counter_usage \<Rightarrow> u64" where
  "cu_used u = sat_add (cu_committed u) (cu_reserved u)"

record store_reservation_result =
  srr_allowed :: bool
  srr_reservation :: "store_reservation option"
  srr_usage :: counter_usage

definition srr_allow :: "store_reservation \<Rightarrow> counter_usage \<Rightarrow> store_reservation_result" where
  "srr_allow reservation usage =
     \<lparr>srr_allowed = True, srr_reservation = Some reservation, srr_usage = usage\<rparr>"

definition srr_deny :: "counter_usage \<Rightarrow> store_reservation_result" where
  "srr_deny usage = \<lparr>srr_allowed = False, srr_reservation = None, srr_usage = usage\<rparr>"

record reserve_request =
  rr_key :: store_key
  rr_amount :: u64
  rr_hard_limit :: u64
  rr_effective_limit :: u64
  rr_reservation_ttl :: duration
  rr_window :: window_bounds
  rr_idempotency_key :: "idempotency_key option"
  rr_now :: datetime

definition reserve_request_validate :: "reserve_request \<Rightarrow> (unit, store_error) outcome" where
  "reserve_request_validate r =
     (if rr_amount r = 0 then Err (StInvalidInput ''amount must be greater than zero'')
      else if rr_hard_limit r < rr_effective_limit r
      then Err (StInvalidInput ''effective limit must not exceed hard limit'')
      else if rr_reservation_ttl r \<le> 0
      then Err (StInvalidInput ''reservation ttl must be positive'')
      else Ok ())"

lemma reserve_request_validate_Ok [simp]:
  "reserve_request_validate r = Ok u \<longleftrightarrow>
     rr_amount r \<noteq> 0 \<and> rr_effective_limit r \<le> rr_hard_limit r \<and> 0 < rr_reservation_ttl r"
  by (auto simp: reserve_request_validate_def not_less not_le)

lemma reserve_request_validate_no_panic [simp]: "reserve_request_validate r \<noteq> Panic"
  by (simp add: reserve_request_validate_def)

section \<open>The trait\<close>

text \<open>
  A store is a state and four operations on it. \<open>commit\<close> and \<open>refund\<close> read the system clock
  themselves, so the instant they read is an argument.
\<close>

type_synonym ('a, 's) store_effect = "('a, store_error) outcome \<times> 's"

record 's store_ops =
  st_reserve_if_allowed :: "reserve_request \<Rightarrow> 's \<Rightarrow> (store_reservation_result, 's) store_effect"
  st_commit :: "datetime \<Rightarrow> reservation_id \<Rightarrow> 's \<Rightarrow> (unit, 's) store_effect"
  st_refund :: "datetime \<Rightarrow> reservation_id \<Rightarrow> 's \<Rightarrow> (unit, 's) store_effect"
  st_usage :: "store_key \<Rightarrow> window_bounds \<Rightarrow> datetime \<Rightarrow> 's \<Rightarrow> (counter_usage, 's) store_effect"

text \<open>One call of a store by some client, and the state after it.\<close>

datatype store_call =
    ReserveCall reserve_request
  | CommitCall datetime reservation_id
  | RefundCall datetime reservation_id
  | UsageCall store_key window_bounds datetime

fun store_after :: "'s store_ops \<Rightarrow> store_call \<Rightarrow> 's \<Rightarrow> 's" where
  "store_after ops (ReserveCall r) s = snd (st_reserve_if_allowed ops r s)"
| "store_after ops (CommitCall t rid) s = snd (st_commit ops t rid s)"
| "store_after ops (RefundCall t rid) s = snd (st_refund ops t rid s)"
| "store_after ops (UsageCall k w t) s = snd (st_usage ops k w t s)"

text \<open>What a call returns, and a whole sequence of calls with its replies.\<close>

datatype store_reply =
    ReserveReply "(store_reservation_result, store_error) outcome"
  | SettleReply "(unit, store_error) outcome"
  | UsageReply "(counter_usage, store_error) outcome"

fun store_reply_to :: "'s store_ops \<Rightarrow> store_call \<Rightarrow> 's \<Rightarrow> store_reply" where
  "store_reply_to ops (ReserveCall r) s = ReserveReply (fst (st_reserve_if_allowed ops r s))"
| "store_reply_to ops (CommitCall t rid) s = SettleReply (fst (st_commit ops t rid s))"
| "store_reply_to ops (RefundCall t rid) s = SettleReply (fst (st_refund ops t rid s))"
| "store_reply_to ops (UsageCall k w t) s = UsageReply (fst (st_usage ops k w t s))"

text \<open>A reply that is an error.\<close>

fun reply_failed :: "store_reply \<Rightarrow> bool" where
  "reply_failed (ReserveReply x) \<longleftrightarrow> (case x of Err _ \<Rightarrow> True | _ \<Rightarrow> False)"
| "reply_failed (SettleReply x) \<longleftrightarrow> (case x of Err _ \<Rightarrow> True | _ \<Rightarrow> False)"
| "reply_failed (UsageReply x) \<longleftrightarrow> (case x of Err _ \<Rightarrow> True | _ \<Rightarrow> False)"

fun store_replies :: "'s store_ops \<Rightarrow> store_call list \<Rightarrow> 's \<Rightarrow> store_reply list" where
  "store_replies ops [] s = []"
| "store_replies ops (c # cs) s = store_reply_to ops c s # store_replies ops cs (store_after ops c s)"

text \<open>
  The calls whose reservations keep to a predicate, such as limits below \<open>u64::MAX\<close> (at that limit
  the counters saturate and enforce nothing).
\<close>

fun call_fits :: "(reserve_request \<Rightarrow> bool) \<Rightarrow> store_call \<Rightarrow> bool" where
  "call_fits fit (ReserveCall r) \<longleftrightarrow> fit r"
| "call_fits fit _ \<longleftrightarrow> True"

definition exact_request :: "reserve_request \<Rightarrow> bool" where
  "exact_request r \<longleftrightarrow> rr_effective_limit r < u64_max"

abbreviation exact_call :: "store_call \<Rightarrow> bool" where
  "exact_call \<equiv> call_fits exact_request"

section \<open>The contract\<close>

text \<open>
  \<open>wf\<close> is the store's own invariant; \<open>slot k w\<close> names the counter the store uses for a key and a
  window (two keys may share one), and \<open>level s c\<close> is what counter \<open>c\<close> holds: committed plus actively
  reserved units. No operation but a reservation raises a level, and a reservation raises only its own
  counter's, to no more than the limit it was given. \<open>fit\<close> are the requests the store is made for, such
  as those with limits in the range where its arithmetic is exact.
\<close>

locale budget_store =
  fixes ops :: "'s store_ops"
    and wf :: "'s \<Rightarrow> bool"
    and slot :: "store_key \<Rightarrow> window_bounds \<Rightarrow> 'c"
    and level :: "'s \<Rightarrow> 'c \<Rightarrow> nat"
    and fit :: "reserve_request \<Rightarrow> bool"
  assumes usage_wf: "wf s \<Longrightarrow> wf (snd (st_usage ops k w t s))"
    and usage_level: "wf s \<Longrightarrow> level (snd (st_usage ops k w t s)) c \<le> level s c"
    and usage_reports: "wf s \<Longrightarrow> st_usage ops k w t s = (Ok u, s') \<Longrightarrow>
          unat (cu_used u) = level s' (slot k w)"
    and reserve_wf: "wf s \<Longrightarrow> fit r \<Longrightarrow>
          wf (snd (st_reserve_if_allowed ops r s))"
    and reserve_level: "wf s \<Longrightarrow> fit r \<Longrightarrow>
          level (snd (st_reserve_if_allowed ops r s)) c \<le>
            (if c = slot (rr_key r) (rr_window r)
             then max (level s c) (unat (rr_effective_limit r)) else level s c)"
    and reserve_reports: "wf s \<Longrightarrow> fit r \<Longrightarrow>
          st_reserve_if_allowed ops r s = (Ok x, s') \<Longrightarrow>
          level s' (slot (rr_key r) (rr_window r)) \<le> unat (cu_used (srr_usage x))
          \<and> unat (cu_used (srr_usage x)) \<le>
              max (level s (slot (rr_key r) (rr_window r))) (unat (rr_effective_limit r))"
    and reserve_returns: "wf s \<Longrightarrow> st_reserve_if_allowed ops r s = (Ok x, s') \<Longrightarrow>
          srr_allowed x = (srr_reservation x \<noteq> None)"
    and reserve_admits: "wf s \<Longrightarrow> fit r \<Longrightarrow> st_usage ops (rr_key r) (rr_window r) (rr_now r) s = (Ok u, s1) \<Longrightarrow>
          sat_add (cu_used u) (rr_amount r) \<le> rr_effective_limit r \<Longrightarrow>
          rr_idempotency_key r = None \<Longrightarrow>
          st_reserve_if_allowed ops r s1 = (Ok x, s') \<Longrightarrow> srr_allowed x"
    and commit_wf: "wf s \<Longrightarrow> wf (snd (st_commit ops t rid s))"
    and commit_level: "wf s \<Longrightarrow> level (snd (st_commit ops t rid s)) c \<le> level s c"
    and refund_wf: "wf s \<Longrightarrow> wf (snd (st_refund ops t rid s))"
    and refund_level: "wf s \<Longrightarrow> level (snd (st_refund ops t rid s)) c \<le> level s c"
begin

lemma after_wf: "call_fits fit x \<Longrightarrow> wf s \<Longrightarrow> wf (store_after ops x s)"
  by (cases x) (simp_all add: usage_wf reserve_wf commit_wf refund_wf)

end

text \<open>
  A store that also settles reservations for good: after a successful commit or refund, every
  further commit or refund of the same reservation succeeds and changes no counter (the contract
  test calls \<open>commit\<close> twice).
\<close>

locale settling_store = budget_store +
  assumes commit_settles: "wf s \<Longrightarrow> st_commit ops t rid s = (Ok (), s') \<Longrightarrow>
          fst (st_commit ops t' rid s') = Ok () \<and> fst (st_refund ops t' rid s') = Ok ()"
    and refund_settles: "wf s \<Longrightarrow> st_refund ops t rid s = (Ok (), s') \<Longrightarrow>
          fst (st_commit ops t' rid s') = Ok () \<and> fst (st_refund ops t' rid s') = Ok ()"

end
