(* ===== verification/Usage.thy ===== *)
theory Usage
  imports Requests Pacing Store_Contract
begin

text \<open>
  \<open>usage.rs\<close> and \<open>report/mod.rs\<close>: usage queries, the snapshot built from a usage count, and
  the report over all policies; \<open>telemetry/mod.rs\<close>: the events emitted when the feature
  \<open>tracing\<close> is enabled.
\<close>

section \<open>Snapshots\<close>

text \<open>
  Floating point is kept symbolic: an \<open>f64\<close> is the expression the code computes, and what IEEE
  rounding makes of it is left open.
\<close>

datatype f64 =
    F64_nat nat
  | F64_infinity
  | F64_of_u64 u64
  | F64_div f64 f64
  | F64_mul f64 f64

text \<open>\<open>ToPrimitive::to_f64\<close> of a \<open>u64\<close> never fails.\<close>

definition u64_to_f64 :: "u64 \<Rightarrow> f64 option" where
  "u64_to_f64 v = Some (F64_of_u64 v)"

record usage_query =
  uq_key :: budget_key

definition usage_query_new :: "budget_key \<Rightarrow> usage_query" where
  "usage_query_new k = \<lparr>uq_key = k\<rparr>"

record usage_snapshot_input =
  si_policy_name :: string
  si_key :: budget_key
  si_unit :: budget_unit
  si_used :: u64
  si_hard_limit :: u64
  si_safe_to_spend_now :: u64
  si_reserved_remaining :: u64
  si_window_start :: datetime
  si_window_end :: datetime
  si_ahead_of_pace :: bool

record usage_snapshot =
  us_policy_name :: string
  us_key :: budget_key
  us_unit :: budget_unit
  us_used :: u64
  us_hard_limit :: u64
  us_remaining_hard :: u64
  us_safe_to_spend_now :: u64
  us_reserved_remaining :: u64
  us_percent_used :: f64
  us_window_start :: datetime
  us_window_end :: datetime
  us_resets_at :: datetime
  us_ahead_of_pace :: bool

definition usage_snapshot_new :: "usage_snapshot_input \<Rightarrow> usage_snapshot" where
  "usage_snapshot_new input =
     (let remaining_hard = sat_sub (si_hard_limit input) (si_used input);
          percent_used =
            (if si_hard_limit input = 0 then F64_nat 0
             else
               let used = (case u64_to_f64 (si_used input) of None \<Rightarrow> F64_infinity | Some f \<Rightarrow> f);
                   hard_limit = (case u64_to_f64 (si_hard_limit input) of None \<Rightarrow> F64_infinity | Some f \<Rightarrow> f)
               in F64_mul (F64_div used hard_limit) (F64_nat 100))
      in \<lparr>us_policy_name = si_policy_name input, us_key = si_key input, us_unit = si_unit input,
          us_used = si_used input, us_hard_limit = si_hard_limit input,
          us_remaining_hard = remaining_hard, us_safe_to_spend_now = si_safe_to_spend_now input,
          us_reserved_remaining = si_reserved_remaining input, us_percent_used = percent_used,
          us_window_start = si_window_start input, us_window_end = si_window_end input,
          us_resets_at = si_window_end input, us_ahead_of_pace = si_ahead_of_pace input\<rparr>)"

lemma usage_snapshot_new_simps [simp]:
  "us_policy_name (usage_snapshot_new i) = si_policy_name i"
  "us_key (usage_snapshot_new i) = si_key i"
  "us_unit (usage_snapshot_new i) = si_unit i"
  "us_used (usage_snapshot_new i) = si_used i"
  "us_hard_limit (usage_snapshot_new i) = si_hard_limit i"
  "us_remaining_hard (usage_snapshot_new i) = sat_sub (si_hard_limit i) (si_used i)"
  "us_safe_to_spend_now (usage_snapshot_new i) = si_safe_to_spend_now i"
  "us_reserved_remaining (usage_snapshot_new i) = si_reserved_remaining i"
  "us_window_start (usage_snapshot_new i) = si_window_start i"
  "us_window_end (usage_snapshot_new i) = si_window_end i"
  "us_resets_at (usage_snapshot_new i) = si_window_end i"
  "us_ahead_of_pace (usage_snapshot_new i) = si_ahead_of_pace i"
  by (simp_all add: usage_snapshot_new_def Let_def)

section \<open>Reports\<close>

record budget_report =
  br_generated_at :: datetime
  br_budgets :: "usage_snapshot list"

definition budget_report_new :: "datetime \<Rightarrow> usage_snapshot list \<Rightarrow> budget_report" where
  "budget_report_new generated_at budgets = \<lparr>br_generated_at = generated_at, br_budgets = budgets\<rparr>"

section \<open>Telemetry\<close>

datatype telemetry_event =
    AllowedEvent budget_key u64 u64 u64
  | DeniedEvent budget_key denial_reason u64 u64 u64
  | ReservationCreatedEvent budget_key u64 u64
  | ReservationCommittedEvent string u64
  | ReservationRefundedEvent string u64
  | StoreUnavailableEvent string fail_mode budget_key string

definition telemetry_allowed :: "budget_request \<Rightarrow> usage_snapshot \<Rightarrow> telemetry_event" where
  "telemetry_allowed request usage =
     AllowedEvent (rq_key request) (us_used usage) (us_remaining_hard usage) (us_safe_to_spend_now usage)"

definition telemetry_denied :: "budget_request \<Rightarrow> denial_reason \<Rightarrow> usage_snapshot \<Rightarrow> telemetry_event" where
  "telemetry_denied request reason usage =
     DeniedEvent (rq_key request) reason (us_used usage) (us_remaining_hard usage) (us_safe_to_spend_now usage)"

definition telemetry_reservation_created :: "budget_request \<Rightarrow> usage_snapshot \<Rightarrow> telemetry_event" where
  "telemetry_reservation_created request usage =
     ReservationCreatedEvent (rq_key request) (rq_amount request) (us_used usage)"

definition telemetry_reservation_committed :: "string \<Rightarrow> u64 \<Rightarrow> telemetry_event" where
  "telemetry_reservation_committed policy_name amount = ReservationCommittedEvent policy_name amount"

definition telemetry_reservation_refunded :: "string \<Rightarrow> u64 \<Rightarrow> telemetry_event" where
  "telemetry_reservation_refunded policy_name amount = ReservationRefundedEvent policy_name amount"

definition telemetry_store_unavailable ::
    "budget_policy \<Rightarrow> budget_request \<Rightarrow> store_error \<Rightarrow> telemetry_event" where
  "telemetry_store_unavailable policy request e =
     StoreUnavailableEvent (bp_name policy) (bp_fail_mode policy) (rq_key request) (store_error_display e)"

end
