(* ===== verification/Reservations.thy ===== *)
theory Reservations
  imports Usage
begin

text \<open>
  \<open>reservation.rs\<close>: the handle a caller commits or refunds, and \<open>decision.rs\<close>: the decision that
  carries it. A handle shares the broker's store (an \<open>Arc\<close>), so whether it is attached to a store is
  all there is to model of it; the calls take the store's state.
\<close>

type_synonym ('a, 's) broker_effect = "('a, budget_error) outcome \<times> telemetry_event list \<times> 's"

record budget_reservation =
  rs_id :: reservation_id
  rs_policy_name :: string
  rs_key :: budget_key
  rs_amount :: u64
  rs_unit :: budget_unit
  rs_expires_at :: datetime
  rs_attached :: bool

definition budget_reservation_new ::
    "reservation_id \<Rightarrow> string \<Rightarrow> budget_key \<Rightarrow> u64 \<Rightarrow> budget_unit \<Rightarrow> datetime \<Rightarrow> budget_reservation" where
  "budget_reservation_new rid policy_name key amount unit expires_at =
     \<lparr>rs_id = rid, rs_policy_name = policy_name, rs_key = key, rs_amount = amount,
      rs_unit = unit, rs_expires_at = expires_at, rs_attached = True\<rparr>"

definition budget_reservation_preview ::
    "string \<Rightarrow> budget_key \<Rightarrow> u64 \<Rightarrow> budget_unit \<Rightarrow> datetime \<Rightarrow> budget_reservation" where
  "budget_reservation_preview policy_name key amount unit expires_at =
     \<lparr>rs_id = ReservationId 0, rs_policy_name = policy_name, rs_key = key, rs_amount = amount,
      rs_unit = unit, rs_expires_at = expires_at, rs_attached = False\<rparr>"

definition reservation_commit ::
    "'s store_ops \<Rightarrow> datetime \<Rightarrow> budget_reservation \<Rightarrow> 's \<Rightarrow> (unit, 's) broker_effect" where
  "reservation_commit ops utc_now v s =
     (if \<not> rs_attached v then (Err ReservationNotFoundError, [], s)
      else
        case st_commit ops utc_now (rs_id v) s of (x, s') \<Rightarrow>
        (case map_err from_store_error x of
           Ok _ \<Rightarrow> (Ok (), [telemetry_reservation_committed (rs_policy_name v) (rs_amount v)], s')
         | Err e \<Rightarrow> (Err e, [], s')
         | Panic \<Rightarrow> (Panic, [], s')))"

definition reservation_refund ::
    "'s store_ops \<Rightarrow> datetime \<Rightarrow> budget_reservation \<Rightarrow> 's \<Rightarrow> (unit, 's) broker_effect" where
  "reservation_refund ops utc_now v s =
     (if \<not> rs_attached v then (Err ReservationNotFoundError, [], s)
      else
        case st_refund ops utc_now (rs_id v) s of (x, s') \<Rightarrow>
        (case map_err from_store_error x of
           Ok _ \<Rightarrow> (Ok (), [telemetry_reservation_refunded (rs_policy_name v) (rs_amount v)], s')
         | Err e \<Rightarrow> (Err e, [], s')
         | Panic \<Rightarrow> (Panic, [], s')))"

lemma reservation_commit_state:
  "snd (snd (reservation_commit ops t v s)) = (if rs_attached v then snd (st_commit ops t (rs_id v) s) else s)"
  by (auto simp: reservation_commit_def split: prod.splits outcome.splits)

lemma reservation_refund_state:
  "snd (snd (reservation_refund ops t v s)) = (if rs_attached v then snd (st_refund ops t (rs_id v) s) else s)"
  by (auto simp: reservation_refund_def split: prod.splits outcome.splits)

section \<open>Decisions\<close>

datatype budget_decision =
    AllowLive budget_reservation usage_snapshot
  | DenyLive denial_reason usage_snapshot fallback_action

fun decision_usage :: "budget_decision \<Rightarrow> usage_snapshot" where
  "decision_usage (AllowLive v u) = u"
| "decision_usage (DenyLive r u a) = u"

end
