(* ===== verification/Broker.thy ===== *)
theory Broker
  imports Reservations
begin

text \<open>
  \<open>broker.rs\<close>: the policy registry, the builder of the warden, and the broker's operations over
  any store (the record \<open>store_ops\<close>). Every operation takes the instant the system clock shows
  when it runs. \<open>reserve\<close> suspends at two store calls; \<open>reserve_begin\<close> is its code up to the
  second, \<open>reserve_finish\<close> the rest, so that other operations can run in between.
\<close>

section \<open>The policy registry\<close>

text \<open>\<open>Iterator::max_by_key\<close>: of several elements with the greatest key, the last.\<close>

fun max_by_key :: "('a \<Rightarrow> 'k::linorder) \<Rightarrow> 'a list \<Rightarrow> 'a option" where
  "max_by_key f [] = None"
| "max_by_key f (x # xs) =
     Some (fold (\<lambda>y best. if f y < f best then best else y) xs x)"

fun has_duplicate :: "budget_policy list \<Rightarrow> bool" where
  "has_duplicate [] \<longleftrightarrow> False"
| "has_duplicate (p # ps) \<longleftrightarrow> list_ex (\<lambda>candidate. bp_name candidate = bp_name p) ps \<or> has_duplicate ps"

type_synonym policy_registry = "budget_policy list"

definition registry_new :: "budget_policy list \<Rightarrow> (policy_registry, budget_error) outcome" where
  "registry_new policies =
     (if has_duplicate policies then Err (ConfigError ''policy names must be unique'') else Ok policies)"

definition registry_find :: "policy_registry \<Rightarrow> budget_key \<Rightarrow> budget_policy option" where
  "registry_find policies key =
     max_by_key (\<lambda>policy. specificity (bp_key policy))
       (filter (\<lambda>policy. pattern_matches (bp_key policy) key) policies)"

section \<open>The warden and its builder\<close>

text \<open>
  A \<open>Clock\<close> maps the instant of the system clock to the instant it reports; \<open>clock.rs\<close>'s
  \<open>SystemClock\<close> is the identity.
\<close>

type_synonym clock = "datetime \<Rightarrow> datetime"

definition system_clock :: clock where
  "system_clock utc_now = utc_now"

record 's budget_warden =
  wd_store :: "'s store_ops"
  wd_policies :: policy_registry
  wd_clock :: clock
  wd_reservation_ttl :: duration

record 's warden_builder =
  wbd_store :: "'s store_ops option"
  wbd_policies :: "budget_policy list"
  wbd_clock :: "clock option"
  wbd_reservation_ttl :: "duration option"

definition warden_builder_new :: "'s warden_builder" where
  "warden_builder_new =
     \<lparr>wbd_store = None, wbd_policies = [], wbd_clock = None, wbd_reservation_ttl = None\<rparr>"

definition wbd_set_store :: "'s store_ops \<Rightarrow> 's warden_builder \<Rightarrow> 's warden_builder" where
  "wbd_set_store store b = b\<lparr>wbd_store := Some store\<rparr>"

definition wbd_add_policy :: "budget_policy \<Rightarrow> 's warden_builder \<Rightarrow> 's warden_builder" where
  "wbd_add_policy policy b = b\<lparr>wbd_policies := wbd_policies b @ [policy]\<rparr>"

definition wbd_set_clock :: "clock \<Rightarrow> 's warden_builder \<Rightarrow> 's warden_builder" where
  "wbd_set_clock c b = b\<lparr>wbd_clock := Some c\<rparr>"

definition wbd_set_reservation_ttl :: "duration \<Rightarrow> 's warden_builder \<Rightarrow> 's warden_builder" where
  "wbd_set_reservation_ttl ttl b = b\<lparr>wbd_reservation_ttl := Some ttl\<rparr>"

definition default_reservation_ttl :: duration where
  "default_reservation_ttl = duration_minutes 5"

definition unwrap_or :: "'a option \<Rightarrow> 'a \<Rightarrow> 'a" where
  "unwrap_or x d = (case x of None \<Rightarrow> d | Some v \<Rightarrow> v)"

definition warden_build :: "'s warden_builder \<Rightarrow> ('s budget_warden, budget_error) outcome" where
  "warden_build b =
     (case wbd_store b of
        None \<Rightarrow> Err (ConfigError ''budget store must be configured'')
      | Some store \<Rightarrow>
          let reservation_ttl = unwrap_or (wbd_reservation_ttl b) default_reservation_ttl
          in if reservation_ttl \<le> 0 then Err (ConfigError ''reservation ttl must be positive'')
             else
               and_then (registry_new (wbd_policies b)) (\<lambda>policies.
               Ok \<lparr>wd_store = store, wd_policies = policies,
                   wd_clock = unwrap_or (wbd_clock b) system_clock,
                   wd_reservation_ttl = reservation_ttl\<rparr>))"

section \<open>Helpers\<close>

definition validate_request_against_policy ::
    "budget_request \<Rightarrow> budget_policy \<Rightarrow> (unit, budget_error) outcome" where
  "validate_request_against_policy request policy =
     (if rq_unit request \<noteq> bp_unit policy
      then Err (InvalidRequestError ''request unit does not match policy unit'') else Ok ())"

definition policy_store_key :: "budget_policy \<Rightarrow> budget_key \<Rightarrow> store_key" where
  "policy_store_key policy key = store_key_new (bp_name policy) key (bp_unit policy)"

definition snapshot ::
    "budget_policy \<Rightarrow> budget_key \<Rightarrow> u64 \<Rightarrow> pacing_evaluation \<Rightarrow> window_bounds \<Rightarrow> usage_snapshot" where
  "snapshot policy key used evaluation window =
     usage_snapshot_new
       \<lparr>si_policy_name = bp_name policy, si_key = key, si_unit = bp_unit policy, si_used = used,
        si_hard_limit = bp_hard_limit policy,
        si_safe_to_spend_now = pe_safe_to_spend_now evaluation,
        si_reserved_remaining = pe_reserved_remaining evaluation,
        si_window_start = wb_start window, si_window_end = wb_end window,
        si_ahead_of_pace = pe_ahead_of_pace evaluation\<rparr>"

definition deny :: "budget_policy \<Rightarrow> denial_reason \<Rightarrow> usage_snapshot \<Rightarrow> budget_decision" where
  "deny policy reason usage =
     DenyLive reason usage (unwrap_or (bp_low_budget_action policy) (bp_exhausted_action policy))"

definition no_policy_decision ::
    "('tz, 'more) chrono_scheme \<Rightarrow> datetime \<Rightarrow> budget_request \<Rightarrow> (budget_decision, budget_error) outcome" where
  "no_policy_decision lib utc_now request =
     and_then (or_panic (ch_add lib utc_now (duration_seconds 1))) (\<lambda>window_end.
     Ok (DenyLive DeniedNoMatchingPolicy
       (usage_snapshot_new
         \<lparr>si_policy_name = '''', si_key = rq_key request, si_unit = rq_unit request, si_used = 0,
          si_hard_limit = 0, si_safe_to_spend_now = 0, si_reserved_remaining = 0,
          si_window_start = utc_now, si_window_end = window_end, si_ahead_of_pace = False\<rparr>)
       Reject))"

definition fail_open_decision ::
    "('tz, 'more) chrono_scheme \<Rightarrow> budget_policy \<Rightarrow> budget_request \<Rightarrow> window_bounds \<Rightarrow> datetime \<Rightarrow>
     store_error \<Rightarrow> (budget_decision, budget_error) outcome \<times> telemetry_event list" where
  "fail_open_decision lib policy request window now e =
     (let evaluation = evaluate_policy lib policy (cu_used default_counter_usage) (rq_amount request)
            (rq_priority request) window now;
          usage = snapshot policy (rq_key request) 0 evaluation window
      in (and_then (or_panic (ch_add lib now (duration_seconds 1))) (\<lambda>expires_at.
            Ok (AllowLive
              (budget_reservation_preview (bp_name policy) (rq_key request) (rq_amount request)
                (rq_unit request) expires_at)
              usage)),
          [telemetry_store_unavailable policy request e, telemetry_allowed request usage]))"

text \<open>The two arms for a store error: fail open, or return the converted error.\<close>

definition on_store_error ::
    "('tz, 'more) chrono_scheme \<Rightarrow> budget_policy \<Rightarrow> budget_request \<Rightarrow> window_bounds \<Rightarrow> datetime \<Rightarrow>
     store_error \<Rightarrow> (budget_decision, budget_error) outcome \<times> telemetry_event list" where
  "on_store_error lib policy request window now e =
     (if bp_fail_mode policy = Open then fail_open_decision lib policy request window now e
      else (Err (from_store_error e), []))"

text \<open>A reply and its events, next to the state of the store.\<close>

definition with_state :: "'a \<times> 'b \<Rightarrow> 's \<Rightarrow> 'a \<times> 'b \<times> 's" where
  "with_state r s = (case r of (x, events) \<Rightarrow> (x, events, s))"

lemma with_state_simps [simp]:
  "fst (with_state r s) = fst r" "snd (snd (with_state r s)) = s" "fst (snd (with_state r s)) = snd r"
  by (simp_all add: with_state_def split: prod.splits)

section \<open>Authorize and reserve\<close>

text \<open>
  The code both operations start with: find the policy, check the unit, take the time, compute the
  window and ask the store for the usage. It either replies or enters the evaluation.
\<close>

datatype broker_entry =
    Replied "(budget_decision, budget_error) outcome" "telemetry_event list"
  | Entered budget_policy datetime window_bounds counter_usage

definition broker_enter ::
    "('tz, 'more) chrono_scheme \<Rightarrow> 's budget_warden \<Rightarrow> datetime \<Rightarrow> budget_request \<Rightarrow> 's \<Rightarrow>
     broker_entry \<times> 's" where
  "broker_enter lib wd utc_now request s =
     (case registry_find (wd_policies wd) (rq_key request) of
        None \<Rightarrow> (Replied (no_policy_decision lib utc_now request) [], s)
      | Some policy \<Rightarrow>
     (case validate_request_against_policy request policy of
        Err e \<Rightarrow> (Replied (Err e) [], s)
      | Panic \<Rightarrow> (Replied Panic [], s)
      | Ok _ \<Rightarrow>
          let now = wd_clock wd utc_now in
     (case bounds_at lib (bp_window policy) now of
        Err e \<Rightarrow> (Replied (Err e) [], s)
      | Panic \<Rightarrow> (Replied Panic [], s)
      | Ok window \<Rightarrow>
     (case st_usage (wd_store wd) (policy_store_key policy (rq_key request)) window now s of
        (Ok usage, s') \<Rightarrow> (Entered policy now window usage, s')
      | (Panic, s') \<Rightarrow> (Replied Panic [], s')
      | (Err e, s') \<Rightarrow>
          (case on_store_error lib policy request window now e of
             (x, events) \<Rightarrow> (Replied x events, s'))))))"

definition authorize ::
    "('tz, 'more) chrono_scheme \<Rightarrow> 's budget_warden \<Rightarrow> datetime \<Rightarrow> budget_request \<Rightarrow> 's \<Rightarrow>
     (budget_decision, 's) broker_effect" where
  "authorize lib wd utc_now request s =
     (case broker_enter lib wd utc_now request s of
        (Replied x events, s') \<Rightarrow> (x, events, s')
      | (Entered policy now window usage, s') \<Rightarrow>
          let evaluation = evaluate_policy lib policy (cu_used usage) (rq_amount request)
                (rq_priority request) window now;
              snap = snapshot policy (rq_key request) (cu_used usage) evaluation window
          in
          case pe_denial_reason evaluation of
            Some reason \<Rightarrow> (Ok (deny policy reason snap), [telemetry_denied request reason snap], s')
          | None \<Rightarrow>
              (and_then (or_panic (ch_add lib now (wd_reservation_ttl wd))) (\<lambda>expires_at.
                 Ok (AllowLive
                   (budget_reservation_preview (bp_name policy) (rq_key request) (rq_amount request)
                     (rq_unit request) expires_at)
                   snap)),
               [telemetry_allowed request snap], s'))"

text \<open>A \<open>reserve\<close> waiting for the store to reserve.\<close>

record pending_reserve =
  pr_policy :: budget_policy
  pr_request :: budget_request
  pr_now :: datetime
  pr_window :: window_bounds
  pr_store_request :: reserve_request

datatype reserve_progress =
    Finished "(budget_decision, budget_error) outcome" "telemetry_event list"
  | Suspended pending_reserve

definition reserve_begin ::
    "('tz, 'more) chrono_scheme \<Rightarrow> 's budget_warden \<Rightarrow> datetime \<Rightarrow> budget_request \<Rightarrow> 's \<Rightarrow>
     reserve_progress \<times> 's" where
  "reserve_begin lib wd utc_now request s =
     (case broker_enter lib wd utc_now request s of
        (Replied x events, s') \<Rightarrow> (Finished x events, s')
      | (Entered policy now window usage, s') \<Rightarrow>
          let evaluation = evaluate_policy lib policy (cu_used usage) (rq_amount request)
                (rq_priority request) window now
          in
          case pe_denial_reason evaluation of
            Some reason \<Rightarrow>
              let snap = snapshot policy (rq_key request) (cu_used usage) evaluation window
              in (Finished (Ok (deny policy reason snap)) [telemetry_denied request reason snap], s')
          | None \<Rightarrow>
              (Suspended
                 \<lparr>pr_policy = policy, pr_request = request, pr_now = now, pr_window = window,
                  pr_store_request =
                    \<lparr>rr_key = policy_store_key policy (rq_key request),
                     rr_amount = rq_amount request,
                     rr_hard_limit = bp_hard_limit policy,
                     rr_effective_limit = pe_effective_limit evaluation,
                     rr_reservation_ttl = wd_reservation_ttl wd,
                     rr_window = window,
                     rr_idempotency_key = rq_idempotency_key request,
                     rr_now = now\<rparr>\<rparr>, s'))"

text \<open>What the store's answer is turned into.\<close>

definition reserve_reply ::
    "('tz, 'more) chrono_scheme \<Rightarrow> pending_reserve \<Rightarrow> store_reservation_result \<Rightarrow>
     (budget_decision, budget_error) outcome \<times> telemetry_event list" where
  "reserve_reply lib p result =
     (let policy = pr_policy p; request = pr_request p; window = pr_window p;
          used = cu_used (srr_usage result);
          post_evaluation = evaluate_policy lib policy used 0 (rq_priority request) window (pr_now p);
          snap = snapshot policy (rq_key request) used post_evaluation window
      in
      if \<not> srr_allowed result
      then (Ok (deny policy AheadOfBudgetPace snap), [telemetry_denied request AheadOfBudgetPace snap])
      else
        case srr_reservation result of
          None \<Rightarrow>
            (Err (StoreErrorText ''store allowed reservation without returning reservation data''), [])
        | Some v \<Rightarrow>
            (Ok (AllowLive
               (budget_reservation_new (sr_id v) (bp_name policy) (rq_key request) (rq_amount request)
                 (rq_unit request) (sr_expires_at v))
               snap),
             [telemetry_allowed request snap, telemetry_reservation_created request snap]))"

definition reserve_finish ::
    "('tz, 'more) chrono_scheme \<Rightarrow> 's budget_warden \<Rightarrow> pending_reserve \<Rightarrow> 's \<Rightarrow>
     (budget_decision, 's) broker_effect" where
  "reserve_finish lib wd p s =
     (case st_reserve_if_allowed (wd_store wd) (pr_store_request p) s of
        (Ok result, s') \<Rightarrow> with_state (reserve_reply lib p result) s'
      | (Panic, s') \<Rightarrow> (Panic, [], s')
      | (Err e, s') \<Rightarrow>
          with_state (on_store_error lib (pr_policy p) (pr_request p) (pr_window p) (pr_now p) e) s')"

definition reserve ::
    "('tz, 'more) chrono_scheme \<Rightarrow> 's budget_warden \<Rightarrow> datetime \<Rightarrow> budget_request \<Rightarrow> 's \<Rightarrow>
     (budget_decision, 's) broker_effect" where
  "reserve lib wd utc_now request s =
     (case reserve_begin lib wd utc_now request s of
        (Finished x events, s') \<Rightarrow> (x, events, s')
      | (Suspended p, s') \<Rightarrow> reserve_finish lib wd p s')"

section \<open>Usage and reports\<close>

definition policy_usage ::
    "('tz, 'more) chrono_scheme \<Rightarrow> 's budget_warden \<Rightarrow> budget_policy \<Rightarrow> budget_key \<Rightarrow> datetime \<Rightarrow> 's \<Rightarrow>
     (usage_snapshot, budget_error) outcome \<times> 's" where
  "policy_usage lib wd policy key now s =
     (case bounds_at lib (bp_window policy) now of
        Err e \<Rightarrow> (Err e, s)
      | Panic \<Rightarrow> (Panic, s)
      | Ok window \<Rightarrow>
          (case st_usage (wd_store wd) (policy_store_key policy key) window now s of
             (x, s') \<Rightarrow>
               (and_then (map_err from_store_error x) (\<lambda>usage.
                  Ok (snapshot policy key (cu_used usage)
                        (evaluate_policy lib policy (cu_used usage) 0 Normal window now) window)),
                s')))"

definition broker_usage ::
    "('tz, 'more) chrono_scheme \<Rightarrow> 's budget_warden \<Rightarrow> datetime \<Rightarrow> usage_query \<Rightarrow> 's \<Rightarrow>
     (usage_snapshot, 's) broker_effect" where
  "broker_usage lib wd utc_now query s =
     (case registry_find (wd_policies wd) (uq_key query) of
        None \<Rightarrow> (Err NoMatchingPolicyError, [], s)
      | Some policy \<Rightarrow>
          (case policy_usage lib wd policy (uq_key query) (wd_clock wd utc_now) s of
             (x, s') \<Rightarrow> (x, [], s')))"

definition broker_policies :: "'s budget_warden \<Rightarrow> (budget_policy list, budget_error) outcome" where
  "broker_policies wd = Ok (wd_policies wd)"

fun report_loop ::
    "('tz, 'more) chrono_scheme \<Rightarrow> 's budget_warden \<Rightarrow> datetime \<Rightarrow> budget_policy list \<Rightarrow>
     usage_snapshot list \<Rightarrow> 's \<Rightarrow> (usage_snapshot list, budget_error) outcome \<times> 's" where
  "report_loop lib wd generated_at [] snapshots s = (Ok snapshots, s)"
| "report_loop lib wd generated_at (policy # policies) snapshots s =
     (case policy_usage lib wd policy (report_key (bp_key policy)) generated_at s of
        (Ok snap, s') \<Rightarrow> report_loop lib wd generated_at policies (snapshots @ [snap]) s'
      | (Err e, s') \<Rightarrow> (Err e, s')
      | (Panic, s') \<Rightarrow> (Panic, s'))"

definition broker_report ::
    "('tz, 'more) chrono_scheme \<Rightarrow> 's budget_warden \<Rightarrow> datetime \<Rightarrow> 's \<Rightarrow> (budget_report, 's) broker_effect" where
  "broker_report lib wd utc_now s =
     (let generated_at = wd_clock wd utc_now in
      case report_loop lib wd generated_at (wd_policies wd) [] s of
        (x, s') \<Rightarrow>
          (and_then x (\<lambda>snapshots. Ok (budget_report_new generated_at snapshots)), [], s'))"

end
