(* ===== verification/Broker_Safety.thy ===== *)
theory Broker_Safety
  imports Broker
begin

text \<open>
  The broker over an arbitrary store that keeps the contract \<open>budget_store\<close>: policy selection, what
  each operation does to the store, and the decision a \<open>reserve\<close> reaches.
\<close>

section \<open>Policy selection\<close>

lemma fold_max_last:
  fixes f :: "'a \<Rightarrow> 'k::linorder"
  assumes "x = fold (\<lambda>y best. if f y < f best then best else y) xs z"
  shows "(x = z \<and> (\<forall>y \<in> set xs. f y < f z)) \<or>
    (\<exists>as bs. xs = as @ x # bs \<and> f z \<le> f x \<and> (\<forall>a \<in> set as. f a \<le> f x) \<and> (\<forall>b \<in> set bs. f b < f x))"
  using assms
proof (induction xs arbitrary: z)
  case (Cons y xs)
  let ?z = "if f y < f z then z else y"
  from Cons.prems have "x = fold (\<lambda>y best. if f y < f best then best else y) xs ?z" by simp
  from Cons.IH [OF this] show ?case
  proof (elim disjE conjE exE)
    assume x: "x = ?z" and less: "\<forall>v \<in> set xs. f v < f ?z"
    show ?thesis
    proof (cases "f y < f z")
      case True
      with x less show ?thesis by simp
    next
      case False
      with x less have "y # xs = [] @ x # xs \<and> f z \<le> f x \<and> (\<forall>a \<in> set []. f a \<le> f x) \<and> (\<forall>b \<in> set xs. f b < f x)"
        by (simp add: not_less)
      then show ?thesis by blast
    qed
  next
    fix as bs
    assume xs: "xs = as @ x # bs" and le: "f ?z \<le> f x"
      and as: "\<forall>a \<in> set as. f a \<le> f x" and bs: "\<forall>b \<in> set bs. f b < f x"
    have both: "f y \<le> f ?z" "f z \<le> f ?z" by auto
    then have "f y \<le> f x" "f z \<le> f x" using le by (blast intro: order_trans)+
    then have "y # xs = (y # as) @ x # bs \<and> f z \<le> f x \<and> (\<forall>a \<in> set (y # as). f a \<le> f x) \<and> (\<forall>b \<in> set bs. f b < f x)"
      using xs as bs by simp
    then show ?thesis by blast
  qed
qed simp

lemma max_by_key_Some:
  assumes "max_by_key f xs = Some x"
  shows "\<exists>as bs. xs = as @ x # bs \<and> (\<forall>a \<in> set as. f a \<le> f x) \<and> (\<forall>b \<in> set bs. f b < f x)"
proof (cases xs)
  case Nil
  with assms show ?thesis by simp
next
  case (Cons z zs)
  with assms have "x = fold (\<lambda>y best. if f y < f best then best else y) zs z" by simp
  from fold_max_last [OF this] show ?thesis
  proof (elim disjE conjE exE)
    assume "x = z" "\<forall>y \<in> set zs. f y < f z"
    then have "xs = [] @ x # zs \<and> (\<forall>a \<in> set []. f a \<le> f x) \<and> (\<forall>b \<in> set zs. f b < f x)"
      using Cons by simp
    then show ?thesis by blast
  next
    fix as bs
    assume "zs = as @ x # bs" "f z \<le> f x" "\<forall>a \<in> set as. f a \<le> f x" "\<forall>b \<in> set bs. f b < f x"
    then have "xs = (z # as) @ x # bs \<and> (\<forall>a \<in> set (z # as). f a \<le> f x) \<and> (\<forall>b \<in> set bs. f b < f x)"
      using Cons by simp
    then show ?thesis by blast
  qed
qed

lemma max_by_key_None [simp]: "max_by_key f xs = None \<longleftrightarrow> xs = []"
  by (cases xs) simp_all

lemma registry_find_None: "registry_find ps k = None \<longleftrightarrow> (\<forall>p \<in> set ps. \<not> pattern_matches (bp_key p) k)"
  by (simp add: registry_find_def filter_empty_conv)

lemma registry_find_Some:
  assumes "registry_find ps k = Some p"
  shows "p \<in> set ps" "pattern_matches (bp_key p) k"
    and "q \<in> set ps \<Longrightarrow> pattern_matches (bp_key q) k \<Longrightarrow> specificity (bp_key q) \<le> specificity (bp_key p)"
proof -
  obtain as bs where *: "filter (\<lambda>p. pattern_matches (bp_key p) k) ps = as @ p # bs"
    "\<forall>a \<in> set as. specificity (bp_key a) \<le> specificity (bp_key p)"
    "\<forall>b \<in> set bs. specificity (bp_key b) < specificity (bp_key p)"
    using max_by_key_Some [OF assms [unfolded registry_find_def]] by blast
  then have "p \<in> set (filter (\<lambda>p. pattern_matches (bp_key p) k) ps)" by simp
  then show "p \<in> set ps" "pattern_matches (bp_key p) k" by simp_all
  assume "q \<in> set ps" "pattern_matches (bp_key q) k"
  then have "q \<in> set (as @ p # bs)" unfolding *(1) [symmetric] by simp
  with *(2,3) show "specificity (bp_key q) \<le> specificity (bp_key p)" by auto
qed

lemma has_duplicate_iff: "has_duplicate ps \<longleftrightarrow> \<not> distinct (map bp_name ps)"
  by (induction ps) (auto simp: list_ex_iff image_iff, metis)

lemma registry_new_Ok: "registry_new ps = Ok ps' \<longleftrightarrow> distinct (map bp_name ps) \<and> ps' = ps"
  by (auto simp: registry_new_def has_duplicate_iff)

text \<open>What a built warden satisfies.\<close>

definition warden_wf :: "'s budget_warden \<Rightarrow> bool" where
  "warden_wf wd \<longleftrightarrow> distinct (map bp_name (wd_policies wd)) \<and> 0 < wd_reservation_ttl wd"

lemma warden_build_OkE:
  assumes "warden_build b = Ok wd"
  obtains store where "wbd_store b = Some store" "wd_store wd = store"
    "wd_policies wd = wbd_policies b" "wd_clock wd = unwrap_or (wbd_clock b) system_clock"
    "wd_reservation_ttl wd = unwrap_or (wbd_reservation_ttl b) default_reservation_ttl"
    "warden_wf wd"
  using assms
  by (auto simp: warden_build_def Let_def registry_new_Ok warden_wf_def split: option.splits if_splits)

text \<open>Policies of one registry never share a counter.\<close>

lemma policy_store_key_inject:
  assumes "distinct (map bp_name ps)" "p \<in> set ps" "q \<in> set ps"
    and "policy_store_key p k = policy_store_key q l"
  shows "p = q \<and> k = l"
proof -
  have "bp_name p = bp_name q" "k = l"
    using assms(4) by (simp_all add: policy_store_key_def store_key_new_def)
  with assms(1-3) show ?thesis by (auto simp: distinct_map inj_on_def)
qed

section \<open>Entering an operation\<close>

lemma broker_enter_cases:
  obtains (no_call) x events where "broker_enter lib wd t r s = (Replied x events, s)"
  | (failed) x events p w y where "registry_find (wd_policies wd) (rq_key r) = Some p"
      "broker_enter lib wd t r s =
        (Replied x events, snd (st_usage (wd_store wd) (policy_store_key p (rq_key r)) w y s))"
  | (entered) p w u s' where "registry_find (wd_policies wd) (rq_key r) = Some p"
      "rq_unit r = bp_unit p"
      "bounds_at lib (bp_window p) (wd_clock wd t) = Ok w"
      "st_usage (wd_store wd) (policy_store_key p (rq_key r)) w (wd_clock wd t) s = (Ok u, s')"
      "broker_enter lib wd t r s = (Entered p (wd_clock wd t) w u, s')"
proof (cases "registry_find (wd_policies wd) (rq_key r)")
  case None
  then show ?thesis by (intro no_call) (simp add: broker_enter_def)
next
  case (Some p)
  show ?thesis
  proof (cases "rq_unit r = bp_unit p")
    case False
    with Some show ?thesis
      by (intro no_call) (simp add: broker_enter_def validate_request_against_policy_def)
  next
    case unit: True
    show ?thesis
    proof (cases "bounds_at lib (bp_window p) (wd_clock wd t)")
      case (Ok w)
      obtain x s' where call: "st_usage (wd_store wd) (policy_store_key p (rq_key r)) w (wd_clock wd t) s = (x, s')"
        by fastforce
      show ?thesis
      proof (cases x)
        case (Ok u)
        with Some unit \<open>bounds_at _ _ _ = _\<close> call show ?thesis
          by (intro entered [of p w u s']) (simp_all add: broker_enter_def validate_request_against_policy_def)
      next
        case (Err e)
        obtain y ev where "on_store_error lib p r w (wd_clock wd t) e = (y, ev)" by fastforce
        with Some unit Ok call Err show ?thesis
          by (intro failed [of p y ev w "wd_clock wd t"]) (simp_all add: broker_enter_def validate_request_against_policy_def)
      next
        case Panic
        with Some unit Ok call show ?thesis
          by (intro failed [of p _ _ w "wd_clock wd t"]) (simp_all add: broker_enter_def validate_request_against_policy_def)
      qed
    qed (use Some unit in \<open>intro no_call, simp add: broker_enter_def validate_request_against_policy_def\<close>)+
  qed
qed

text \<open>How an operation goes on once the store has answered.\<close>

lemma enter_with_usage:
  assumes "registry_find (wd_policies wd) (rq_key r) = Some p" "rq_unit r = bp_unit p"
    and "bounds_at lib (bp_window p) (wd_clock wd t) = Ok w"
    and "st_usage (wd_store wd) (policy_store_key p (rq_key r)) w (wd_clock wd t) s = (x, s')"
  shows "broker_enter lib wd t r s =
    (case x of Ok u \<Rightarrow> (Entered p (wd_clock wd t) w u, s') | Panic \<Rightarrow> (Replied Panic [], s')
     | Err e \<Rightarrow> (case on_store_error lib p r w (wd_clock wd t) e of (y, events) \<Rightarrow> (Replied y events, s')))"
  using assms by (cases x) (simp_all add: broker_enter_def validate_request_against_policy_def)

text \<open>How a reserve begins once the usage is known.\<close>

lemma begin_with_usage:
  assumes "registry_find (wd_policies wd) (rq_key r) = Some p" "rq_unit r = bp_unit p"
    and "bounds_at lib (bp_window p) (wd_clock wd t) = Ok w"
    and "st_usage (wd_store wd) (policy_store_key p (rq_key r)) w (wd_clock wd t) s = (Ok u, s')"
  defines "ev \<equiv> evaluate_policy lib p (cu_used u) (rq_amount r) (rq_priority r) w (wd_clock wd t)"
  shows "reserve_begin lib wd t r s =
    (case pe_denial_reason ev of
       Some reason \<Rightarrow>
         (Finished (Ok (deny p reason (snapshot p (rq_key r) (cu_used u) ev w)))
            [telemetry_denied r reason (snapshot p (rq_key r) (cu_used u) ev w)], s')
     | None \<Rightarrow>
         (Suspended
            \<lparr>pr_policy = p, pr_request = r, pr_now = wd_clock wd t, pr_window = w,
             pr_store_request =
               \<lparr>rr_key = policy_store_key p (rq_key r), rr_amount = rq_amount r, rr_hard_limit = bp_hard_limit p,
                rr_effective_limit = pe_effective_limit ev, rr_reservation_ttl = wd_reservation_ttl wd,
                rr_window = w, rr_idempotency_key = rq_idempotency_key r, rr_now = wd_clock wd t\<rparr>\<rparr>, s'))"
  using enter_with_usage [OF assms(1-4)]
  by (auto simp: reserve_begin_def ev_def Let_def split: option.split)

text \<open>What a suspended reserve carries: its own policy's key and a limit within the policy's.\<close>

definition pending_wf :: "'s budget_warden \<Rightarrow> pending_reserve \<Rightarrow> bool" where
  "pending_wf wd p \<longleftrightarrow>
     pr_policy p \<in> set (wd_policies wd)
   \<and> rr_key (pr_store_request p) = policy_store_key (pr_policy p) (rq_key (pr_request p))
   \<and> rr_window (pr_store_request p) = pr_window p
   \<and> rr_amount (pr_store_request p) = rq_amount (pr_request p)
   \<and> rr_reservation_ttl (pr_store_request p) = wd_reservation_ttl wd
   \<and> rr_effective_limit (pr_store_request p) \<le> bp_hard_limit (pr_policy p)"

lemma reserve_begin_Suspended:
  assumes "reserve_begin lib wd t r s = (Suspended p, s')"
  obtains pol w u where "registry_find (wd_policies wd) (rq_key r) = Some pol"
    "rq_unit r = bp_unit pol"
    "bounds_at lib (bp_window pol) (wd_clock wd t) = Ok w"
    "st_usage (wd_store wd) (policy_store_key pol (rq_key r)) w (wd_clock wd t) s = (Ok u, s')"
    "pe_denial_reason (evaluate_policy lib pol (cu_used u) (rq_amount r) (rq_priority r) w (wd_clock wd t)) = None"
    "p = \<lparr>pr_policy = pol, pr_request = r, pr_now = wd_clock wd t, pr_window = w,
          pr_store_request =
            \<lparr>rr_key = policy_store_key pol (rq_key r), rr_amount = rq_amount r,
             rr_hard_limit = bp_hard_limit pol,
             rr_effective_limit = pe_effective_limit
               (evaluate_policy lib pol (cu_used u) (rq_amount r) (rq_priority r) w (wd_clock wd t)),
             rr_reservation_ttl = wd_reservation_ttl wd, rr_window = w,
             rr_idempotency_key = rq_idempotency_key r, rr_now = wd_clock wd t\<rparr>\<rparr>"
proof (cases rule: broker_enter_cases [of lib wd t r s])
  case (entered pol w u s2)
  then have "s2 = s'" using assms by (auto simp: reserve_begin_def Let_def split: option.splits)
  with entered show ?thesis
    using assms by (intro that [of pol w u]) (auto simp: reserve_begin_def Let_def split: option.splits)
qed (use assms in \<open>simp_all add: reserve_begin_def\<close>)

lemma reserve_begin_pending:
  assumes "reserve_begin lib wd t r s = (Suspended p, s')"
  shows "pending_wf wd p"
proof -
  from assms show ?thesis
  proof (rule reserve_begin_Suspended)
    fix pol w u
    assume "registry_find (wd_policies wd) (rq_key r) = Some pol"
      and "p = \<lparr>pr_policy = pol, pr_request = r, pr_now = wd_clock wd t, pr_window = w,
          pr_store_request =
            \<lparr>rr_key = policy_store_key pol (rq_key r), rr_amount = rq_amount r,
             rr_hard_limit = bp_hard_limit pol,
             rr_effective_limit = pe_effective_limit
               (evaluate_policy lib pol (cu_used u) (rq_amount r) (rq_priority r) w (wd_clock wd t)),
             rr_reservation_ttl = wd_reservation_ttl wd, rr_window = w,
             rr_idempotency_key = rq_idempotency_key r, rr_now = wd_clock wd t\<rparr>\<rparr>"
    then show "pending_wf wd p"
      by (simp add: pending_wf_def registry_find_Some(1) effective_limit_le_hard_limit)
  qed
qed

lemma reserve_finish_state:
  "snd (snd (reserve_finish lib wd p s)) = snd (st_reserve_if_allowed (wd_store wd) (pr_store_request p) s)"
  by (auto simp: reserve_finish_def split: prod.splits outcome.splits)

lemma authorize_state:
  "snd (snd (authorize lib wd t r s)) = snd (broker_enter lib wd t r s)"
  by (auto simp: authorize_def Let_def split: prod.splits broker_entry.splits option.splits)

lemma reserve_begin_state:
  "snd (reserve_begin lib wd t r s) = snd (broker_enter lib wd t r s)"
  by (auto simp: reserve_begin_def Let_def split: prod.splits broker_entry.splits option.splits)

text \<open>The operations that only read ask the store for usage and nothing else.\<close>

definition only_reads :: "'s store_ops \<Rightarrow> 's \<Rightarrow> 's \<Rightarrow> bool" where
  "only_reads ops = (\<lambda>s s'. \<exists>k w t. s' = snd (st_usage ops k w t s))\<^sup>*\<^sup>*"

lemma reads_refl [simp]: "only_reads ops s s"
  by (simp add: only_reads_def)

lemma reads_one: "only_reads ops s (snd (st_usage ops k w t s))"
  unfolding only_reads_def by (rule r_into_rtranclp) blast

lemma broker_enter_reads: "only_reads (wd_store wd) s (snd (broker_enter lib wd t r s))"
  by (cases rule: broker_enter_cases [of lib wd t r s])
    (simp, simp add: reads_one, metis reads_one snd_conv)

lemma policy_usage_state:
  "snd (policy_usage lib wd p k t s) =
     (case bounds_at lib (bp_window p) t of
        Ok w \<Rightarrow> snd (st_usage (wd_store wd) (policy_store_key p k) w t s) | _ \<Rightarrow> s)"
  by (simp add: policy_usage_def split: outcome.split prod.split)

lemma policy_usage_reads: "only_reads (wd_store wd) s (snd (policy_usage lib wd p k t s))"
  unfolding policy_usage_state by (simp add: reads_one split: outcome.split)

lemma report_loop_reads: "only_reads (wd_store wd) s (snd (report_loop lib wd t ps acc s))"
proof (induction ps arbitrary: acc s)
  case Nil
  then show ?case by (simp add: only_reads_def)
next
  case (Cons p ps)
  have one: "only_reads (wd_store wd) s (snd (policy_usage lib wd p (report_key (bp_key p)) t s))"
    by (rule policy_usage_reads)
  show ?case
  proof (cases "policy_usage lib wd p (report_key (bp_key p)) t s")
    case (Pair x s')
    with one Cons.IH show ?thesis
      by (cases x) (auto simp: only_reads_def intro: rtranclp_trans)
  qed
qed

lemma broker_usage_state:
  "snd (snd (broker_usage lib wd t q s)) =
     (case registry_find (wd_policies wd) (uq_key q) of None \<Rightarrow> s
      | Some p \<Rightarrow> snd (policy_usage lib wd p (uq_key q) (wd_clock wd t) s))"
  by (simp add: broker_usage_def split: option.split prod.split)

lemma broker_usage_reads: "only_reads (wd_store wd) s (snd (snd (broker_usage lib wd t q s)))"
  unfolding broker_usage_state by (simp add: policy_usage_reads split: option.split)

lemma broker_report_state:
  "snd (snd (broker_report lib wd t s)) = snd (report_loop lib wd (wd_clock wd t) (wd_policies wd) [] s)"
  by (simp add: broker_report_def Let_def split: prod.split)

lemma broker_report_reads: "only_reads (wd_store wd) s (snd (snd (broker_report lib wd t s)))"
  unfolding broker_report_state by (rule report_loop_reads)

context budget_store
begin

lemma reads_keep: "only_reads ops s s' \<Longrightarrow> wf s \<Longrightarrow> wf s' \<and> level s' c \<le> level s c"
  unfolding only_reads_def
  by (induction rule: rtranclp_induct) (auto intro: usage_wf order_trans [OF usage_level])

lemma finish_keeps:
  assumes "wd_store wd = ops" "wf s" "pending_wf wd p" "fit (pr_store_request p)"
  shows "wf (snd (snd (reserve_finish lib wd p s)))"
    and "level (snd (snd (reserve_finish lib wd p s))) c \<le>
      (if c = slot (policy_store_key (pr_policy p) (rq_key (pr_request p))) (pr_window p)
       then max (level s c) (unat (bp_hard_limit (pr_policy p))) else level s c)"
proof -
  let ?r = "pr_store_request p"
  have lim: "rr_effective_limit ?r \<le> bp_hard_limit (pr_policy p)"
    using assms(3) by (simp add: pending_wf_def)
  show "wf (snd (snd (reserve_finish lib wd p s)))"
    unfolding reserve_finish_state assms(1) by (rule reserve_wf [OF assms(2,4)])
  show "level (snd (snd (reserve_finish lib wd p s))) c \<le>
      (if c = slot (policy_store_key (pr_policy p) (rq_key (pr_request p))) (pr_window p)
       then max (level s c) (unat (bp_hard_limit (pr_policy p))) else level s c)"
    unfolding reserve_finish_state assms(1)
    using reserve_level [OF assms(2,4), of c] assms(3) lim
    by (auto simp: pending_wf_def word_le_nat_alt split: if_splits)
qed

end

end
