(* ===== verification/Memory_Store.thy ===== *)
theory Memory_Store
  imports Store_Contract
begin

text \<open>
  \<open>store/memory.rs\<close>: the in-process store. Every operation runs under one write lock, so a call is
  one step on the state; a panic while the lock is held poisons it, and every later call fails.
\<close>

section \<open>State\<close>

record counter_key =
  ck_store_key :: store_key
  ck_window_start :: datetime
  ck_window_end :: datetime

definition counter_key_new :: "store_key \<Rightarrow> window_bounds \<Rightarrow> counter_key" where
  "counter_key_new k w =
     \<lparr>ck_store_key = k, ck_window_start = wb_start w, ck_window_end = wb_end w\<rparr>"

record counter_record =
  cr_committed :: u64
  cr_reserved :: u64

definition default_counter :: counter_record where
  "default_counter = \<lparr>cr_committed = 0, cr_reserved = 0\<rparr>"

datatype reservation_status = Active | Committed | Refunded | Expired

record reservation_record =
  rv_counter_key :: counter_key
  rv_amount :: u64
  rv_expires_at :: datetime
  rv_status :: reservation_status

definition active_record :: "counter_key \<Rightarrow> u64 \<Rightarrow> datetime \<Rightarrow> reservation_record" where
  "active_record k amount expires_at =
     \<lparr>rv_counter_key = k, rv_amount = amount, rv_expires_at = expires_at, rv_status = Active\<rparr>"

record memory_state =
  ms_counters :: "(counter_key, counter_record) hmap"
  ms_reservations :: "(reservation_id, reservation_record) hmap"
  ms_idempotency :: "(counter_key \<times> idempotency_key, reservation_id) hmap"
  ms_next_id :: u64

definition default_memory_state :: memory_state where
  "default_memory_state =
     \<lparr>ms_counters = [], ms_reservations = [], ms_idempotency = [], ms_next_id = 0\<rparr>"

record memory_store =
  mem_state :: memory_state
  mem_poisoned :: bool

definition memory_store_new :: memory_store where
  "memory_store_new = \<lparr>mem_state = default_memory_state, mem_poisoned = False\<rparr>"

section \<open>Operations on the locked state\<close>

definition next_reservation_id ::
    "memory_state \<Rightarrow> (reservation_id, store_error) outcome \<times> memory_state" where
  "next_reservation_id s =
     (case checked_add (ms_next_id s) 1 of
        None \<Rightarrow> (Err (StOther ''reservation id overflow''), s)
      | Some n \<Rightarrow> (Ok (ReservationId n), s\<lparr>ms_next_id := n\<rparr>))"

definition usage_for_counter :: "memory_state \<Rightarrow> counter_key \<Rightarrow> counter_usage" where
  "usage_for_counter s k =
     (case hm_get (ms_counters s) k of
        None \<Rightarrow> default_counter_usage
      | Some c \<Rightarrow> counter_usage_new (cr_committed c) (cr_reserved c))"

definition replay_existing_reservation ::
    "memory_state \<Rightarrow> reservation_id \<Rightarrow> counter_key \<Rightarrow> store_reservation_result" where
  "replay_existing_reservation s rid k =
     (let usage = usage_for_counter s k in
      case hm_get (ms_reservations s) rid of
        None \<Rightarrow> srr_deny usage
      | Some r \<Rightarrow>
          (case rv_status r of
             Active \<Rightarrow> srr_allow (store_reservation_new rid (rv_expires_at r)) usage
           | Committed \<Rightarrow> srr_allow (store_reservation_new rid (rv_expires_at r)) usage
           | Refunded \<Rightarrow> srr_deny usage
           | Expired \<Rightarrow> srr_deny usage))"

definition expired_ids :: "datetime \<Rightarrow> memory_state \<Rightarrow> reservation_id list" where
  "expired_ids now s =
     map fst (filter (\<lambda>(rid, r). rv_status r = Active \<and> rv_expires_at r \<le> now) (ms_reservations s))"

definition release_units :: "u64 \<Rightarrow> counter_record \<Rightarrow> counter_record" where
  "release_units amount c = c\<lparr>cr_reserved := sat_sub (cr_reserved c) amount\<rparr>"

definition expire_one :: "reservation_id \<Rightarrow> memory_state \<Rightarrow> memory_state" where
  "expire_one rid s =
     (case hm_get (ms_reservations s) rid of
        None \<Rightarrow> s
      | Some r \<Rightarrow>
          s\<lparr>ms_counters := hm_modify (rv_counter_key r) (release_units (rv_amount r)) (ms_counters s),
            ms_reservations := hm_modify rid (\<lambda>r. r\<lparr>rv_status := Expired\<rparr>) (ms_reservations s)\<rparr>)"

definition cleanup_expired :: "datetime \<Rightarrow> memory_state \<Rightarrow> memory_state" where
  "cleanup_expired now s = fold expire_one (expired_ids now s) s"

text \<open>The insertion of a new active reservation, after its id and expiry are known.\<close>

definition insert_reservation ::
    "reserve_request \<Rightarrow> counter_key \<Rightarrow> reservation_id \<Rightarrow> datetime \<Rightarrow> memory_state \<Rightarrow>
     counter_usage \<times> memory_state" where
  "insert_reservation r k rid expires_at s =
     (let c = (case hm_get (ms_counters s) k of None \<Rightarrow> default_counter | Some c \<Rightarrow> c);
          c' = c\<lparr>cr_reserved := sat_add (cr_reserved c) (rr_amount r)\<rparr>;
          s1 = s\<lparr>ms_counters := hm_insert k c' (ms_counters s)\<rparr>;
          s2 = s1\<lparr>ms_reservations :=
                 hm_insert rid (active_record k (rr_amount r) expires_at) (ms_reservations s1)\<rparr>;
          s3 = (case rr_idempotency_key r of
                  None \<Rightarrow> s2
                | Some i \<Rightarrow> s2\<lparr>ms_idempotency := hm_insert (k, i) rid (ms_idempotency s2)\<rparr>)
      in (counter_usage_new (cr_committed c') (cr_reserved c'), s3))"

definition reserve_locked ::
    "('tz, 'more) chrono_scheme \<Rightarrow> reserve_request \<Rightarrow> memory_state \<Rightarrow>
     (store_reservation_result, memory_state) store_effect" where
  "reserve_locked lib r s0 =
     (let s = cleanup_expired (rr_now r) s0;
          k = counter_key_new (rr_key r) (rr_window r);
          existing = Option.bind (rr_idempotency_key r) (\<lambda>i. hm_get (ms_idempotency s) (k, i))
      in
      case existing of
        Some rid \<Rightarrow> (Ok (replay_existing_reservation s rid k), s)
      | None \<Rightarrow>
          let usage = usage_for_counter s k in
          if rr_effective_limit r < sat_add (cu_used usage) (rr_amount r)
          then (Ok (srr_deny usage), s)
          else
            case next_reservation_id s of
              (Err e, s1) \<Rightarrow> (Err e, s1)
            | (Panic, s1) \<Rightarrow> (Panic, s1)
            | (Ok rid, s1) \<Rightarrow>
                (case ch_add lib (rr_now r) (rr_reservation_ttl r) of
                   None \<Rightarrow> (Panic, s1)
                 | Some expires_at \<Rightarrow>
                     let (usage', s2) = insert_reservation r k rid expires_at s1
                     in (Ok (srr_allow (store_reservation_new rid expires_at) usage'), s2)))"

definition set_status ::
    "reservation_id \<Rightarrow> reservation_status \<Rightarrow> (reservation_id, reservation_record) hmap \<Rightarrow>
     (reservation_id, reservation_record) hmap" where
  "set_status rid st m = hm_modify rid (\<lambda>r. r\<lparr>rv_status := st\<rparr>) m"

definition commit_units :: "u64 \<Rightarrow> counter_record \<Rightarrow> counter_record" where
  "commit_units amount c =
     c\<lparr>cr_reserved := sat_sub (cr_reserved c) amount,
       cr_committed := sat_add (cr_committed c) amount\<rparr>"

definition commit_locked ::
    "datetime \<Rightarrow> reservation_id \<Rightarrow> memory_state \<Rightarrow> (unit, memory_state) store_effect" where
  "commit_locked utc_now rid s0 =
     (let s = cleanup_expired utc_now s0 in
      case hm_get (ms_reservations s) rid of
        None \<Rightarrow> (Err StReservationNotFound, s)
      | Some r \<Rightarrow>
          (case rv_status r of
             Committed \<Rightarrow> (Ok (), s)
           | Refunded \<Rightarrow> (Ok (), s)
           | Expired \<Rightarrow> (Err StReservationExpired, s)
           | Active \<Rightarrow>
               (case hm_get (ms_counters s) (rv_counter_key r) of
                  None \<Rightarrow> (Err (StOther ''reservation counter is missing''), s)
                | Some c \<Rightarrow>
                    (Ok (), s\<lparr>ms_counters :=
                                hm_modify (rv_counter_key r) (commit_units (rv_amount r)) (ms_counters s),
                              ms_reservations := set_status rid Committed (ms_reservations s)\<rparr>))))"

definition refund_locked ::
    "datetime \<Rightarrow> reservation_id \<Rightarrow> memory_state \<Rightarrow> (unit, memory_state) store_effect" where
  "refund_locked utc_now rid s0 =
     (let s = cleanup_expired utc_now s0 in
      case hm_get (ms_reservations s) rid of
        None \<Rightarrow> (Err StReservationNotFound, s)
      | Some r \<Rightarrow>
          (case rv_status r of
             Committed \<Rightarrow> (Ok (), s)
           | Refunded \<Rightarrow> (Ok (), s)
           | Expired \<Rightarrow> (Err StReservationExpired, s)
           | Active \<Rightarrow>
               (case hm_get (ms_counters s) (rv_counter_key r) of
                  None \<Rightarrow> (Err (StOther ''reservation counter is missing''), s)
                | Some c \<Rightarrow>
                    (Ok (), s\<lparr>ms_counters :=
                                hm_modify (rv_counter_key r) (release_units (rv_amount r)) (ms_counters s),
                              ms_reservations := set_status rid Refunded (ms_reservations s)\<rparr>))))"

definition usage_locked ::
    "store_key \<Rightarrow> window_bounds \<Rightarrow> datetime \<Rightarrow> memory_state \<Rightarrow> (counter_usage, memory_state) store_effect" where
  "usage_locked k w now s0 =
     (let s = cleanup_expired now s0 in (Ok (usage_for_counter s (counter_key_new k w)), s))"

section \<open>The lock\<close>

definition write_state :: "memory_store \<Rightarrow> (memory_state, store_error) outcome" where
  "write_state m =
     (if mem_poisoned m then Err (StOther ''memory store lock is poisoned'') else Ok (mem_state m))"

definition with_lock ::
    "(memory_state \<Rightarrow> ('a, memory_state) store_effect) \<Rightarrow> memory_store \<Rightarrow> ('a, memory_store) store_effect" where
  "with_lock f m =
     (case write_state m of
        Err e \<Rightarrow> (Err e, m)
      | Panic \<Rightarrow> (Panic, m)
      | Ok s \<Rightarrow> (case f s of (x, s') \<Rightarrow> (x, \<lparr>mem_state = s', mem_poisoned = (x = Panic)\<rparr>)))"

definition memory_reserve_if_allowed ::
    "('tz, 'more) chrono_scheme \<Rightarrow> reserve_request \<Rightarrow> memory_store \<Rightarrow>
     (store_reservation_result, memory_store) store_effect" where
  "memory_reserve_if_allowed lib r m =
     (case reserve_request_validate r of
        Err e \<Rightarrow> (Err e, m)
      | Panic \<Rightarrow> (Panic, m)
      | Ok _ \<Rightarrow> with_lock (reserve_locked lib r) m)"

definition memory_commit ::
    "datetime \<Rightarrow> reservation_id \<Rightarrow> memory_store \<Rightarrow> (unit, memory_store) store_effect" where
  "memory_commit utc_now rid m = with_lock (commit_locked utc_now rid) m"

definition memory_refund ::
    "datetime \<Rightarrow> reservation_id \<Rightarrow> memory_store \<Rightarrow> (unit, memory_store) store_effect" where
  "memory_refund utc_now rid m = with_lock (refund_locked utc_now rid) m"

definition memory_usage ::
    "store_key \<Rightarrow> window_bounds \<Rightarrow> datetime \<Rightarrow> memory_store \<Rightarrow> (counter_usage, memory_store) store_effect" where
  "memory_usage k w now m = with_lock (usage_locked k w now) m"

definition memory_ops :: "('tz, 'more) chrono_scheme \<Rightarrow> memory_store store_ops" where
  "memory_ops lib =
     \<lparr>st_reserve_if_allowed = memory_reserve_if_allowed lib, st_commit = memory_commit,
      st_refund = memory_refund, st_usage = memory_usage\<rparr>"

end
