(* ===== verification/Memory_Invariant.thy ===== *)
theory Memory_Invariant
  imports Memory_Store "HOL-Library.Multiset"
begin

text \<open>
  The invariant of the in-memory store: every counter holds exactly the units of its reservations.
  The section on one settlement is shared by expiry, commit and refund, which differ only in the
  new status and in what they do to the counter.
\<close>

section \<open>The invariant\<close>

definition counter_at :: "memory_state \<Rightarrow> counter_key \<Rightarrow> counter_record" where
  "counter_at s k = (case hm_get (ms_counters s) k of None \<Rightarrow> default_counter | Some c \<Rightarrow> c)"

definition units_in :: "reservation_status \<Rightarrow> counter_key \<Rightarrow> reservation_record \<Rightarrow> nat" where
  "units_in st k r = (if rv_counter_key r = k \<and> rv_status r = st then unat (rv_amount r) else 0)"

definition units_of :: "reservation_status \<Rightarrow> counter_key \<Rightarrow> memory_state \<Rightarrow> nat" where
  "units_of st k s = hm_total (units_in st k) (ms_reservations s)"

text \<open>Committed units plus those of active reservations: what the counter holds.\<close>

definition held :: "counter_key \<Rightarrow> memory_state \<Rightarrow> nat" where
  "held k s = units_of Committed k s + units_of Active k s"

definition counters_exact :: "memory_state \<Rightarrow> bool" where
  "counters_exact s \<longleftrightarrow>
     (\<forall>k. unat (cr_reserved (counter_at s k)) = units_of Active k s
        \<and> unat (cr_committed (counter_at s k)) = units_of Committed k s
        \<and> held k s \<le> 18446744073709551615)"

definition mem_inv :: "memory_state \<Rightarrow> bool" where
  "mem_inv s \<longleftrightarrow>
     hm_ok (ms_counters s) \<and> hm_ok (ms_reservations s) \<and> hm_ok (ms_idempotency s)
   \<and> (\<forall>rid r. hm_get (ms_reservations s) rid = Some r \<longrightarrow>
        0 < unat (as_u64 rid) \<and> unat (as_u64 rid) \<le> unat (ms_next_id s)
      \<and> hm_get (ms_counters s) (rv_counter_key r) \<noteq> None)
   \<and> (\<forall>k i rid. hm_get (ms_idempotency s) (k, i) = Some rid \<longrightarrow>
        (\<exists>r. hm_get (ms_reservations s) rid = Some r \<and> rv_counter_key r = k))
   \<and> counters_exact s"

definition mem_level :: "memory_store \<Rightarrow> counter_key \<Rightarrow> nat" where
  "mem_level m c =
     unat (cr_committed (counter_at (mem_state m) c)) + unat (cr_reserved (counter_at (mem_state m) c))"

lemma mem_invD:
  assumes "mem_inv s"
  shows "hm_ok (ms_counters s)" "hm_ok (ms_reservations s)" "hm_ok (ms_idempotency s)"
    and "hm_get (ms_reservations s) rid = Some r \<Longrightarrow> hm_get (ms_counters s) (rv_counter_key r) \<noteq> None"
    and "hm_get (ms_reservations s) rid = Some r \<Longrightarrow>
      0 < unat (as_u64 rid) \<and> unat (as_u64 rid) \<le> unat (ms_next_id s)"
    and "hm_get (ms_idempotency s) (k, i) = Some rid \<Longrightarrow>
      \<exists>r. hm_get (ms_reservations s) rid = Some r \<and> rv_counter_key r = k"
    and "unat (cr_reserved (counter_at s k)) = units_of Active k s"
    and "unat (cr_committed (counter_at s k)) = units_of Committed k s"
    and "held k s \<le> 18446744073709551615"
  using assms by (auto simp: mem_inv_def counters_exact_def)

lemma counter_key_new_inject [simp]:
  "counter_key_new k w = counter_key_new k' w' \<longleftrightarrow> k = k' \<and> w = w'"
  by (auto simp: counter_key_new_def)

lemma mem_inv_initial [simp]: "mem_inv default_memory_state"
  by (simp add: mem_inv_def counters_exact_def default_memory_state_def counter_at_def
      default_counter_def units_of_def held_def)

lemma usage_for_counter_at:
  "usage_for_counter s k = counter_usage_new (cr_committed (counter_at s k)) (cr_reserved (counter_at s k))"
  by (auto simp: usage_for_counter_def counter_at_def default_counter_def default_counter_usage_def
      counter_usage_new_def split: option.splits)

text \<open>Below saturation the reported usage is the exact number of units of the two kinds.\<close>

lemma held_next_id [simp]: "held k (s\<lparr>ms_next_id := n\<rparr>) = held k s"
  by (simp add: held_def units_of_def)

lemma used_exact:
  assumes "mem_inv s"
  shows "unat (cu_used (usage_for_counter s k)) = held k s"
  using mem_invD(7-9) [OF assms, of k]
  by (simp add: usage_for_counter_at cu_used_def counter_usage_new_def unat_sat_add held_def)

section \<open>Settling one reservation\<close>

definition settle ::
    "reservation_id \<Rightarrow> reservation_record \<Rightarrow> reservation_status \<Rightarrow> (u64 \<Rightarrow> counter_record \<Rightarrow> counter_record) \<Rightarrow>
     memory_state \<Rightarrow> memory_state" where
  "settle rid r st f s =
     s\<lparr>ms_counters := hm_modify (rv_counter_key r) (f (rv_amount r)) (ms_counters s),
       ms_reservations := set_status rid st (ms_reservations s)\<rparr>"

definition settles_as :: "reservation_status \<Rightarrow> (u64 \<Rightarrow> counter_record \<Rightarrow> counter_record) \<Rightarrow> bool" where
  "settles_as st f \<longleftrightarrow>
     (st = Committed \<and> f = commit_units) \<or> (st \<in> {Refunded, Expired} \<and> f = release_units)"

lemma settle_simps [simp]:
  "ms_idempotency (settle rid r st f s) = ms_idempotency s"
  "ms_next_id (settle rid r st f s) = ms_next_id s"
  by (simp_all add: settle_def)

lemma hm_get_set_status [hmap_simps]:
  "hm_get (set_status rid st m) rid' =
     (if rid' = rid then map_option (\<lambda>r. r\<lparr>rv_status := st\<rparr>) (hm_get m rid) else hm_get m rid')"
  by (simp add: set_status_def hmap_simps)

lemma settle_reservations:
  "ms_reservations (settle rid r st f s) = set_status rid st (ms_reservations s)"
  by (simp add: settle_def)

lemma units_of_settle:
  assumes "hm_ok (ms_reservations s)" "hm_get (ms_reservations s) rid = Some r"
  shows "units_of st' k (settle rid r st f s) + units_in st' k r =
      units_of st' k s + units_in st' k (r\<lparr>rv_status := st\<rparr>)"
  using hm_total_modify [OF assms, of "units_in st' k" "\<lambda>r. r\<lparr>rv_status := st\<rparr>"]
  by (simp add: units_of_def settle_reservations set_status_def)

lemma units_of_ge:
  "hm_get (ms_reservations s) rid = Some r \<Longrightarrow> units_in st k r \<le> units_of st k s"
  unfolding units_of_def by (rule hm_total_ge)

lemma counter_at_settle:
  assumes "hm_get (ms_counters s) (rv_counter_key r) \<noteq> None"
  shows "counter_at (settle rid r st f s) k =
      (if k = rv_counter_key r then f (rv_amount r) (counter_at s k) else counter_at s k)"
  using assms by (auto simp: counter_at_def settle_def hmap_simps split: option.splits)

lemma settle_counters_exact:
  assumes "mem_inv s" "hm_get (ms_reservations s) rid = Some r" "rv_status r = Active"
    and "settles_as st f"
  shows "counters_exact (settle rid r st f s)"
proof -
  have ok: "hm_ok (ms_reservations s)"
    and present: "hm_get (ms_counters s) (rv_counter_key r) \<noteq> None"
    using assms mem_invD by auto
  note upd = units_of_settle [OF ok assms(2), of _ _ st f]
  note old = mem_invD(7-9) [OF assms(1)]
  have "unat (rv_amount r) \<le> units_of Active (rv_counter_key r) s"
    using units_of_ge [OF assms(2), of Active "rv_counter_key r"] assms(3) by (simp add: units_in_def)
  moreover have "rv_amount (r\<lparr>rv_status := st\<rparr>) = rv_amount r" by simp
  ultimately have "unat (cr_reserved (counter_at (settle rid r st f s) k)) = units_of Active k (settle rid r st f s)
      \<and> unat (cr_committed (counter_at (settle rid r st f s) k)) = units_of Committed k (settle rid r st f s)
      \<and> held k (settle rid r st f s)
          \<le> 18446744073709551615" for k
    using upd [of Active k] upd [of Committed k] old [of k] assms(3,4)
    by (cases "k = rv_counter_key r") (auto simp: counter_at_settle [OF present] settles_as_def units_in_def
        commit_units_def release_units_def unat_sat_sub unat_sat_add held_def)
  then show ?thesis by (simp add: counters_exact_def)
qed

lemma settle_inv:
  assumes "mem_inv s" "hm_get (ms_reservations s) rid = Some r" "rv_status r = Active"
    and "settles_as st f"
  shows "mem_inv (settle rid r st f s)"
proof -
  have res: "hm_get (ms_reservations (settle rid r st f s)) rid' =
      (if rid' = rid then Some (r\<lparr>rv_status := st\<rparr>) else hm_get (ms_reservations s) rid')" for rid'
    using assms(2) by (simp add: settle_reservations hmap_simps)
  have cnt: "hm_get (ms_counters (settle rid r st f s)) k \<noteq> None"
    if "hm_get (ms_counters s) k \<noteq> None" for k
    using that by (auto simp: settle_def hmap_simps)
  have "hm_ok (ms_counters (settle rid r st f s))" "hm_ok (ms_reservations (settle rid r st f s))"
    using mem_invD(1,2) [OF assms(1)] by (simp_all add: settle_def set_status_def hmap_simps)
  moreover have "0 < unat (as_u64 rid') \<and> unat (as_u64 rid') \<le> unat (ms_next_id s) \<and>
      hm_get (ms_counters (settle rid r st f s)) (rv_counter_key r') \<noteq> None"
    if "hm_get (ms_reservations (settle rid r st f s)) rid' = Some r'" for rid' r'
    using that mem_invD(4,5) [OF assms(1)] assms(2) cnt by (auto simp: res split: if_splits)
  moreover have "\<exists>r'. hm_get (ms_reservations (settle rid r st f s)) rid' = Some r' \<and> rv_counter_key r' = k"
    if "hm_get (ms_idempotency s) (k, i) = Some rid'" for k i rid'
    using mem_invD(6) [OF assms(1) that] assms(2) by (auto simp: res)
  ultimately show ?thesis
    unfolding mem_inv_def settle_simps
    using mem_invD(3) [OF assms(1)] settle_counters_exact [OF assms] by blast
qed

text \<open>What the settlement does to the level of a counter.\<close>

lemma settle_level:
  assumes "mem_inv s" "hm_get (ms_reservations s) rid = Some r" "rv_status r = Active"
    and "settles_as st f"
  shows "held k (settle rid r st f s) \<le> held k s"
  using units_of_settle [OF mem_invD(2) [OF assms(1)] assms(2), of Active k st f]
    units_of_settle [OF mem_invD(2) [OF assms(1)] assms(2), of Committed k st f] assms(3,4)
  by (auto simp: units_in_def settles_as_def held_def split: if_splits)

section \<open>Expiry\<close>

text \<open>The record an expiry at \<open>now\<close> leaves, and the reservations after a cleanup.\<close>

definition expire_record :: "datetime \<Rightarrow> reservation_record \<Rightarrow> reservation_record" where
  "expire_record now r =
     (if rv_status r = Active \<and> rv_expires_at r \<le> now then r\<lparr>rv_status := Expired\<rparr> else r)"

definition expire_all ::
    "datetime \<Rightarrow> (reservation_id, reservation_record) hmap \<Rightarrow> (reservation_id, reservation_record) hmap" where
  "expire_all now m = map (\<lambda>(rid, r). (rid, expire_record now r)) m"

lemma hm_get_expire_all [hmap_simps]:
  "hm_get (expire_all now m) rid = map_option (expire_record now) (hm_get m rid)"
  by (induction m) (auto simp: expire_all_def)

lemma expire_record_simps [simp]:
  "rv_counter_key (expire_record now r) = rv_counter_key r"
  "rv_amount (expire_record now r) = rv_amount r"
  "rv_expires_at (expire_record now r) = rv_expires_at r"
  "rv_status (expire_record now r) = Committed \<longleftrightarrow> rv_status r = Committed"
  "rv_status (expire_record now r) = Refunded \<longleftrightarrow> rv_status r = Refunded"
  "rv_status (expire_record now r) = Active \<longleftrightarrow> rv_status r = Active \<and> now < rv_expires_at r"
  by (auto simp: expire_record_def)

lemma expire_record_again [simp]: "expire_record now (expire_record now r) = expire_record now r"
  by (simp add: expire_record_def)

lemma hm_modify_map: "hm_modify k f m = map (\<lambda>(k', v). (k', if k' = k then f v else v)) m"
  by (induction m) auto

lemma expire_one_settles:
  "hm_get (ms_reservations s) rid = Some r \<Longrightarrow> expire_one rid s = settle rid r Expired release_units s"
  by (simp add: expire_one_def settle_def set_status_def)

lemma expire_one_simps [simp]:
  "ms_idempotency (expire_one rid s) = ms_idempotency s"
  "ms_next_id (expire_one rid s) = ms_next_id s"
  by (auto simp: expire_one_def split: option.splits)

lemma expire_one_reservations:
  "ms_reservations (expire_one rid s) = set_status rid Expired (ms_reservations s)"
  by (auto simp: expire_one_def set_status_def hm_modify_missing split: option.splits)

lemma fold_expire_simps [simp]:
  "ms_idempotency (fold expire_one ids s) = ms_idempotency s"
  "ms_next_id (fold expire_one ids s) = ms_next_id s"
  by (induction ids arbitrary: s) simp_all

lemma fold_expire_reservations:
  "ms_reservations (fold expire_one ids s) =
     map (\<lambda>(rid, r). (rid, if rid \<in> set ids then r\<lparr>rv_status := Expired\<rparr> else r)) (ms_reservations s)"
  by (induction ids arbitrary: s) (auto simp: expire_one_reservations set_status_def hm_modify_map)

lemma fold_expire_inv:
  assumes "mem_inv s" "distinct ids"
    and "\<And>rid. rid \<in> set ids \<Longrightarrow> \<exists>r. hm_get (ms_reservations s) rid = Some r \<and> rv_status r = Active"
  shows "mem_inv (fold expire_one ids s) \<and>
    held k (fold expire_one ids s) \<le> held k s"
  using assms
proof (induction ids arbitrary: s)
  case Nil
  then show ?case by simp
next
  case (Cons rid ids)
  obtain r where r: "hm_get (ms_reservations s) rid = Some r" "rv_status r = Active"
    using Cons.prems(3) [of rid] by auto
  have as: "settles_as Expired release_units" by (simp add: settles_as_def)
  let ?s = "settle rid r Expired release_units s"
  have "\<exists>r. hm_get (ms_reservations ?s) rid' = Some r \<and> rv_status r = Active" if "rid' \<in> set ids" for rid'
    using that Cons.prems(2) Cons.prems(3) [of rid'] by (auto simp: settle_reservations hmap_simps)
  then have "mem_inv (fold expire_one ids ?s) \<and>
      held k (fold expire_one ids ?s) \<le> held k ?s"
    using Cons.prems(2) settle_inv [OF Cons.prems(1) r as] by (intro Cons.IH) auto
  then show ?case
    using settle_level [OF Cons.prems(1) r as, of k] by (simp add: expire_one_settles [OF r(1)])
qed

lemma expired_ids_iff:
  assumes "hm_ok (ms_reservations s)"
  shows "rid \<in> set (expired_ids now s) \<longleftrightarrow>
    (\<exists>r. hm_get (ms_reservations s) rid = Some r \<and> rv_status r = Active \<and> rv_expires_at r \<le> now)"
  using assms by (force simp: expired_ids_def hm_ok_get)

lemma expired_ids_distinct: "hm_ok (ms_reservations s) \<Longrightarrow> distinct (expired_ids now s)"
  unfolding expired_ids_def hm_ok_def hm_keys_def by (rule distinct_map_filter)

lemma cleanup_simps [simp]:
  "ms_idempotency (cleanup_expired now s) = ms_idempotency s"
  "ms_next_id (cleanup_expired now s) = ms_next_id s"
  by (simp_all add: cleanup_expired_def)

lemma cleanup_inv_level:
  assumes "mem_inv s"
  shows "mem_inv (cleanup_expired now s) \<and>
    held k (cleanup_expired now s) \<le> held k s"
  unfolding cleanup_expired_def using assms mem_invD(2) [OF assms]
  by (intro fold_expire_inv) (auto simp: expired_ids_distinct expired_ids_iff)

lemmas cleanup_inv = cleanup_inv_level [THEN conjunct1]
lemmas cleanup_level = cleanup_inv_level [THEN conjunct2]

lemma cleanup_reservations:
  assumes "mem_inv s"
  shows "ms_reservations (cleanup_expired now s) = expire_all now (ms_reservations s)"
proof -
  have "(if rid \<in> set (expired_ids now s) then r\<lparr>rv_status := Expired\<rparr> else r) = expire_record now r"
    if "(rid, r) \<in> set (ms_reservations s)" for rid r
    using that mem_invD(2) [OF assms]
    by (simp add: expired_ids_iff expire_record_def hm_ok_get [symmetric])
  then show ?thesis
    by (auto simp: cleanup_expired_def fold_expire_reservations expire_all_def)
qed

text \<open>Cleaning up twice is cleaning up once; nothing is expired after it.\<close>

lemma cleanup_idle: "expired_ids now s = [] \<Longrightarrow> cleanup_expired now s = s"
  by (simp add: cleanup_expired_def)

lemma expired_ids_cleanup:
  assumes "mem_inv s"
  shows "expired_ids now (cleanup_expired now s) = []"
  by (auto simp: expired_ids_def cleanup_reservations [OF assms] expire_all_def filter_empty_conv)

lemma cleanup_again: "mem_inv s \<Longrightarrow> cleanup_expired now (cleanup_expired now s) = cleanup_expired now s"
  by (rule cleanup_idle) (rule expired_ids_cleanup)

lemma expired_ids_settle:
  assumes "settles_as st f" "expired_ids now s = []"
  shows "expired_ids now (settle rid r st f s) = []"
  using assms
  by (fastforce simp: expired_ids_def settle_reservations set_status_def hm_modify_map filter_empty_conv
      settles_as_def split: if_splits)

text \<open>Two expiries commute, so the iteration order of the hash map does not matter.\<close>

lemma sat_sub_commute: "sat_sub (sat_sub a b) c = sat_sub (sat_sub a c) b"
  unfolding word_unat_eq_iff unat_sat_sub by simp

lemma release_units_commute: "release_units a (release_units b c) = release_units b (release_units a c)"
  by (simp add: release_units_def sat_sub_commute)

lemma expire_one_commute: "expire_one i (expire_one j s) = expire_one j (expire_one i s)"
proof (cases "i = j")
  case False
  have "hm_modify k (release_units a) (hm_modify l (release_units b) m) =
      hm_modify l (release_units b) (hm_modify k (release_units a) m)"
    for k l a b and m :: "(counter_key, counter_record) hmap"
    by (cases "k = l") (simp_all add: hm_modify_same hm_modify_commute comp_def release_units_commute)
  with False show ?thesis
    by (simp add: expire_one_def hmap_simps hm_modify_commute split: option.splits)
qed simp

lemma cleanup_any_order:
  "mset ids = mset (expired_ids now s) \<Longrightarrow> fold expire_one ids s = cleanup_expired now s"
  unfolding cleanup_expired_def
  by (intro fold_multiset_equiv [THEN fun_cong]) (auto simp: expire_one_commute)

end
