(* ===== verification/Memory_Operations.thy ===== *)
theory Memory_Operations
  imports Memory_Invariant
begin

text \<open>
  The operations of the in-memory store against its invariant: what each does on every branch, that
  each keeps the invariant, and that the store implements the contract \<open>budget_store\<close>.
\<close>

section \<open>Commit and refund\<close>

definition settle_locked ::
    "reservation_status \<Rightarrow> (u64 \<Rightarrow> counter_record \<Rightarrow> counter_record) \<Rightarrow> datetime \<Rightarrow> reservation_id \<Rightarrow>
     memory_state \<Rightarrow> (unit, memory_state) store_effect" where
  "settle_locked st f now rid s0 =
     (let s = cleanup_expired now s0 in
      case hm_get (ms_reservations s) rid of
        None \<Rightarrow> (Err StReservationNotFound, s)
      | Some r \<Rightarrow>
          (case rv_status r of
             Active \<Rightarrow> (Ok (), settle rid r st f s)
           | Expired \<Rightarrow> (Err StReservationExpired, s)
           | _ \<Rightarrow> (Ok (), s)))"

lemma settle_counter_missing:
  "mem_inv s \<Longrightarrow> hm_get (ms_reservations (cleanup_expired now s)) rid = Some r \<Longrightarrow>
     \<exists>c. hm_get (ms_counters (cleanup_expired now s)) (rv_counter_key r) = Some c"
  using mem_invD(4) [OF cleanup_inv] by fastforce

text \<open>The missing-counter error of the two operations is dead code.\<close>

lemma commit_settles_as:
  "mem_inv s \<Longrightarrow> commit_locked now rid s = settle_locked Committed commit_units now rid s"
  using settle_counter_missing [of s now rid]
  by (auto simp: commit_locked_def settle_locked_def Let_def settle_def set_status_def
      split: option.splits reservation_status.splits)

lemma refund_settles_as:
  "mem_inv s \<Longrightarrow> refund_locked now rid s = settle_locked Refunded release_units now rid s"
  using settle_counter_missing [of s now rid]
  by (auto simp: refund_locked_def settle_locked_def Let_def settle_def set_status_def
      split: option.splits reservation_status.splits)

lemma settles_as_intros [simp]:
  "settles_as Committed commit_units" "settles_as Refunded release_units"
  "settles_as Expired release_units"
  by (simp_all add: settles_as_def)

lemma settle_locked_cases:
  obtains (missing) "hm_get (ms_reservations (cleanup_expired now s)) rid = None"
      "settle_locked st f now rid s = (Err StReservationNotFound, cleanup_expired now s)"
  | (active) r where "hm_get (ms_reservations (cleanup_expired now s)) rid = Some r" "rv_status r = Active"
      "settle_locked st f now rid s = (Ok (), settle rid r st f (cleanup_expired now s))"
  | (settled) r where "hm_get (ms_reservations (cleanup_expired now s)) rid = Some r"
      "rv_status r = Committed \<or> rv_status r = Refunded"
      "settle_locked st f now rid s = (Ok (), cleanup_expired now s)"
  | (expired) r where "hm_get (ms_reservations (cleanup_expired now s)) rid = Some r" "rv_status r = Expired"
      "settle_locked st f now rid s = (Err StReservationExpired, cleanup_expired now s)"
proof (cases "hm_get (ms_reservations (cleanup_expired now s)) rid")
  case None
  then show ?thesis by (intro missing) (simp_all add: settle_locked_def)
next
  case (Some r)
  then show ?thesis
    by (cases "rv_status r") (auto simp: settle_locked_def intro: active settled expired)
qed

lemma settle_locked_inv:
  assumes "mem_inv s" "settles_as st f"
  shows "mem_inv (snd (settle_locked st f now rid s))"
  using cleanup_inv [OF assms(1)] assms(2)
  by (cases rule: settle_locked_cases [of now s rid st f]) (auto intro: settle_inv)

lemma settle_locked_level:
  assumes "mem_inv s" "settles_as st f"
  shows "held k (snd (settle_locked st f now rid s)) \<le> held k s"
  using cleanup_level [OF assms(1), of k now]
  by (cases rule: settle_locked_cases [of now s rid st f])
    (auto intro: order_trans [OF settle_level [OF cleanup_inv [OF assms(1)] _ _ assms(2)]])

text \<open>After a success the reservation is settled, and once it is settled every call succeeds.\<close>

definition settled_record :: "reservation_record \<Rightarrow> bool" where
  "settled_record r \<longleftrightarrow> rv_status r = Committed \<or> rv_status r = Refunded"

lemma settle_locked_settled:
  assumes "mem_inv s" "settles_as st f" "st \<noteq> Expired" "settle_locked st f now rid s = (Ok (), s')"
  obtains r where "hm_get (ms_reservations s') rid = Some r" "settled_record r"
  using assms(2-4)
  by (cases rule: settle_locked_cases [of now s rid st f])
    (auto simp: settle_reservations hmap_simps settles_as_def settled_record_def)

lemma settled_record_again:
  assumes "mem_inv s" "hm_get (ms_reservations s) rid = Some r" "settled_record r"
  shows "settle_locked st f now rid s = (Ok (), cleanup_expired now s)"
proof -
  have "expire_record now r = r" using assms(3) by (auto simp: expire_record_def settled_record_def)
  then have "hm_get (ms_reservations (cleanup_expired now s)) rid = Some r"
    by (simp add: cleanup_reservations [OF assms(1)] hmap_simps assms(2))
  then show ?thesis using assms(3) by (auto simp: settle_locked_def settled_record_def)
qed

lemma settle_locked_again:
  assumes "mem_inv s" "settles_as st f" "st \<noteq> Expired"
    and "settle_locked st f now rid s = (Ok (), s')"
  shows "settle_locked st' f' now' rid s' = (Ok (), cleanup_expired now' s')"
proof -
  have "mem_inv s'"
    using settle_locked_inv [OF assms(1,2), of now rid] assms(4) by simp
  moreover obtain r where "hm_get (ms_reservations s') rid = Some r" "settled_record r"
    by (rule settle_locked_settled [OF assms])
  ultimately show ?thesis by (rule settled_record_again)
qed

section \<open>Reservation\<close>

lemma next_id_cases:
  obtains (overflow) "unat (ms_next_id s) = 18446744073709551615"
      "next_reservation_id s = (Err (StOther ''reservation id overflow''), s)"
  | (fresh) n where "unat n = unat (ms_next_id s) + 1"
      "next_reservation_id s = (Ok (ReservationId n), s\<lparr>ms_next_id := n\<rparr>)"
proof (cases "checked_add (ms_next_id s) 1")
  case None
  then have "unat (ms_next_id s) = 18446744073709551615"
    using unat_u64_le [of "ms_next_id s"] by (simp add: checked_add_eq_None)
  with None show ?thesis by (intro overflow) (simp_all add: next_reservation_id_def)
next
  case (Some n)
  then have "unat n = unat (ms_next_id s) + 1"
    by (simp add: checked_add_eq_Some unat_add_no_wrap)
  with Some show ?thesis by (intro fresh) (simp_all add: next_reservation_id_def)
qed

lemma next_id_inv:
  "mem_inv s \<Longrightarrow> unat (ms_next_id s) \<le> unat n \<Longrightarrow> mem_inv (s\<lparr>ms_next_id := n\<rparr>)"
  unfolding mem_inv_def counters_exact_def
  by (simp add: counter_at_def units_of_def) (blast intro: order_trans)

lemma next_id_fresh:
  assumes "mem_inv s" "unat (ms_next_id s) < unat n"
  shows "hm_get (ms_reservations s) (ReservationId n) = None"
  using mem_invD(5) [OF assms(1), of "ReservationId n"] assms(2) by fastforce

text \<open>No reservation has been made under the idempotency key of a request, if it has one.\<close>

definition key_unused :: "counter_key \<Rightarrow> idempotency_key option \<Rightarrow> memory_state \<Rightarrow> bool" where
  "key_unused k i s \<longleftrightarrow> Option.bind i (\<lambda>i. hm_get (ms_idempotency s) (k, i)) = None"

lemma key_unused_simps [simp]:
  "key_unused k None s" "key_unused k i (cleanup_expired now s) = key_unused k i s"
  by (simp_all add: key_unused_def)

lemma reserve_locked_cases:
  fixes r s0 lib
  defines "s \<equiv> cleanup_expired (rr_now r) s0"
    and "k \<equiv> counter_key_new (rr_key r) (rr_window r)"
  obtains (replay) i rid where "rr_idempotency_key r = Some i" "hm_get (ms_idempotency s) (k, i) = Some rid"
      "reserve_locked lib r s0 = (Ok (replay_existing_reservation s rid k), s)"
  | (denied) "Option.bind (rr_idempotency_key r) (\<lambda>i. hm_get (ms_idempotency s) (k, i)) = None"
      "rr_effective_limit r < sat_add (cu_used (usage_for_counter s k)) (rr_amount r)"
      "reserve_locked lib r s0 = (Ok (srr_deny (usage_for_counter s k)), s)"
  | (reserve_overflow) "Option.bind (rr_idempotency_key r) (\<lambda>i. hm_get (ms_idempotency s) (k, i)) = None"
      "sat_add (cu_used (usage_for_counter s k)) (rr_amount r) \<le> rr_effective_limit r"
      "unat (ms_next_id s) = 18446744073709551615"
      "reserve_locked lib r s0 = (Err (StOther ''reservation id overflow''), s)"
  | (clock) n where "Option.bind (rr_idempotency_key r) (\<lambda>i. hm_get (ms_idempotency s) (k, i)) = None"
      "sat_add (cu_used (usage_for_counter s k)) (rr_amount r) \<le> rr_effective_limit r"
      "unat n = unat (ms_next_id s) + 1" "ch_add lib (rr_now r) (rr_reservation_ttl r) = None"
      "reserve_locked lib r s0 = (Panic, s\<lparr>ms_next_id := n\<rparr>)"
  | (allowed) n t u s' where "unat n = unat (ms_next_id s) + 1"
      "ch_add lib (rr_now r) (rr_reservation_ttl r) = Some t"
      "sat_add (cu_used (usage_for_counter s k)) (rr_amount r) \<le> rr_effective_limit r"
      "insert_reservation r k (ReservationId n) t (s\<lparr>ms_next_id := n\<rparr>) = (u, s')"
      "reserve_locked lib r s0 = (Ok (srr_allow (store_reservation_new (ReservationId n) t) u), s')"
      "Option.bind (rr_idempotency_key r) (\<lambda>i. hm_get (ms_idempotency s) (k, i)) = None"
proof -
  consider (some) rid where "Option.bind (rr_idempotency_key r) (\<lambda>i. hm_get (ms_idempotency s) (k, i)) = Some rid"
    | (none) "Option.bind (rr_idempotency_key r) (\<lambda>i. hm_get (ms_idempotency s) (k, i)) = None"
    by blast
  then show ?thesis
  proof cases
    case some
    then obtain i where "rr_idempotency_key r = Some i" "hm_get (ms_idempotency s) (k, i) = Some rid"
      by (cases "rr_idempotency_key r") auto
    with some show ?thesis
      by (intro replay) (simp_all add: reserve_locked_def Let_def s_def k_def)
  next
    case none
    show ?thesis
    proof (cases "rr_effective_limit r < sat_add (cu_used (usage_for_counter s k)) (rr_amount r)")
      case True
      with none show ?thesis
        by (intro denied) (simp_all add: reserve_locked_def Let_def s_def k_def)
    next
      case False
      note start = none [unfolded s_def k_def] False [unfolded s_def k_def]
      show ?thesis
      proof (cases rule: next_id_cases [of s])
        case overflow
        with overflow start show ?thesis
          by (intro reserve_overflow) (simp_all add: reserve_locked_def Let_def s_def k_def)
      next
        case (fresh n)
        show ?thesis
        proof (cases "ch_add lib (rr_now r) (rr_reservation_ttl r)")
          case None
          with fresh start show ?thesis
            by (intro clock) (simp_all add: reserve_locked_def Let_def s_def k_def)
        next
          case (Some t)
          obtain u s' where "insert_reservation r k (ReservationId n) t (s\<lparr>ms_next_id := n\<rparr>) = (u, s')"
            by fastforce
          with fresh start Some show ?thesis
            by (intro allowed) (simp_all add: reserve_locked_def Let_def s_def k_def not_less [symmetric])
        qed
      qed
    qed
  qed
qed

text \<open>The insertion of a fresh reservation that fits.\<close>

lemma insert_reservation_eq:
  "insert_reservation r k rid t s =
     (counter_usage_new (cr_committed (counter_at s k)) (sat_add (cr_reserved (counter_at s k)) (rr_amount r)),
      snd (insert_reservation r k rid t s))"
  by (simp add: insert_reservation_def counter_at_def Let_def)

lemma insert_reservation_fst:
  "fst (insert_reservation r k rid t s) =
     counter_usage_new (cr_committed (counter_at s k)) (sat_add (cr_reserved (counter_at s k)) (rr_amount r))"
  by (subst insert_reservation_eq) simp

lemma insert_reservation_simps:
  "ms_next_id (snd (insert_reservation r k rid t s)) = ms_next_id s"
  "ms_reservations (snd (insert_reservation r k rid t s)) =
     hm_insert rid (active_record k (rr_amount r) t) (ms_reservations s)"
  "ms_counters (snd (insert_reservation r k rid t s)) =
     hm_insert k ((counter_at s k)\<lparr>cr_reserved := sat_add (cr_reserved (counter_at s k)) (rr_amount r)\<rparr>)
       (ms_counters s)"
  "ms_idempotency (snd (insert_reservation r k rid t s)) =
     (case rr_idempotency_key r of None \<Rightarrow> ms_idempotency s
      | Some i \<Rightarrow> hm_insert (k, i) rid (ms_idempotency s))"
  by (simp_all add: insert_reservation_def counter_at_def Let_def split: option.splits)

lemma counter_at_insert:
  "counter_at (snd (insert_reservation r k rid t s)) k' =
     (if k' = k then (counter_at s k)\<lparr>cr_reserved := sat_add (cr_reserved (counter_at s k)) (rr_amount r)\<rparr>
      else counter_at s k')"
  unfolding counter_at_def [of "snd (insert_reservation r k rid t s)"]
  by (simp add: insert_reservation_simps hmap_simps counter_at_def [of s k'])

lemma units_of_insert:
  assumes "hm_get (ms_reservations s) rid = None"
  shows "units_of st k' (snd (insert_reservation r k rid t s)) =
      units_of st k' s + (if k' = k \<and> st = Active then unat (rr_amount r) else 0)"
  using assms
  by (auto simp: units_of_def insert_reservation_simps hm_total_insert_new units_in_def active_record_def)

lemma held_insert:
  assumes "hm_get (ms_reservations s) rid = None"
  shows "held k' (snd (insert_reservation r k rid t s)) = held k' s + (if k' = k then unat (rr_amount r) else 0)"
  using assms by (simp add: held_def units_of_insert)

lemma insert_inv:
  assumes "mem_inv s" "hm_get (ms_reservations s) rid = None"
    and "0 < unat (as_u64 rid)" "unat (as_u64 rid) \<le> unat (ms_next_id s)"
    and "held k s + unat (rr_amount r) \<le> 18446744073709551615"
  shows "mem_inv (snd (insert_reservation r k rid t s))"
proof -
  let ?s = "snd (insert_reservation r k rid t s)"
  note inv = mem_invD [OF assms(1)]
  have "hm_ok (ms_counters ?s)" "hm_ok (ms_reservations ?s)" "hm_ok (ms_idempotency ?s)"
    using inv(1-3) by (auto simp: insert_reservation_simps hmap_simps split: option.splits)
  moreover have "0 < unat (as_u64 rid') \<and> unat (as_u64 rid') \<le> unat (ms_next_id ?s) \<and>
      hm_get (ms_counters ?s) (rv_counter_key r') \<noteq> None"
    if "hm_get (ms_reservations ?s) rid' = Some r'" for rid' r'
    using that inv(4,5) assms(3,4)
    by (auto simp: insert_reservation_simps hmap_simps active_record_def split: if_splits)
  moreover have "\<exists>r'. hm_get (ms_reservations ?s) rid' = Some r' \<and> rv_counter_key r' = k'"
    if "hm_get (ms_idempotency ?s) (k', i) = Some rid'" for k' i rid'
    using that inv(6) [of k' i rid'] assms(2)
    by (auto simp: insert_reservation_simps hmap_simps active_record_def split: option.splits if_splits)
  moreover have "counters_exact ?s"
    unfolding counters_exact_def
  proof
    fix k'
    show "unat (cr_reserved (counter_at ?s k')) = units_of Active k' ?s \<and>
        unat (cr_committed (counter_at ?s k')) = units_of Committed k' ?s \<and>
        held k' ?s \<le> 18446744073709551615"
      using inv(7-9) [of k'] assms(5)
      by (cases "k' = k") (simp_all add: counter_at_insert units_of_insert [OF assms(2)]
          held_insert [OF assms(2)] unat_sat_add held_def)
  qed
  ultimately show ?thesis unfolding mem_inv_def by blast
qed

text \<open>
  A reservation is admitted only below the effective limit; under a limit below \<open>u64::MAX\<close> the
  saturating test is the exact one.
\<close>

lemma admitted_exact:
  assumes "mem_inv s" "sat_add (cu_used (usage_for_counter s k)) a \<le> l" "l < u64_max"
  shows "held k s + unat a \<le> unat l"
  using assms(2,3) used_exact [OF assms(1), of k]
  by (simp add: word_le_nat_alt word_less_nat_alt unat_sat_add unat_u64_max)

lemma reserve_locked_inv_level:
  assumes "mem_inv s" "rr_effective_limit r < u64_max"
  defines "k \<equiv> counter_key_new (rr_key r) (rr_window r)"
  shows "mem_inv (snd (reserve_locked lib r s)) \<and>
    held k' (snd (reserve_locked lib r s)) \<le>
      (if k' = k then max (held k' s) (unat (rr_effective_limit r)) else held k' s)"
proof -
  note clean = cleanup_inv [OF assms(1), of "rr_now r"]
  have low: "held k'' (cleanup_expired (rr_now r) s) \<le> held k'' s" for k''
    by (rule cleanup_level [OF assms(1)])
  show ?thesis
  proof (cases rule: reserve_locked_cases [of r s lib])
    case (clock n)
    then show ?thesis
      using clean low [of k'] by (auto intro: next_id_inv)
  next
    case (allowed n t u s')
    let ?s = "cleanup_expired (rr_now r) s\<lparr>ms_next_id := n\<rparr>"
    have inv: "mem_inv ?s"
      using clean allowed(1) by (intro next_id_inv) simp_all
    have new: "hm_get (ms_reservations ?s) (ReservationId n) = None"
      using next_id_fresh [OF clean, of n] allowed(1) by simp
    have fits: "held k ?s + unat (rr_amount r) \<le> unat (rr_effective_limit r)"
      using admitted_exact [OF clean allowed(3) assms(2)] by (simp add: k_def)
    then have "held k ?s + unat (rr_amount r) \<le> 18446744073709551615"
      using unat_u64_le [of "rr_effective_limit r"] by simp
    then have "mem_inv (snd (insert_reservation r k (ReservationId n) t ?s))"
      using allowed(1) by (intro insert_inv inv new) simp_all
    then show ?thesis
      using allowed(4,5) held_insert [OF new, of k' r k t] fits low [of k']
      by (auto simp: k_def)
  qed (use clean low [of k'] in \<open>auto simp: max_def\<close>)
qed

section \<open>The lock\<close>

definition mem_wf :: "memory_store \<Rightarrow> bool" where
  "mem_wf m \<longleftrightarrow> mem_inv (mem_state m)"

lemma mem_wf_new [simp]: "mem_wf memory_store_new"
  by (simp add: mem_wf_def memory_store_new_def)

lemma mem_level_held: "mem_wf m \<Longrightarrow> mem_level m c = held c (mem_state m)"
  by (simp add: mem_level_def held_def mem_wf_def mem_invD(7,8))

lemma with_lock_cases:
  obtains (poisoned) "mem_poisoned m" "with_lock f m = (Err (StOther ''memory store lock is poisoned''), m)"
  | (locked) x s where "\<not> mem_poisoned m" "f (mem_state m) = (x, s)"
      "with_lock f m = (x, \<lparr>mem_state = s, mem_poisoned = (x = Panic)\<rparr>)"
proof (cases "mem_poisoned m")
  case True
  then show ?thesis by (intro poisoned) (simp_all add: with_lock_def write_state_def)
next
  case False
  obtain x s where "f (mem_state m) = (x, s)" by fastforce
  with False show ?thesis by (intro locked) (simp_all add: with_lock_def write_state_def)
qed

lemma with_lock_wf_level:
  assumes "mem_wf m" "mem_level m c \<le> n"
    and "mem_inv (snd (f (mem_state m))) \<and> held c (snd (f (mem_state m))) \<le> n"
  shows "mem_wf (snd (with_lock f m)) \<and> mem_level (snd (with_lock f m)) c \<le> n"
proof (cases rule: with_lock_cases [of m f])
  case poisoned
  with assms show ?thesis by simp
next
  case (locked x s)
  then have "mem_wf (snd (with_lock f m))" using assms(3) by (simp add: mem_wf_def)
  with locked assms(3) show ?thesis by (simp add: mem_level_held)
qed

lemma with_lock_Ok:
  assumes "with_lock f m = (Ok x, m')"
  shows "f (mem_state m) = (Ok x, mem_state m') \<and> \<not> mem_poisoned m \<and> \<not> mem_poisoned m'"
  using assms by (cases rule: with_lock_cases [of m f]) auto

lemma memory_reserve_locks:
  assumes "memory_reserve_if_allowed lib r m = (Ok x, m')"
  shows "with_lock (reserve_locked lib r) m = (Ok x, m')"
  using assms by (auto simp: memory_reserve_if_allowed_def split: outcome.splits)

lemma memory_reserve_state:
  "snd (memory_reserve_if_allowed lib r m) \<in> {m, snd (with_lock (reserve_locked lib r) m)}"
  by (simp add: memory_reserve_if_allowed_def split: outcome.splits)

section \<open>The contract\<close>

lemma reserve_locked_reports:
  assumes "mem_inv s" "rr_effective_limit r < u64_max" "reserve_locked lib r s = (Ok x, s')"
  shows "unat (cu_used (srr_usage x)) = held (counter_key_new (rr_key r) (rr_window r)) s'"
proof -
  let ?k = "counter_key_new (rr_key r) (rr_window r)"
  have inv': "mem_inv s'"
    using reserve_locked_inv_level [OF assms(1,2), of lib] assms(3) by simp
  have "srr_usage x = usage_for_counter s' ?k"
  proof (cases rule: reserve_locked_cases [of r s lib])
    case (allowed n t u s2)
    then have "u = usage_for_counter s' ?k"
      using assms(3) counter_at_insert [of r ?k "ReservationId n" t _ ?k]
        insert_reservation_eq [of r ?k "ReservationId n" t]
      by (metis (no_types, lifting) Pair_inject counter_record.select_convs(1,2) counter_record.surjective
          counter_record.update_convs(2) outcome.inject(1) snd_conv usage_for_counter_at)
    then show ?thesis using allowed assms(3) by (simp add: srr_allow_def)
  qed (use assms(3) in \<open>auto simp: replay_existing_reservation_def srr_allow_def srr_deny_def Let_def
      split: option.splits reservation_status.splits\<close>)
  then show ?thesis using used_exact [OF inv', of ?k] by simp
qed

lemma reserve_locked_returns:
  "reserve_locked lib r s = (Ok x, s') \<Longrightarrow> srr_allowed x = (srr_reservation x \<noteq> None)"
  by (cases rule: reserve_locked_cases [of r s lib])
    (auto simp: replay_existing_reservation_def srr_allow_def srr_deny_def Let_def
      split: option.splits reservation_status.splits)

lemma reserve_locked_admits:
  assumes "mem_inv s" "usage_locked (rr_key r) (rr_window r) (rr_now r) s = (Ok u, s1)"
    and "sat_add (cu_used u) (rr_amount r) \<le> rr_effective_limit r" "rr_idempotency_key r = None"
    and "reserve_locked lib r s1 = (Ok x, s')"
  shows "srr_allowed x"
proof -
  have s1: "s1 = cleanup_expired (rr_now r) s"
    and u: "u = usage_for_counter s1 (counter_key_new (rr_key r) (rr_window r))"
    using assms(2) by (auto simp: usage_locked_def Let_def)
  have again: "cleanup_expired (rr_now r) s1 = s1"
    unfolding s1 by (rule cleanup_again [OF assms(1)])
  show ?thesis
    by (cases rule: reserve_locked_cases [of r s1 lib])
      (use assms(3-5) u again in \<open>auto simp: srr_allow_def\<close>)
qed

lemma memory_usage_wf_level:
  assumes "mem_wf m"
  shows "mem_wf (snd (memory_usage k w t m)) \<and> mem_level (snd (memory_usage k w t m)) c \<le> mem_level m c"
  unfolding memory_usage_def
  using assms cleanup_inv cleanup_level
  by (intro with_lock_wf_level) (simp_all add: usage_locked_def Let_def mem_wf_def mem_level_held)

lemma memory_commit_wf_level:
  assumes "mem_wf m"
  shows "mem_wf (snd (memory_commit t rid m)) \<and> mem_level (snd (memory_commit t rid m)) c \<le> mem_level m c"
  unfolding memory_commit_def
  using assms
  by (intro with_lock_wf_level) (simp_all add: commit_settles_as mem_wf_def mem_level_held
      settle_locked_inv settle_locked_level)

lemma memory_refund_wf_level:
  assumes "mem_wf m"
  shows "mem_wf (snd (memory_refund t rid m)) \<and> mem_level (snd (memory_refund t rid m)) c \<le> mem_level m c"
  unfolding memory_refund_def
  using assms
  by (intro with_lock_wf_level) (simp_all add: refund_settles_as mem_wf_def mem_level_held
      settle_locked_inv settle_locked_level)

lemma memory_reserve_wf_level:
  assumes "mem_wf m" "rr_effective_limit r < u64_max"
  shows "mem_wf (snd (memory_reserve_if_allowed lib r m)) \<and>
    mem_level (snd (memory_reserve_if_allowed lib r m)) c \<le>
      (if c = counter_key_new (rr_key r) (rr_window r)
       then max (mem_level m c) (unat (rr_effective_limit r)) else mem_level m c)"
proof -
  have "mem_wf (snd (with_lock (reserve_locked lib r) m)) \<and>
      mem_level (snd (with_lock (reserve_locked lib r) m)) c \<le>
        (if c = counter_key_new (rr_key r) (rr_window r)
         then max (mem_level m c) (unat (rr_effective_limit r)) else mem_level m c)"
    using assms reserve_locked_inv_level [of "mem_state m" r lib c]
    by (intro with_lock_wf_level) (auto simp: mem_wf_def mem_level_held)
  then show ?thesis
    using memory_reserve_state [of lib r m] assms(1) by auto
qed

lemma memory_usage_reports:
  assumes "mem_wf m" "memory_usage k w t m = (Ok u, m')"
  shows "unat (cu_used u) = mem_level m' (counter_key_new k w)"
proof -
  have "mem_wf m'" using memory_usage_wf_level [OF assms(1), of k w t] assms(2) by simp
  then show ?thesis
    using with_lock_Ok [OF assms(2) [unfolded memory_usage_def]]
    by (auto simp: usage_locked_def Let_def mem_level_held mem_wf_def intro: used_exact)
qed

lemma memory_reserve_reports:
  assumes "mem_wf m" "rr_effective_limit r < u64_max"
    and "memory_reserve_if_allowed lib r m = (Ok x, m')"
  shows "unat (cu_used (srr_usage x)) = mem_level m' (counter_key_new (rr_key r) (rr_window r))"
proof -
  have "mem_wf m'" using memory_reserve_wf_level [OF assms(1,2), of lib] assms(3) by simp
  then show ?thesis
    using with_lock_Ok [OF memory_reserve_locks [OF assms(3)]] assms(1,2)
    by (auto simp: mem_level_held mem_wf_def intro: reserve_locked_reports)
qed

lemma memory_reserve_within:
  assumes "mem_wf m" "rr_effective_limit r < u64_max" "memory_reserve_if_allowed lib r m = (Ok x, m')"
  shows "mem_level m' (counter_key_new (rr_key r) (rr_window r)) \<le> unat (cu_used (srr_usage x))
    \<and> unat (cu_used (srr_usage x)) \<le>
        max (mem_level m (counter_key_new (rr_key r) (rr_window r))) (unat (rr_effective_limit r))"
  using memory_reserve_reports [OF assms] assms(3)
    memory_reserve_wf_level [OF assms(1,2), where lib = lib and c = "counter_key_new (rr_key r) (rr_window r)"] by simp

lemma memory_settled:
  assumes "mem_wf m" "settles_as st f" "st \<noteq> Expired" "with_lock (settle_locked st f t rid) m = (Ok (), m')"
  shows "fst (memory_commit t' rid m') = Ok () \<and> fst (memory_refund t' rid m') = Ok ()"
proof -
  have inv: "mem_inv (mem_state m)" using assms(1) by (simp add: mem_wf_def)
  note ok = with_lock_Ok [OF assms(4)]
  have "mem_inv (mem_state m')"
    using settle_locked_inv [OF inv assms(2), of t rid] ok by simp
  moreover have "settle_locked st' f' t' rid (mem_state m') = (Ok (), cleanup_expired t' (mem_state m'))" for st' f'
    using ok by (intro settle_locked_again [OF inv assms(2,3), of t]) simp
  ultimately show ?thesis
    using ok by (simp add: memory_commit_def memory_refund_def with_lock_def write_state_def
        commit_settles_as refund_settles_as)
qed

lemma memory_ops_simps [simp]:
  "st_reserve_if_allowed (memory_ops lib) = memory_reserve_if_allowed lib"
  "st_commit (memory_ops lib) = memory_commit"
  "st_refund (memory_ops lib) = memory_refund"
  "st_usage (memory_ops lib) = memory_usage"
  by (simp_all add: memory_ops_def)

interpretation memory: settling_store "memory_ops lib" mem_wf counter_key_new mem_level exact_request
  for lib :: "('tz, 'more) chrono_scheme"
proof unfold_locales
  fix m m' :: memory_store and r u x m1
  assume "mem_wf m" "st_usage (memory_ops lib) (rr_key r) (rr_window r) (rr_now r) m = (Ok u, m1)"
    "sat_add (cu_used u) (rr_amount r) \<le> rr_effective_limit r" "rr_idempotency_key r = None"
    "st_reserve_if_allowed (memory_ops lib) r m1 = (Ok x, m')"
  then show "srr_allowed x"
    using with_lock_Ok [of "usage_locked (rr_key r) (rr_window r) (rr_now r)" m u m1]
      with_lock_Ok [OF memory_reserve_locks [of lib r m1 x m']]
    by (auto simp: mem_wf_def memory_usage_def intro: reserve_locked_admits)
next
  fix m m' :: memory_store and t t' rid
  assume m: "mem_wf m" "st_commit (memory_ops lib) t rid m = (Ok (), m')"
  have "with_lock (settle_locked Committed commit_units t rid) m = (Ok (), m')"
    using m by (auto simp: memory_commit_def with_lock_def write_state_def mem_wf_def commit_settles_as)
  then show "fst (st_commit (memory_ops lib) t' rid m') = Ok () \<and> fst (st_refund (memory_ops lib) t' rid m') = Ok ()"
    using memory_settled [OF m(1), of Committed commit_units] by simp
next
  fix m m' :: memory_store and t t' rid
  assume m: "mem_wf m" "st_refund (memory_ops lib) t rid m = (Ok (), m')"
  have "with_lock (settle_locked Refunded release_units t rid) m = (Ok (), m')"
    using m by (auto simp: memory_refund_def with_lock_def write_state_def mem_wf_def refund_settles_as)
  then show "fst (st_commit (memory_ops lib) t' rid m') = Ok () \<and> fst (st_refund (memory_ops lib) t' rid m') = Ok ()"
    using memory_settled [OF m(1), of Refunded release_units] by simp
next
  fix m m' :: memory_store and r x
  assume "st_reserve_if_allowed (memory_ops lib) r m = (Ok x, m')"
  then show "srr_allowed x = (srr_reservation x \<noteq> None)"
    using with_lock_Ok [OF memory_reserve_locks [of lib r m x m']] by (auto dest: reserve_locked_returns)
qed (simp_all add: memory_usage_wf_level memory_commit_wf_level memory_refund_wf_level
    memory_reserve_wf_level [THEN conjunct1] memory_reserve_wf_level [THEN conjunct2]
    memory_usage_reports memory_reserve_within exact_request_def)

end
