(* ===== verification/Memory_Lifecycle.thy ===== *)
theory Memory_Lifecycle
  imports Memory_Operations
begin

text \<open>
  The life of a reservation in the in-memory store over arbitrary sequences of calls: it is created
  active under a fresh id, leaves that state at most once, is never changed again, and an
  idempotency key keeps the reservation it was first bound to.
\<close>

section \<open>Runs of the store\<close>

inductive memory_step :: "('tz, 'more) chrono_scheme \<Rightarrow> memory_store \<Rightarrow> memory_store \<Rightarrow> bool"
  for lib where
  call: "exact_call c \<Longrightarrow> memory_step lib m (store_after (memory_ops lib) c m)"

inductive_cases memory_stepE: "memory_step lib m m'"

definition record_evolves :: "reservation_record \<Rightarrow> reservation_record \<Rightarrow> bool" where
  "record_evolves r r' \<longleftrightarrow>
     rv_counter_key r' = rv_counter_key r \<and> rv_amount r' = rv_amount r
   \<and> rv_expires_at r' = rv_expires_at r \<and> (rv_status r \<noteq> Active \<longrightarrow> r' = r)"

definition evolves :: "memory_state \<Rightarrow> memory_state \<Rightarrow> bool" where
  "evolves s s' \<longleftrightarrow>
     unat (ms_next_id s) \<le> unat (ms_next_id s')
   \<and> (\<forall>rid r. hm_get (ms_reservations s) rid = Some r \<longrightarrow>
        (\<exists>r'. hm_get (ms_reservations s') rid = Some r' \<and> record_evolves r r'))
   \<and> (\<forall>k i rid. hm_get (ms_idempotency s) (k, i) = Some rid \<longrightarrow>
        hm_get (ms_idempotency s') (k, i) = Some rid)"

lemma record_evolves_refl [simp]: "record_evolves r r"
  by (simp add: record_evolves_def)

lemma record_evolves_trans: "record_evolves r r' \<Longrightarrow> record_evolves r' r'' \<Longrightarrow> record_evolves r r''"
  by (cases "rv_status r = Active") (simp_all add: record_evolves_def)

lemma evolves_refl [simp]: "evolves s s"
  by (simp add: evolves_def)

lemma evolves_trans:
  assumes "evolves s s'" "evolves s' s''"
  shows "evolves s s''"
  unfolding evolves_def
proof (intro conjI allI impI)
  show "unat (ms_next_id s) \<le> unat (ms_next_id s'')"
    using assms by (simp add: evolves_def)
  show "\<exists>r''. hm_get (ms_reservations s'') rid = Some r'' \<and> record_evolves r r''"
    if "hm_get (ms_reservations s) rid = Some r" for rid r
    using that assms unfolding evolves_def by (meson record_evolves_trans)
  show "hm_get (ms_idempotency s'') (k, i) = Some rid"
    if "hm_get (ms_idempotency s) (k, i) = Some rid" for k i rid
    using that assms by (simp add: evolves_def)
qed

lemma expire_record_evolves: "record_evolves r (expire_record now r)"
  by (simp add: record_evolves_def) (simp add: expire_record_def)

lemma cleanup_evolves: "mem_inv s \<Longrightarrow> evolves s (cleanup_expired now s)"
  by (simp add: evolves_def cleanup_reservations hmap_simps expire_record_evolves)

lemma settle_evolves:
  "hm_get (ms_reservations s) rid = Some r \<Longrightarrow> rv_status r = Active \<Longrightarrow> evolves s (settle rid r st f s)"
  by (simp add: evolves_def settle_reservations hmap_simps record_evolves_def)

lemma settle_locked_evolves:
  assumes "mem_inv s"
  shows "evolves s (snd (settle_locked st f now rid s))"
  using cleanup_evolves [OF assms, of now]
  by (cases rule: settle_locked_cases [of now s rid st f]) (auto intro: evolves_trans settle_evolves)

lemma reserve_locked_evolves:
  assumes "mem_inv s"
  shows "evolves s (snd (reserve_locked lib r s))"
proof -
  note clean = cleanup_evolves [OF assms, of "rr_now r"]
  note inv = cleanup_inv [OF assms, of "rr_now r"]
  show ?thesis
  proof (cases rule: reserve_locked_cases [of r s lib])
    case (clock n)
    then have "evolves (cleanup_expired (rr_now r) s) (snd (reserve_locked lib r s))"
      by (simp add: evolves_def)
    with clean show ?thesis by (rule evolves_trans)
  next
    case (allowed n t u s')
    have new: "hm_get (ms_reservations (cleanup_expired (rr_now r) s)) (ReservationId n) = None"
      using next_id_fresh [OF inv, of n] allowed(1) by simp
    have s': "s' = snd (insert_reservation r (counter_key_new (rr_key r) (rr_window r)) (ReservationId n) t
        (cleanup_expired (rr_now r) s\<lparr>ms_next_id := n\<rparr>))"
      using allowed(4) by simp
    have "evolves (cleanup_expired (rr_now r) s) s'"
      using allowed(1,6) new
      by (auto simp: evolves_def s' insert_reservation_simps hmap_simps split: option.splits)
    with clean allowed(5) show ?thesis by (auto intro: evolves_trans)
  qed (use clean in simp_all)
qed

lemma with_lock_evolves:
  assumes "evolves (mem_state m) (snd (f (mem_state m)))"
  shows "evolves (mem_state m) (mem_state (snd (with_lock f m)))"
  using assms by (cases rule: with_lock_cases [of m f]) auto

lemma call_evolves:
  assumes "mem_wf m"
  shows "evolves (mem_state m) (mem_state (store_after (memory_ops lib) c m))"
proof -
  have inv: "mem_inv (mem_state m)" using assms by (simp add: mem_wf_def)
  show ?thesis
  proof (cases c)
    case (ReserveCall r)
    then show ?thesis
      using memory_reserve_state [of lib r m] with_lock_evolves [of m "reserve_locked lib r"]
        reserve_locked_evolves [OF inv, of lib r] by auto
  next
    case (CommitCall t rid)
    then show ?thesis
      by (simp add: memory_commit_def with_lock_evolves commit_settles_as inv settle_locked_evolves)
  next
    case (RefundCall t rid)
    then show ?thesis
      by (simp add: memory_refund_def with_lock_evolves refund_settles_as inv settle_locked_evolves)
  next
    case (UsageCall k w t)
    then show ?thesis
      by (simp add: memory_usage_def with_lock_evolves usage_locked_def Let_def cleanup_evolves inv)
  qed
qed

interpretation memory_run: stepwise_relation "memory_step lib" mem_wf
    "\<lambda>m m'. evolves (mem_state m) (mem_state m')" for lib :: "('tz, 'more) chrono_scheme"
proof unfold_locales
  fix m m'
  assume "memory_step lib m m'" "mem_wf m"
  then show "mem_wf m'" by (auto elim!: memory_stepE intro: memory.after_wf)
next
  fix m m'
  assume "memory_step lib m m'" "mem_wf m"
  then show "evolves (mem_state m) (mem_state m')" by (auto elim!: memory_stepE intro: call_evolves)
qed (auto intro: evolves_trans)

lemma memory_runD:
  assumes "(memory_step lib)\<^sup>*\<^sup>* m m'" "mem_wf m"
  shows "mem_wf m'" "evolves (mem_state m) (mem_state m')"
  using assms memory_run.run_inv memory_run.run_related by blast+

section \<open>Idempotency keys\<close>

text \<open>The first reservation under a key binds it.\<close>

lemma reserve_binds_key:
  assumes "mem_wf m" "rr_effective_limit r < u64_max" "rr_idempotency_key r = Some i"
    and "memory_reserve_if_allowed lib r m = (Ok x, m1)" "srr_reservation x = Some v"
  shows "hm_get (ms_idempotency (mem_state m1)) (counter_key_new (rr_key r) (rr_window r), i) = Some (sr_id v)
    \<and> (\<exists>q. hm_get (ms_reservations (mem_state m1)) (sr_id v) = Some q \<and> rv_expires_at q = sr_expires_at v
          \<and> (rv_status q = Active \<or> rv_status q = Committed))"
proof -
  let ?k = "counter_key_new (rr_key r) (rr_window r)"
  let ?s = "cleanup_expired (rr_now r) (mem_state m)"
  have inv: "mem_inv ?s" using assms(1) by (simp add: mem_wf_def cleanup_inv)
  have x: "reserve_locked lib r (mem_state m) = (Ok x, mem_state m1)"
    using with_lock_Ok [OF memory_reserve_locks [OF assms(4)]] by simp
  show ?thesis
  proof (cases rule: reserve_locked_cases [of r "mem_state m" lib])
    case (replay j rid)
    then obtain q where "hm_get (ms_reservations ?s) rid = Some q"
      using mem_invD(6) [OF inv, of ?k j rid] by auto
    with replay x assms(3,5) show ?thesis
      by (auto simp: replay_existing_reservation_def Let_def srr_allow_def srr_deny_def
          store_reservation_new_def split: reservation_status.splits)
  next
    case (allowed n t u s')
    have "s' = snd (insert_reservation r ?k (ReservationId n) t (?s\<lparr>ms_next_id := n\<rparr>))"
      using allowed(4) by simp
    with allowed(5) x assms(3,5) show ?thesis
      by (auto simp: srr_allow_def store_reservation_new_def insert_reservation_simps hmap_simps active_record_def)
  qed (use x assms(5) in \<open>simp_all add: srr_deny_def\<close>)
qed

text \<open>Nothing has expired right after a reservation, which so shows in the usage of the same instant.\<close>

lemma reserve_leaves_clean:
  assumes "chrono_laws lib" "mem_wf m" "rr_effective_limit r < u64_max" "memory_reserve_if_allowed lib r m = (Ok x, m1)"
  shows "mem_wf m1 \<and> \<not> mem_poisoned m1 \<and> cleanup_expired (rr_now r) (mem_state m1) = mem_state m1"
proof -
  let ?k = "counter_key_new (rr_key r) (rr_window r)"
  let ?s = "cleanup_expired (rr_now r) (mem_state m)"
  have inv: "mem_inv (mem_state m)" using assms(2) by (simp add: mem_wf_def)
  have x: "reserve_locked lib r (mem_state m) = (Ok x, mem_state m1)" "\<not> mem_poisoned m1"
    using with_lock_Ok [OF memory_reserve_locks [OF assms(4)]] by simp_all
  have wf: "mem_wf m1" using memory_reserve_wf_level [OF assms(2,3), of lib] assms(4) by simp
  then have ok: "hm_ok (ms_reservations (mem_state m1))" by (simp add: mem_wf_def mem_invD(2))
  have ttl: "0 < rr_reservation_ttl r"
    using assms(4) by (auto simp: memory_reserve_if_allowed_def split: outcome.splits)
  have idle: "expired_ids (rr_now r) ?s = []" by (rule expired_ids_cleanup [OF inv])
  have "expired_ids (rr_now r) (mem_state m1) = []"
  proof (cases rule: reserve_locked_cases [of r "mem_state m" lib])
    case (allowed n t u s')
    have "t = rr_now r + rr_reservation_ttl r" by (rule chrono_add [OF assms(1) allowed(2)])
    moreover have "mem_state m1 = snd (insert_reservation r ?k (ReservationId n) t (?s\<lparr>ms_next_id := n\<rparr>))"
      using allowed(4,5) x(1) by simp
    moreover have "rid \<notin> set (expired_ids (rr_now r) ?s)" for rid by (simp add: idle)
    ultimately have "rid \<notin> set (expired_ids (rr_now r) (mem_state m1))" for rid
      using ttl cleanup_inv [OF inv, of "rr_now r"] ok
      by (auto simp: expired_ids_iff mem_invD(2) insert_reservation_simps hmap_simps active_record_def)
    then show ?thesis by (metis list.set_intros(1) neq_Nil_conv)
  qed (use x(1) idle in simp_all)
  then show ?thesis using wf x(2) by (simp add: cleanup_idle)
qed

lemma usage_after_reserve:
  assumes "chrono_laws lib" "mem_wf m" "rr_effective_limit r < u64_max" "memory_reserve_if_allowed lib r m = (Ok x, m1)"
  obtains u where "memory_usage (rr_key r) (rr_window r) (rr_now r) m1 = (Ok u, m1)" "cu_used u = cu_used (srr_usage x)"
proof -
  note clean = reserve_leaves_clean [OF assms]
  then have "memory_usage (rr_key r) (rr_window r) (rr_now r) m1 =
      (Ok (usage_for_counter (mem_state m1) (counter_key_new (rr_key r) (rr_window r))), m1)" (is "_ = (Ok ?u, _)")
    by (cases m1) (simp add: memory_usage_def with_lock_def write_state_def usage_locked_def Let_def)
  moreover have "unat (cu_used ?u) = unat (cu_used (srr_usage x))"
    using memory_usage_reports [OF _ calculation] memory_reserve_reports [OF assms(2-4)] clean by simp
  ultimately show ?thesis by (rule that [OF _ word_unat_eq_iff [THEN iffD2]])
qed

text \<open>The store answers a repetition at the same instant with the reservation it made.\<close>

lemma reserve_replayed:
  assumes "chrono_laws lib" "mem_wf m" "rr_effective_limit r < u64_max" "rr_idempotency_key r = Some i"
    and "memory_reserve_if_allowed lib r m = (Ok x, m1)" "srr_reservation x = Some v"
    and "reserve_request_validate q = Ok ()" "rr_key q = rr_key r" "rr_window q = rr_window r" "rr_now q = rr_now r"
      "rr_idempotency_key q = Some i"
  shows "\<exists>u. memory_reserve_if_allowed lib q m1 = (Ok (srr_allow v u), m1)"
proof -
  let ?k = "counter_key_new (rr_key r) (rr_window r)"
  note clean = reserve_leaves_clean [OF assms(1,2,3,5)] and bound = reserve_binds_key [OF assms(2-6)]
  have "reserve_locked lib q (mem_state m1) = (Ok (replay_existing_reservation (mem_state m1) (sr_id v) ?k), mem_state m1)"
    using clean bound assms(8-11) by (simp add: reserve_locked_def Let_def)
  moreover have "\<exists>u. replay_existing_reservation (mem_state m1) (sr_id v) ?k = srr_allow v u"
    using bound by (cases v) (auto simp: replay_existing_reservation_def Let_def store_reservation_new_def)
  ultimately show ?thesis
    using clean assms(7) by (cases m1) (auto simp: memory_reserve_if_allowed_def with_lock_def write_state_def
        simp del: reserve_request_validate_Ok)
qed

end
