(* ===== verification/Broker_Runs.thy ===== *)
theory Broker_Runs
  imports Broker_Safety Memory_Lifecycle
begin

text \<open>
  Many tasks share one warden and one store. A run interleaves their operations: a \<open>reserve\<close> is two
  steps, between which anything may happen, and a task may be dropped while it waits (its pending
  reservation simply never finishes). A report awaits the store once for each policy: an interrupted one
  is a step \<open>report_part\<close> for each of its queries, an uninterrupted one the single step \<open>report\<close>. The safety properties hold for every interleaving.
\<close>

section \<open>Runs\<close>

record 's broker_run =
  run_store :: 's
  run_pending :: "pending_reserve list"
  run_handles :: "budget_reservation list"

fun handle_of :: "(budget_decision, budget_error) outcome \<Rightarrow> budget_reservation list" where
  "handle_of (Ok (AllowLive v u)) = [v]"
| "handle_of _ = []"

definition run_start :: "'s \<Rightarrow> 's broker_run" where
  "run_start s = \<lparr>run_store = s, run_pending = [], run_handles = []\<rparr>"

inductive broker_step ::
    "('tz, 'more) chrono_scheme \<Rightarrow> 's budget_warden \<Rightarrow> 's broker_run \<Rightarrow> 's broker_run \<Rightarrow> bool"
  for lib wd where
  suspend: "reserve_begin lib wd t r (run_store st) = (Suspended p, s') \<Longrightarrow>
      broker_step lib wd st (st\<lparr>run_store := s', run_pending := p # run_pending st\<rparr>)"
| refuse: "reserve_begin lib wd t r (run_store st) = (Finished x events, s') \<Longrightarrow>
      broker_step lib wd st (st\<lparr>run_store := s', run_handles := handle_of x @ run_handles st\<rparr>)"
| resume: "p \<in> set (run_pending st) \<Longrightarrow> reserve_finish lib wd p (run_store st) = (x, events, s') \<Longrightarrow>
      broker_step lib wd st (st\<lparr>run_store := s', run_pending := remove1 p (run_pending st),
        run_handles := handle_of x @ run_handles st\<rparr>)"
| authorize: "authorize lib wd t r (run_store st) = (x, events, s') \<Longrightarrow>
      broker_step lib wd st (st\<lparr>run_store := s', run_handles := handle_of x @ run_handles st\<rparr>)"
| commit: "v \<in> set (run_handles st) \<Longrightarrow>
      reservation_commit (wd_store wd) t v (run_store st) = (y, events, s') \<Longrightarrow>
      broker_step lib wd st (st\<lparr>run_store := s'\<rparr>)"
| refund: "v \<in> set (run_handles st) \<Longrightarrow>
      reservation_refund (wd_store wd) t v (run_store st) = (y, events, s') \<Longrightarrow>
      broker_step lib wd st (st\<lparr>run_store := s'\<rparr>)"
| usage: "broker_usage lib wd t q (run_store st) = (z, events, s') \<Longrightarrow>
      broker_step lib wd st (st\<lparr>run_store := s'\<rparr>)"
| report: "broker_report lib wd t (run_store st) = (rep, events, s') \<Longrightarrow>
      broker_step lib wd st (st\<lparr>run_store := s'\<rparr>)"
| report_part: "p \<in> set (wd_policies wd) \<Longrightarrow>
      policy_usage lib wd p (report_key (bp_key p)) generated_at (run_store st) = (z, s') \<Longrightarrow>
      broker_step lib wd st (st\<lparr>run_store := s'\<rparr>)"

inductive_cases broker_stepE: "broker_step lib wd st st'"

section \<open>The invariant of a run\<close>

definition limits_exact :: "'s budget_warden \<Rightarrow> bool" where
  "limits_exact wd \<longleftrightarrow> list_all (\<lambda>p. bp_hard_limit p < u64_max) (wd_policies wd)"

text \<open>Every request the warden can make of its store is one the store is made for.\<close>

definition requests_fit :: "(reserve_request \<Rightarrow> bool) \<Rightarrow> 's budget_warden \<Rightarrow> bool" where
  "requests_fit fit wd \<longleftrightarrow>
     (\<forall>p \<in> set (wd_policies wd). \<forall>r. rr_effective_limit r \<le> bp_hard_limit p
        \<and> rr_reservation_ttl r = wd_reservation_ttl wd \<longrightarrow> fit r)"

lemma limits_exact_fit: "limits_exact wd \<Longrightarrow> requests_fit exact_request wd"
  unfolding limits_exact_def requests_fit_def exact_request_def list_all_iff
  by (blast intro: order.strict_trans1)

definition within_limits ::
    "(store_key \<Rightarrow> window_bounds \<Rightarrow> 'c) \<Rightarrow> ('s \<Rightarrow> 'c \<Rightarrow> nat) \<Rightarrow> 's budget_warden \<Rightarrow> 's \<Rightarrow> bool" where
  "within_limits slot level wd s \<longleftrightarrow>
     (\<forall>p \<in> set (wd_policies wd). \<forall>k w. level s (slot (policy_store_key p k) w) \<le> unat (bp_hard_limit p))"

text \<open>No two policies of the warden share a counter.\<close>

definition policies_apart :: "(store_key \<Rightarrow> window_bounds \<Rightarrow> 'c) \<Rightarrow> 's budget_warden \<Rightarrow> bool" where
  "policies_apart slot wd \<longleftrightarrow>
     (\<forall>p \<in> set (wd_policies wd). \<forall>q \<in> set (wd_policies wd). \<forall>k l v w.
        slot (policy_store_key p k) v = slot (policy_store_key q l) w \<longrightarrow> p = q)"

definition run_ok ::
    "'s store_ops \<Rightarrow> ('s \<Rightarrow> bool) \<Rightarrow> (store_key \<Rightarrow> window_bounds \<Rightarrow> 'c) \<Rightarrow> ('s \<Rightarrow> 'c \<Rightarrow> nat) \<Rightarrow>
     (reserve_request \<Rightarrow> bool) \<Rightarrow> 's budget_warden \<Rightarrow> 's broker_run \<Rightarrow> bool" where
  "run_ok ops good slot level fit wd st \<longleftrightarrow>
     wd_store wd = ops \<and> policies_apart slot wd \<and> requests_fit fit wd \<and> good (run_store st)
   \<and> list_all (pending_wf wd) (run_pending st) \<and> within_limits slot level wd (run_store st)"

context budget_store
begin

lemma lower_within:
  "within_limits slot level wd s \<Longrightarrow> (\<And>c. level s' c \<le> level s c) \<Longrightarrow> within_limits slot level wd s'"
  unfolding within_limits_def by (meson order_trans)

lemma reads_run_ok:
  assumes "run_ok ops wf slot level fit wd st" "only_reads ops (run_store st) s'"
  shows "wf s' \<and> within_limits slot level wd s'"
  using assms reads_keep [OF assms(2)]
  by (auto simp: run_ok_def intro: lower_within)

lemma finish_within:
  assumes "run_ok ops wf slot level fit wd st" "p \<in> set (run_pending st)"
  shows "wf (snd (snd (reserve_finish lib wd p (run_store st)))) \<and>
    within_limits slot level wd (snd (snd (reserve_finish lib wd p (run_store st))))"
proof -
  let ?s' = "snd (snd (reserve_finish lib wd p (run_store st)))"
  have ok: "wd_store wd = ops" "policies_apart slot wd" "wf (run_store st)" "pending_wf wd p"
    "within_limits slot level wd (run_store st)"
    and pol: "pr_policy p \<in> set (wd_policies wd)" and lim: "fit (pr_store_request p)"
    using assms by (auto simp: run_ok_def list_all_iff pending_wf_def requests_fit_def)
  note keeps = finish_keeps [OF ok(1,3,4) lim, of lib]
  have "level ?s' (slot (policy_store_key q k) w) \<le> unat (bp_hard_limit q)"
    if q: "q \<in> set (wd_policies wd)" for q k w
  proof (cases "slot (policy_store_key q k) w = slot (policy_store_key (pr_policy p) (rq_key (pr_request p))) (pr_window p)")
    case True
    then have "q = pr_policy p"
      using ok(2) q pol unfolding policies_apart_def by blast
    with True keeps(2) [of "slot (policy_store_key q k) w"] ok(5) q show ?thesis
      by (auto simp: within_limits_def intro: order_trans)
  next
    case False
    with keeps(2) [of "slot (policy_store_key q k) w"] ok(5) q show ?thesis
      by (auto simp: within_limits_def intro: order_trans)
  qed
  with keeps(1) show ?thesis by (simp add: within_limits_def)
qed

lemma commit_refund_within:
  assumes "run_ok ops wf slot level fit wd st"
  shows "wf (snd (snd (reservation_commit ops t v (run_store st)))) \<and>
      within_limits slot level wd (snd (snd (reservation_commit ops t v (run_store st))))"
    and "wf (snd (snd (reservation_refund ops t v (run_store st)))) \<and>
      within_limits slot level wd (snd (snd (reservation_refund ops t v (run_store st))))"
proof -
  have st: "wf (run_store st)" "within_limits slot level wd (run_store st)"
    using assms by (simp_all add: run_ok_def)
  then show "wf (snd (snd (reservation_commit ops t v (run_store st)))) \<and>
      within_limits slot level wd (snd (snd (reservation_commit ops t v (run_store st))))"
    unfolding reservation_commit_state by (auto intro: commit_wf lower_within commit_level)
  from st show "wf (snd (snd (reservation_refund ops t v (run_store st)))) \<and>
      within_limits slot level wd (snd (snd (reservation_refund ops t v (run_store st))))"
    unfolding reservation_refund_state by (auto intro: refund_wf lower_within refund_level)
qed

lemma step_run_ok:
  assumes "broker_step lib wd st st'" "run_ok ops wf slot level fit wd st"
  shows "run_ok ops wf slot level fit wd st'"
proof -
  note same = assms(2) [unfolded run_ok_def]
  have store: "wd_store wd = ops" using same by simp
  from assms(1) show ?thesis
  proof cases
    case (suspend t r p s')
    have "only_reads ops (run_store st) s'"
      using broker_enter_reads [of wd "run_store st" lib t r] reserve_begin_state [of lib wd t r "run_store st"]
        suspend store by simp
    then show ?thesis
      using reads_run_ok [OF assms(2)] same suspend reserve_begin_pending by (auto simp: run_ok_def)
  next
    case (refuse t r x events s')
    have "only_reads ops (run_store st) s'"
      using broker_enter_reads [of wd "run_store st" lib t r] reserve_begin_state [of lib wd t r "run_store st"]
        refuse store by simp
    then show ?thesis
      using reads_run_ok [OF assms(2)] same refuse by (auto simp: run_ok_def)
  next
    case (resume p x events s')
    then show ?thesis
      using finish_within [OF assms(2), of p lib] same
      by (auto simp: run_ok_def list_all_iff dest: set_remove1_subset [THEN subsetD])
  next
    case (authorize t r x events s')
    have "only_reads ops (run_store st) s'"
      using broker_enter_reads [of wd "run_store st" lib t r] authorize_state [of lib wd t r "run_store st"]
        authorize store by simp
    then show ?thesis
      using reads_run_ok [OF assms(2)] same authorize by (auto simp: run_ok_def)
  next
    case (commit v t y events s')
    then show ?thesis
      using commit_refund_within(1) [OF assms(2), of t v] same by (auto simp: run_ok_def)
  next
    case (refund v t y events s')
    then show ?thesis
      using commit_refund_within(2) [OF assms(2), of t v] same by (auto simp: run_ok_def)
  next
    case (usage t q z events s')
    then show ?thesis
      using reads_run_ok [OF assms(2)] same broker_usage_reads [of wd "run_store st" lib t q]
      by (auto simp: run_ok_def)
  next
    case (report t rep events s')
    then show ?thesis
      using reads_run_ok [OF assms(2)] same broker_report_reads [of wd "run_store st" lib t]
      by (auto simp: run_ok_def)
  next
    case (report_part p generated_at z s')
    then show ?thesis
      using reads_run_ok [OF assms(2)] same
        policy_usage_reads [of wd "run_store st" lib p "report_key (bp_key p)" generated_at]
      by (auto simp: run_ok_def)
  qed
qed

end

text \<open>On the in-memory store.\<close>

interpretation memory_runs: stepwise "broker_step lib wd"
    "run_ok (memory_ops lib) mem_wf counter_key_new mem_level exact_request wd"
  for lib :: "('tz, 'more) chrono_scheme" and wd :: "memory_store budget_warden"
  by unfold_locales (rule memory.step_run_ok)

lemma mem_level_new [simp]: "mem_level memory_store_new c = 0"
  by (simp add: mem_level_def memory_store_new_def default_memory_state_def counter_at_def default_counter_def)

lemma memory_policies_apart: "warden_wf wd \<Longrightarrow> policies_apart counter_key_new wd"
  unfolding policies_apart_def warden_wf_def counter_key_new_inject
  by (blast dest: policy_store_key_inject)

lemma run_start_ok:
  assumes "wd_store wd = memory_ops lib" "warden_wf wd" "limits_exact wd"
  shows "run_ok (memory_ops lib) mem_wf counter_key_new mem_level exact_request wd (run_start memory_store_new)"
  using assms by (simp add: run_ok_def run_start_def within_limits_def memory_policies_apart limits_exact_fit)

end
