(* ===== verification/Fixtures.thy ===== *)
theory Fixtures
  imports Utc_Library Broker_Runs
begin

text \<open>
  Concrete policies, requests and stores, on which the properties are evaluated.
\<close>

definition demo_key :: budget_key where
  "demo_key =
     \<lparr>bk_provider = ''serpapi'', bk_domain = ''search'', bk_resource = ''google'', bk_subject = ''global''\<rparr>"

definition demo_pattern :: budget_key_pattern where
  "demo_pattern = \<lparr>kp_provider = ''serpapi'', kp_domain = None, kp_resource = None, kp_subject = None\<rparr>"

definition demo_policy :: "budget_strategy \<Rightarrow> budget_policy" where
  "demo_policy strategy =
     \<lparr>bp_name = ''daily'', bp_key = demo_pattern, bp_unit = Requests, bp_hard_limit = 10,
      bp_window = CalendarDay ''UTC'', bp_strategy = strategy, bp_exhausted_action = Reject,
      bp_low_budget_action = Some UseStaleCache, bp_fail_mode = Closed\<rparr>"

definition demo_now :: datetime where
  "demo_now = utc_instant 2026 6 15 12 0"

definition demo_window :: window_bounds where
  "demo_window = \<lparr>wb_start = utc_instant 2026 6 15 0 0, wb_end = utc_instant 2026 6 16 0 0\<rparr>"

definition demo_store_key :: store_key where
  "demo_store_key = store_key_new ''daily'' demo_key Requests"

definition demo_builder :: "budget_policy list \<Rightarrow> memory_store warden_builder" where
  "demo_builder policies =
     \<lparr>wbd_store = Some (memory_ops utc_chrono), wbd_policies = policies, wbd_clock = None,
      wbd_reservation_ttl = None\<rparr>"

definition demo_warden :: "budget_strategy \<Rightarrow> memory_store budget_warden" where
  "demo_warden strategy =
     \<lparr>wd_store = memory_ops utc_chrono, wd_policies = [demo_policy strategy], wd_clock = system_clock,
      wd_reservation_ttl = default_reservation_ttl\<rparr>"

definition demo_request :: "u64 \<Rightarrow> priority \<Rightarrow> idempotency_key option \<Rightarrow> budget_request" where
  "demo_request amount prio i =
     \<lparr>rq_key = demo_key, rq_unit = Requests, rq_amount = amount, rq_priority = prio,
      rq_idempotency_key = i, rq_metadata = []\<rparr>"

definition demo_reserve :: "u64 \<Rightarrow> u64 \<Rightarrow> idempotency_key option \<Rightarrow> reserve_request" where
  "demo_reserve amount limit i =
     \<lparr>rr_key = demo_store_key, rr_amount = amount, rr_hard_limit = 10, rr_effective_limit = limit,
      rr_reservation_ttl = duration_minutes 5, rr_window = demo_window, rr_idempotency_key = i,
      rr_now = demo_now\<rparr>"

text \<open>The store after one reservation of three units.\<close>

definition demo_store :: memory_store where
  "demo_store =
     store_after (memory_ops utc_chrono) (ReserveCall (demo_reserve 3 10 (Some (IdempotencyKey ''a'')))) memory_store_new"

lemma memory_run_calls:
  assumes "list_all exact_call cs"
  shows "(memory_step lib)\<^sup>*\<^sup>* m (fold (store_after (memory_ops lib)) cs m)"
  using assms
proof (induction cs arbitrary: m)
  case (Cons c cs)
  then have "memory_step lib m (store_after (memory_ops lib) c m)"
    by (auto intro: memory_step.call)
  with Cons show ?case by (auto intro: converse_rtranclp_into_rtranclp)
qed simp

lemma demo_run: "(memory_step utc_chrono)\<^sup>*\<^sup>* memory_store_new demo_store"
  using memory_run_calls [of "[ReserveCall (demo_reserve 3 10 (Some (IdempotencyKey ''a'')))]" utc_chrono memory_store_new]
  by (simp add: demo_store_def demo_reserve_def u64_max_def exact_request_def)

lemma demo_store_wf: "mem_wf demo_store"
  by (rule memory_runD [OF demo_run]) simp

lemma demo_store_usage:
  "memory_usage demo_store_key demo_window demo_now demo_store =
     (Ok \<lparr>cu_committed = 0, cu_reserved = 3\<rparr>, demo_store)"
  by code_simp

text \<open>Two tasks begin before either finishes.\<close>

definition race :: "'s budget_warden \<Rightarrow> 's \<Rightarrow> u64 \<Rightarrow> u64 \<Rightarrow> 's broker_run option" where
  "race wd s a1 a2 =
     (case reserve_begin utc_chrono wd demo_now (demo_request a1 Normal None) s of
        (Suspended p1, m1) \<Rightarrow>
          (case reserve_begin utc_chrono wd demo_now (demo_request a2 Normal None) m1 of
             (Suspended p2, m2) \<Rightarrow>
               (case reserve_finish utc_chrono wd p1 m2 of
                  (x1, e1, m3) \<Rightarrow>
                    (case reserve_finish utc_chrono wd p2 m3 of
                       (x2, e2, m4) \<Rightarrow>
                         Some \<lparr>run_store = m4, run_pending = [],
                               run_handles = handle_of x2 @ handle_of x1\<rparr>))
           | _ \<Rightarrow> None)
      | _ \<Rightarrow> None)"

lemma race_runs:
  assumes "race wd s a1 a2 = Some st"
  shows "(broker_step utc_chrono wd)\<^sup>*\<^sup>* (run_start s) st"
proof -
  obtain p1 m1 p2 m2 x1 e1 m3 x2 e2 m4 where
    b1: "reserve_begin utc_chrono wd demo_now (demo_request a1 Normal None) s = (Suspended p1, m1)"
    and b2: "reserve_begin utc_chrono wd demo_now (demo_request a2 Normal None) m1 = (Suspended p2, m2)"
    and f1: "reserve_finish utc_chrono wd p1 m2 = (x1, e1, m3)"
    and f2: "reserve_finish utc_chrono wd p2 m3 = (x2, e2, m4)"
    and st: "st = \<lparr>run_store = m4, run_pending = [], run_handles = handle_of x2 @ handle_of x1\<rparr>"
    using assms by (auto simp: race_def split: prod.splits reserve_progress.splits)
  let ?s1 = "\<lparr>run_store = m1, run_pending = [p1], run_handles = []\<rparr>"
  let ?s2 = "\<lparr>run_store = m2, run_pending = [p2, p1], run_handles = []\<rparr>"
  let ?s3 = "\<lparr>run_store = m3, run_pending = [p2], run_handles = handle_of x1\<rparr>"
  have "broker_step utc_chrono wd (run_start s) ?s1"
    using broker_step.suspend [where st = "run_start s" and lib = utc_chrono and wd = wd
        and t = demo_now and r = "demo_request a1 Normal None" and p = p1 and s' = m1] b1
    by (simp add: run_start_def)
  moreover have "broker_step utc_chrono wd ?s1 ?s2"
    using broker_step.suspend [where st = ?s1 and lib = utc_chrono and wd = wd
        and t = demo_now and r = "demo_request a2 Normal None" and p = p2 and s' = m2] b2 by simp
  moreover have "broker_step utc_chrono wd ?s2 ?s3"
    using broker_step.resume [where st = ?s2 and lib = utc_chrono and wd = wd and p = p1] f1
    by (cases "p1 = p2") simp_all
  moreover have "broker_step utc_chrono wd ?s3 st"
    using broker_step.resume [where st = ?s3 and lib = utc_chrono and wd = wd and p = p2] f2 by (simp add: st)
  ultimately show ?thesis by (meson converse_rtranclp_into_rtranclp rtranclp.rtrancl_refl)
qed

end
