(* ===== verification/Policy_Properties.thy ===== *)
theory Policy_Properties
  imports Fixtures
begin

text \<open>
  What the evaluation of a policy, the policy builders, the key patterns and the windows promise,
  each property with an instance on the fixtures.
\<close>

section \<open>Pacing\<close>

text \<open>C15: for limits below \<open>u64::MAX\<close> the saturating 64- and 128-bit evaluation decides every request
  exactly as the decision table over natural numbers does, with the same reason.\<close>

theorem evaluate_policy_meets_spec:
  assumes "chrono_laws lib" "bp_hard_limit p < u64_max"
  shows "pe_denial_reason (evaluate_policy lib p used amount prio w now) =
    denial_spec lib p (unat used + unat amount) prio w now"
  using assms by (rule evaluate_policy_spec)

definition demo_preserve :: budget_strategy where
  "demo_preserve = PreserveForWindow (preserve_for_window_new 20 30 (Some 2))"

theorem evaluate_policy_meets_spec_witness:
  "denial_spec utc_chrono (demo_policy demo_preserve) (unat (6 :: u64) + unat (1 :: u64)) Normal demo_window
      (utc_instant 2026 6 15 6 0) = Some AheadOfBudgetPace"
proof -
  have "bp_hard_limit (demo_policy demo_preserve) < u64_max" by code_simp
  moreover have "pe_denial_reason (evaluate_policy utc_chrono (demo_policy demo_preserve) 6 1 Normal demo_window
      (utc_instant 2026 6 15 6 0)) = Some AheadOfBudgetPace" by code_simp
  ultimately show ?thesis
    using evaluate_policy_meets_spec [OF utc_chrono_laws] by simp
qed

text \<open>C28: under a policy with a hard limit below \<open>u64::MAX\<close>, a request that is allowed stays allowed when it is
  made with a higher priority, for a smaller amount, with less already used, or later in the same window.
\<close>

theorem allowed_monotone:
  assumes lib: "chrono_laws lib" and max: "bp_hard_limit p < u64_max"
    and allowed: "pe_denial_reason (evaluate_policy lib p used amount prio w now) = None"
    and le: "prio \<le> prio'" "used' \<le> used" "amount' \<le> amount"
      "now \<le> now'" "now' - wb_start w \<le> max_duration"
  shows "pe_denial_reason (evaluate_policy lib p used' amount' prio' w now') = None"
proof -
  have "unat used' + unat amount' \<le> unat used + unat amount"
    using le by (intro add_mono) (simp_all add: word_le_nat_alt)
  then show ?thesis
    using allowed le unfolding evaluate_policy_spec [OF lib max]
    by (blast intro: denial_spec_priority_mono denial_spec_spent_mono denial_spec_time_mono [OF lib])
qed

theorem allowed_monotone_witness:
  "pe_denial_reason (evaluate_policy utc_chrono (demo_policy demo_preserve) 3 1 Important demo_window
      (utc_instant 2026 6 15 18 0)) = None"
proof (rule allowed_monotone [OF utc_chrono_laws])
  show "pe_denial_reason (evaluate_policy utc_chrono (demo_policy demo_preserve) 4 2 Normal demo_window
      (utc_instant 2026 6 15 12 0)) = None" by code_simp
  show "Normal \<le> Important" by (simp add: priority_order)
qed (code_simp+)

section \<open>Snapshot numbers\<close>

text \<open>C29: under a policy with a hard limit below \<open>u64::MAX\<close> and a strategy whose decision the effective limit
  carries, \<open>safe_to_spend_now\<close> of an evaluation for nothing is exact: a request is allowed when, and only
  when, asking for nothing is allowed and it asks for no more than that.\<close>

theorem safe_to_spend_exact:
  assumes lib: "chrono_laws lib" and max: "bp_hard_limit p < u64_max"
    and carries: "limit_carries_decision (bp_strategy p) prio"
  shows "pe_denial_reason (evaluate_policy lib p used amount prio w now) = None \<longleftrightarrow>
    pe_denial_reason (evaluate_policy lib p used 0 prio w now) = None
    \<and> amount \<le> pe_safe_to_spend_now (evaluate_policy lib p used 0 prio w now)"
proof (cases "pe_denial_reason (evaluate_policy lib p used 0 prio w now) = None")
  case start: True
  let ?e = "pe_effective_limit (evaluate_policy lib p used 0 prio w now)"
  have used: "used \<le> ?e"
    using allowed_fits_effective_limit [OF start] by simp
  have "?e < u64_max"
    using effective_limit_le_hard_limit max by (rule order.strict_trans1)
  then have "sat_add used amount \<le> ?e \<longleftrightarrow> unat used + unat amount \<le> unat ?e"
    by (auto simp: word_nat min_def)
  also have "\<dots> \<longleftrightarrow> amount \<le> sat_sub ?e used"
    using used by (auto simp: word_nat)
  finally show ?thesis
    using limit_decides [OF carries start] safe_to_spend_is_slack [OF carries start] start by simp
next
  case False
  then have "denial_spec lib p (unat used) prio w now \<noteq> None" by (simp add: evaluate_policy_spec [OF lib max])
  then have "denial_spec lib p (unat used + unat amount) prio w now \<noteq> None"
    by (metis denial_spec_spent_mono le_add1)
  then have "pe_denial_reason (evaluate_policy lib p used amount prio w now) \<noteq> None"
    by (simp only: evaluate_policy_spec [OF lib max]) simp
  with False show ?thesis by blast
qed

theorem safe_to_spend_exact_witness:
  "pe_denial_reason (evaluate_policy utc_chrono (demo_policy HardLimitOnly) 4 6 Normal demo_window demo_now) = None
   \<and> pe_denial_reason (evaluate_policy utc_chrono (demo_policy HardLimitOnly) 4 7 Normal demo_window demo_now) \<noteq> None"
proof -
  have *: "bp_hard_limit (demo_policy HardLimitOnly) < u64_max"
    "limit_carries_decision (bp_strategy (demo_policy HardLimitOnly)) Normal"
    "pe_denial_reason (evaluate_policy utc_chrono (demo_policy HardLimitOnly) 4 0 Normal demo_window demo_now) = None"
    "pe_safe_to_spend_now (evaluate_policy utc_chrono (demo_policy HardLimitOnly) 4 0 Normal demo_window demo_now) = 6"
    by code_simp+
  show ?thesis
    using safe_to_spend_exact [OF utc_chrono_laws *(1,2), of 4 6 demo_window demo_now]
      safe_to_spend_exact [OF utc_chrono_laws *(1,2), of 4 7 demo_window demo_now] *(3,4) by simp
qed

text \<open>A denial for pace reports a remaining reserve of zero, whatever the reserve is: the branch
  subtracts the remaining budget from the reserve where the others take the minimum of the two.
\<close>

theorem ahead_of_pace_reports_no_reserve:
  assumes wf: "strategy_wf (bp_strategy p) (bp_hard_limit p)"
    and denied: "pe_denial_reason (evaluate_policy lib p used amount prio w now) = Some AheadOfBudgetPace"
  shows "pe_reserved_remaining (evaluate_policy lib p used amount prio w now) = 0"
proof -
  have zero: "sat_sub r (sat_sub h used) = 0"
    if "\<not> sat_sub h r < sat_add used amount" "r \<le> h" for h r
  proof -
    have "unat used \<le> unat h - unat r"
      using that(1) unat_u64_le [of used] by (auto simp: word_nat not_less)
    moreover have "unat r \<le> unat h" using that(2) by (simp add: word_le_nat_alt)
    ultimately have "unat (sat_sub r (sat_sub h used)) = 0"
      unfolding unat_sat_sub by linarith
    then show ?thesis by (simp add: unat_eq_zero)
  qed
  show ?thesis
    using denied wf
    by (auto simp: evaluate_defs Let_def zero percent_of_le(2)
        split: if_splits option.splits budget_strategy.splits)
qed

theorem ahead_of_pace_reports_no_reserve_witness:
  "pe_reserved_remaining (evaluate_policy utc_chrono (demo_policy demo_preserve) 5 1 Normal demo_window
      (utc_instant 2026 6 15 6 0)) = 0
   \<and> reserve_units (unat (bp_hard_limit (demo_policy demo_preserve))) (preserve_for_window_new 20 30 (Some 2)) = 3"
proof (rule conjI [OF ahead_of_pace_reports_no_reserve])
  show "strategy_wf (bp_strategy (demo_policy demo_preserve)) (bp_hard_limit (demo_policy demo_preserve))" by code_simp
  show "pe_denial_reason (evaluate_policy utc_chrono (demo_policy demo_preserve) 5 1 Normal demo_window
      (utc_instant 2026 6 15 6 0)) = Some AheadOfBudgetPace" by code_simp
  show "reserve_units (unat (bp_hard_limit (demo_policy demo_preserve))) (preserve_for_window_new 20 30 (Some 2)) = 3"
    by (simp add: reserve_units_def demo_policy_def preserve_for_window_new_def)
qed

text \<open>When the hard limit is \<open>u64::MAX\<close> the unchecked sum \<open>used + amount\<close> wraps around in a
  release build, so a request for everything passes the minimum that a smaller request violates.\<close>

theorem minimum_check_wraps:
  "pe_denial_reason (evaluate_policy utc_chrono
      ((demo_policy (PreserveForWindow (preserve_for_window_new 100 0 (Some 10))))\<lparr>bp_hard_limit := u64_max\<rparr>)
      1 18446744073709551615 Normal demo_window demo_now) = None
   \<and> pe_denial_reason (evaluate_policy utc_chrono
      ((demo_policy (PreserveForWindow (preserve_for_window_new 100 0 (Some 10))))\<lparr>bp_hard_limit := u64_max\<rparr>)
      1 18446744073709551610 Normal demo_window demo_now) = Some MinimumRemainingWouldBeViolated"
  by (rule conjI) code_simp+

section \<open>Builders\<close>

text \<open>A policy is built exactly from a non-blank name and provider, a positive hard limit, a window
  that validates and a strategy whose parameters are in range for that limit.\<close>

lemma policy_build_accepts:
  "(\<exists>p. policy_build lib b = Ok p) =
     (\<not> is_blank (pb_name b)
      \<and> (\<exists>h. pb_hard_limit b = Some h \<and> 0 < h \<and> strategy_wf (pb_strategy b) h)
      \<and> (\<exists>v. pb_provider b = Some v \<and> \<not> is_blank v)
      \<and> (\<exists>w. pb_window b = Some w \<and> window_validate lib w = Ok ()))"
  by (auto simp: policy_build_def Let_def is_blank_def key_pattern_new_Ok u64_pos_iff split: if_splits)

section \<open>Keys\<close>

text \<open>With colons in the components two different budgets get the same compact text, and so one
  counter, in the external stores.\<close>

lemma compact_merges_keys:
  "compact (store_key_new ''daily'' \<lparr>bk_provider = ''api'', bk_domain = ''a:b'', bk_resource = ''c'', bk_subject = ''global''\<rparr> Requests)
   = compact (store_key_new ''daily'' \<lparr>bk_provider = ''api'', bk_domain = ''a'', bk_resource = ''b:c'', bk_subject = ''global''\<rparr> Requests)"
  by code_simp

section \<open>Windows\<close>

text \<open>C34: fixed and rolling windows contain the instant they are computed for and have the configured
  length; when that is a whole number of seconds, they tile the time line: every instant of a window has
  that same window, so a counter is never split or shared.\<close>

theorem fixed_windows_tile:
  assumes "chrono_laws lib" "v = Fixed d \<or> v = Rolling d" "bounds_at lib v now = Ok b"
  shows "in_window now b \<and> wb_duration b = d
    \<and> (\<forall>t. in_window t b \<and> nanos_per_second dvd d \<longrightarrow> bounds_at lib v t = Ok b)"
proof -
  have b: "fixed_bounds lib d now = Ok b" and same: "bounds_at lib v t = fixed_bounds lib d t" for t
    using assms(2,3) by auto
  have "wb_duration b = d"
    by (rule fixed_bounds_OkE [OF assms(1) b]) (simp add: wb_duration_def)
  then show ?thesis
    using fixed_bounds_contains [OF assms(1) b] fixed_bounds_tile [OF assms(1) _ b] by (simp add: same)
qed

theorem fixed_windows_tile_witness:
  "bounds_at utc_chrono (Fixed (duration_minutes 90)) (utc_instant 2026 6 15 11 15)
     = bounds_at utc_chrono (Fixed (duration_minutes 90)) (utc_instant 2026 6 15 10 30)"
proof -
  have now: "bounds_at utc_chrono (Fixed (duration_minutes 90)) (utc_instant 2026 6 15 10 30) =
      Ok \<lparr>wb_start = utc_instant 2026 6 15 10 30, wb_end = utc_instant 2026 6 15 12 0\<rparr>" by code_simp
  have "in_window (utc_instant 2026 6 15 11 15)
      \<lparr>wb_start = utc_instant 2026 6 15 10 30, wb_end = utc_instant 2026 6 15 12 0\<rparr>" by code_simp
  moreover have "nanos_per_second dvd duration_minutes 90"
    by (simp add: duration_minutes_def duration_seconds_def)
  ultimately show ?thesis
    using fixed_windows_tile [OF utc_chrono_laws disjI1 [OF refl] now] now by simp
qed

text \<open>C40: a window of a positive length below one second passes validation and panics at every use,
  on a remainder by zero.\<close>

theorem subsecond_window_panics:
  assumes "chrono_laws lib" "0 < d" "d < nanos_per_second"
  shows "window_validate lib (Fixed d) = Ok () \<and> bounds_at lib (Fixed d) now = Panic"
  using assms by (simp add: window_duration_error_def fixed_bounds_def Let_def chrono_seconds)

theorem subsecond_window_panics_witness:
  "window_validate utc_chrono (Fixed 500000000) = Ok () \<and> bounds_at utc_chrono (Fixed 500000000) demo_now = Panic"
  by (rule subsecond_window_panics [OF utc_chrono_laws]) (simp_all add: nanos_per_second_def)

text \<open>A calendar day is taken to last 24 hours, so on the day a zone sets its clocks back the last
  hour of the local day lies outside the window computed for it.\<close>

lemma long_day_outside_window:
  assumes "chrono_laws lib" "ch_parse_tz lib zone = Inr tz"
    and "ch_local_date lib tz now = (year, month, day)" "ch_midnight lib tz year month day = Single midnight"
    and "midnight + duration_days 1 \<le> now" "bounds_at lib (CalendarDay zone) now = Ok b"
  shows "wb_start b = midnight \<and> \<not> in_window now b"
proof -
  have "calendar_day_bounds lib zone now = Ok b" using assms(6) by simp
  then obtain e where "wb_start b = midnight" "ch_add lib midnight (duration_days 1) = Some (wb_end b)"
    using assms(2-4) by (auto simp: calendar_day_bounds_def parse_timezone_def local_boundary_def window_bounds_new_Ok)
  then show ?thesis
    using chrono_add [OF assms(1)] assms(5) by (auto simp: in_window_def)
qed

text \<open>Toronto around the end of daylight saving time in 2026.\<close>

definition toronto_offset :: "datetime \<Rightarrow> duration" where
  "toronto_offset t = duration_minutes (if t < utc_instant 2026 11 1 6 0 then 240 else 300)"

definition toronto_chrono :: "unit chrono" where
  "toronto_chrono = utc_chrono
     \<lparr>ch_parse_tz := (\<lambda>name. if name = ''America/Toronto'' then Inr () else Inl ''failed to parse timezone''),
      ch_local_date := (\<lambda>tz t. civil_from_days ((t - toronto_offset t) div duration_days 1)),
      ch_midnight := (\<lambda>tz y m d.
        let t = days_from_civil y m d * duration_days 1
        in Single (if t + duration_minutes 240 < utc_instant 2026 11 1 6 0
                   then t + duration_minutes 240 else t + duration_minutes 300))\<rparr>"

lemma toronto_chrono_laws: "chrono_laws toronto_chrono"
  using utc_chrono_laws by (simp add: chrono_laws_def toronto_chrono_def)

lemma long_day_outside_window_witness:
  "\<not> in_window (utc_instant 2026 11 2 4 30) \<lparr>wb_start = utc_instant 2026 11 1 4 0, wb_end = utc_instant 2026 11 2 4 0\<rparr>"
proof -
  have *: "ch_parse_tz toronto_chrono ''America/Toronto'' = Inr ()"
    "ch_local_date toronto_chrono () (utc_instant 2026 11 2 4 30) = (2026, 11, 1)"
    "ch_midnight toronto_chrono () 2026 11 1 = Single (utc_instant 2026 11 1 4 0)"
    "utc_instant 2026 11 1 4 0 + duration_days 1 \<le> utc_instant 2026 11 2 4 30"
    "bounds_at toronto_chrono (CalendarDay ''America/Toronto'') (utc_instant 2026 11 2 4 30) =
      Ok \<lparr>wb_start = utc_instant 2026 11 1 4 0, wb_end = utc_instant 2026 11 2 4 0\<rparr>"
    by code_simp+
  from long_day_outside_window [OF toronto_chrono_laws *] show ?thesis by simp
qed

end
