(* ===== verification/Broker_Agreement.thy ===== *)
theory Broker_Agreement
  imports Broker_Safety
begin

text \<open>
  Two stores behind the same broker. The locale says when two stores agree: as long as their states are
  related, they answer the calls they are made for alike. Then the broker's operations over the one
  return what they return over the other, decisions, snapshots, reports and telemetry included.
\<close>

section \<open>The operations of a warden\<close>

text \<open>One uninterrupted operation of a warden or of a reservation it returned, and its reply.\<close>

datatype broker_op =
    DoAuthorize datetime budget_request
  | DoReserve datetime budget_request
  | DoCommit datetime budget_reservation
  | DoRefund datetime budget_reservation
  | DoUsage datetime usage_query
  | DoReport datetime

datatype broker_reply =
    DecisionReply "(budget_decision, budget_error) outcome"
  | SettledReply "(unit, budget_error) outcome"
  | SnapshotReply "(usage_snapshot, budget_error) outcome"
  | ReportReply "(budget_report, budget_error) outcome"

definition replied :: "('a \<Rightarrow> 'b) \<Rightarrow> 'a \<times> 'e \<times> 's \<Rightarrow> 'b \<times> 'e \<times> 's" where
  "replied f r = (case r of (x, events, s) \<Rightarrow> (f x, events, s))"

lemma replied_simps [simp]: "fst (replied f y) = f (fst y)" "snd (replied f y) = snd y"
  by (simp_all add: replied_def split: prod.splits)

fun broker_do ::
    "('tz, 'more) chrono_scheme \<Rightarrow> 's budget_warden \<Rightarrow> broker_op \<Rightarrow> 's \<Rightarrow> broker_reply \<times> telemetry_event list \<times> 's" where
  "broker_do lib wd (DoAuthorize t r) s = replied DecisionReply (authorize lib wd t r s)"
| "broker_do lib wd (DoReserve t r) s = replied DecisionReply (reserve lib wd t r s)"
| "broker_do lib wd (DoCommit t v) s = replied SettledReply (reservation_commit (wd_store wd) t v s)"
| "broker_do lib wd (DoRefund t v) s = replied SettledReply (reservation_refund (wd_store wd) t v s)"
| "broker_do lib wd (DoUsage t q) s = replied SnapshotReply (broker_usage lib wd t q s)"
| "broker_do lib wd (DoReport t) s = replied ReportReply (broker_report lib wd t s)"

fun broker_replies ::
    "('tz, 'more) chrono_scheme \<Rightarrow> 's budget_warden \<Rightarrow> broker_op list \<Rightarrow> 's \<Rightarrow> (broker_reply \<times> telemetry_event list) list" where
  "broker_replies lib wd [] s = []"
| "broker_replies lib wd (x # xs) s =
     (case broker_do lib wd x s of (reply, events, s') \<Rightarrow> (reply, events) # broker_replies lib wd xs s')"

text \<open>The instant at which an operation calls the store.\<close>

fun op_time :: "'s budget_warden \<Rightarrow> broker_op \<Rightarrow> datetime" where
  "op_time wd (DoAuthorize t r) = wd_clock wd t"
| "op_time wd (DoReserve t r) = wd_clock wd t"
| "op_time wd (DoCommit t v) = t"
| "op_time wd (DoRefund t v) = t"
| "op_time wd (DoUsage t q) = wd_clock wd t"
| "op_time wd (DoReport t) = wd_clock wd t"

text \<open>The calls an operation can make are calls the stores are made for.\<close>

definition key_fits :: "'s budget_warden \<Rightarrow> (store_key \<Rightarrow> bool) \<Rightarrow> budget_key \<Rightarrow> bool" where
  "key_fits wd good_key k \<longleftrightarrow>
     (case registry_find (wd_policies wd) k of None \<Rightarrow> True | Some p \<Rightarrow> good_key (policy_store_key p k))"

definition store_request ::
    "'s budget_warden \<Rightarrow> budget_policy \<Rightarrow> datetime \<Rightarrow> budget_request \<Rightarrow> window_bounds \<Rightarrow> u64 \<Rightarrow> reserve_request" where
  "store_request wd p t r w limit =
     \<lparr>rr_key = policy_store_key p (rq_key r), rr_amount = rq_amount r, rr_hard_limit = bp_hard_limit p,
      rr_effective_limit = limit, rr_reservation_ttl = wd_reservation_ttl wd, rr_window = w,
      rr_idempotency_key = rq_idempotency_key r, rr_now = wd_clock wd t\<rparr>"

fun op_fits ::
    "'s budget_warden \<Rightarrow> (store_key \<Rightarrow> bool) \<Rightarrow> (reservation_id \<Rightarrow> bool) \<Rightarrow> (reserve_request \<Rightarrow> bool) \<Rightarrow> broker_op \<Rightarrow> bool" where
  "op_fits wd good_key good_id good_request (DoAuthorize t r) \<longleftrightarrow> key_fits wd good_key (rq_key r)"
| "op_fits wd good_key good_id good_request (DoReserve t r) \<longleftrightarrow> key_fits wd good_key (rq_key r)
     \<and> (\<forall>p w limit. registry_find (wd_policies wd) (rq_key r) = Some p \<and> limit \<le> bp_hard_limit p
          \<longrightarrow> good_request (store_request wd p t r w limit))"
| "op_fits wd good_key good_id good_request (DoCommit t v) \<longleftrightarrow> good_id (rs_id v)"
| "op_fits wd good_key good_id good_request (DoRefund t v) \<longleftrightarrow> good_id (rs_id v)"
| "op_fits wd good_key good_id good_request (DoUsage t q) \<longleftrightarrow> key_fits wd good_key (uq_key q)"
| "op_fits wd good_key good_id good_request (DoReport t) \<longleftrightarrow>
     list_all (\<lambda>p. good_key (policy_store_key p (report_key (bp_key p)))) (wd_policies wd)"

text \<open>Two wardens that differ in the store only.\<close>

definition same_setup :: "'s budget_warden \<Rightarrow> 't budget_warden \<Rightarrow> bool" where
  "same_setup wd wd' \<longleftrightarrow> wd_policies wd = wd_policies wd' \<and> wd_clock wd = wd_clock wd'
     \<and> wd_reservation_ttl wd = wd_reservation_ttl wd'"

section \<open>Stores that agree\<close>

text \<open>
  \<open>related n past s t\<close>: the states agree, for at least \<open>n\<close> more reservations and for calls not before
  \<open>past\<close>.
\<close>

locale agreeing_stores =
  fixes ops :: "'s store_ops"
    and ops' :: "'t store_ops"
    and related :: "nat \<Rightarrow> datetime \<Rightarrow> 's \<Rightarrow> 't \<Rightarrow> bool"
    and good_key :: "store_key \<Rightarrow> bool"
    and good_id :: "reservation_id \<Rightarrow> bool"
    and good_request :: "reserve_request \<Rightarrow> bool"
  assumes usage_agrees: "related n past s t \<Longrightarrow> past \<le> now \<Longrightarrow> good_key k \<Longrightarrow>
        fst (st_usage ops k w now s) = fst (st_usage ops' k w now t)
        \<and> related n now (snd (st_usage ops k w now s)) (snd (st_usage ops' k w now t))"
    and reserve_agrees: "related (Suc n) past s t \<Longrightarrow> past \<le> rr_now r \<Longrightarrow> good_request r \<Longrightarrow>
        fst (st_reserve_if_allowed ops r s) = fst (st_reserve_if_allowed ops' r t)
        \<and> related n (rr_now r) (snd (st_reserve_if_allowed ops r s)) (snd (st_reserve_if_allowed ops' r t))"
    and commit_agrees: "related n past s t \<Longrightarrow> past \<le> now \<Longrightarrow> good_id rid \<Longrightarrow>
        fst (st_commit ops now rid s) = fst (st_commit ops' now rid t)
        \<and> related n now (snd (st_commit ops now rid s)) (snd (st_commit ops' now rid t))"
    and refund_agrees: "related n past s t \<Longrightarrow> past \<le> now \<Longrightarrow> good_id rid \<Longrightarrow>
        fst (st_refund ops now rid s) = fst (st_refund ops' now rid t)
        \<and> related n now (snd (st_refund ops now rid s)) (snd (st_refund ops' now rid t))"
    and related_less: "related (Suc n) past s t \<Longrightarrow> related n past s t"
    and related_later: "related n past s t \<Longrightarrow> past \<le> now \<Longrightarrow> related n now s t"
begin

lemma enter_agrees:
  assumes "same_setup wd wd'" "wd_store wd = ops" "wd_store wd' = ops'"
    and "related n past s t" "past \<le> wd_clock wd y" "key_fits wd good_key (rq_key r)"
  shows "fst (broker_enter lib wd y r s) = fst (broker_enter lib wd' y r t)
    \<and> related n (wd_clock wd y) (snd (broker_enter lib wd y r s)) (snd (broker_enter lib wd' y r t))"
proof -
  have same: "wd_policies wd' = wd_policies wd" "wd_clock wd' = wd_clock wd"
    using assms(1) by (simp_all add: same_setup_def)
  have later: "related n (wd_clock wd y) s t" by (rule related_later [OF assms(4,5)])
  show ?thesis
  proof (cases "registry_find (wd_policies wd) (rq_key r)")
    case None
    with later show ?thesis by (simp add: broker_enter_def same)
  next
    case (Some p)
    let ?k = "policy_store_key p (rq_key r)"
    show ?thesis
    proof (cases "validate_request_against_policy r p")
      case (Ok u)
      show ?thesis
      proof (cases "bounds_at lib (bp_window p) (wd_clock wd y)")
        case (Ok w)
        obtain x s' where s: "st_usage ops ?k w (wd_clock wd y) s = (x, s')" by fastforce
        obtain x' t' where t: "st_usage ops' ?k w (wd_clock wd y) t = (x', t')" by fastforce
        have "x' = x" "related n (wd_clock wd y) s' t'"
          using usage_agrees [OF assms(4,5), of ?k w] assms(6) Some s t by (simp_all add: key_fits_def)
        with Some \<open>validate_request_against_policy r p = _\<close> Ok s t show ?thesis
          by (cases x) (simp_all add: broker_enter_def same assms(2,3) Let_def split: prod.splits)
      qed (use Some Ok later in \<open>simp_all add: broker_enter_def same\<close>)
    qed (use Some later in \<open>simp_all add: broker_enter_def same\<close>)
  qed
qed

text \<open>The rest of an operation goes on from the same reply to related states.\<close>

lemma authorize_agrees:
  assumes "same_setup wd wd'" "wd_store wd = ops" "wd_store wd' = ops'"
    and "related n past s t" "past \<le> wd_clock wd y" "key_fits wd good_key (rq_key r)"
  shows "fst (authorize lib wd y r s) = fst (authorize lib wd' y r t)
    \<and> fst (snd (authorize lib wd y r s)) = fst (snd (authorize lib wd' y r t))
    \<and> related n (wd_clock wd y) (snd (snd (authorize lib wd y r s))) (snd (snd (authorize lib wd' y r t)))"
proof -
  obtain x s' where s: "broker_enter lib wd y r s = (x, s')" by fastforce
  obtain x' t' where t: "broker_enter lib wd' y r t = (x', t')" by fastforce
  have agree: "x' = x" "related n (wd_clock wd y) s' t'"
    using enter_agrees [OF assms, of lib] s t by simp_all
  have ttl: "wd_reservation_ttl wd' = wd_reservation_ttl wd" using assms(1) by (simp add: same_setup_def)
  show ?thesis
    using agree s t by (cases x) (simp_all add: authorize_def Let_def ttl split: option.splits)
qed

lemma begin_agrees:
  assumes "same_setup wd wd'" "wd_store wd = ops" "wd_store wd' = ops'"
    and "related n past s t" "past \<le> wd_clock wd y" "key_fits wd good_key (rq_key r)"
  shows "fst (reserve_begin lib wd y r s) = fst (reserve_begin lib wd' y r t)
    \<and> related n (wd_clock wd y) (snd (reserve_begin lib wd y r s)) (snd (reserve_begin lib wd' y r t))"
proof -
  obtain x s' where s: "broker_enter lib wd y r s = (x, s')" by fastforce
  obtain x' t' where t: "broker_enter lib wd' y r t = (x', t')" by fastforce
  have agree: "x' = x" "related n (wd_clock wd y) s' t'"
    using enter_agrees [OF assms, of lib] s t by simp_all
  have ttl: "wd_reservation_ttl wd' = wd_reservation_ttl wd" using assms(1) by (simp add: same_setup_def)
  show ?thesis
    using agree s t by (cases x) (simp_all add: reserve_begin_def Let_def ttl split: option.splits)
qed

lemma finish_agrees:
  assumes "wd_store wd = ops" "wd_store wd' = ops'" "related (Suc n) past s t"
    and "past \<le> rr_now (pr_store_request p)" "good_request (pr_store_request p)"
  shows "fst (reserve_finish lib wd p s) = fst (reserve_finish lib wd' p t)
    \<and> fst (snd (reserve_finish lib wd p s)) = fst (snd (reserve_finish lib wd' p t))
    \<and> related n (rr_now (pr_store_request p)) (snd (snd (reserve_finish lib wd p s))) (snd (snd (reserve_finish lib wd' p t)))"
proof -
  obtain x s' where s: "st_reserve_if_allowed ops (pr_store_request p) s = (x, s')" by fastforce
  obtain x' t' where t: "st_reserve_if_allowed ops' (pr_store_request p) t = (x', t')" by fastforce
  have "x' = x" "related n (rr_now (pr_store_request p)) s' t'"
    using reserve_agrees [OF assms(3-5)] s t by simp_all
  then show ?thesis using s t by (cases x) (simp_all add: reserve_finish_def assms(1,2))
qed

lemma reserve_agrees_whole:
  assumes "same_setup wd wd'" "wd_store wd = ops" "wd_store wd' = ops'"
    and "related (Suc n) past s t" "past \<le> wd_clock wd y" "op_fits wd good_key good_id good_request (DoReserve y r)"
  shows "fst (reserve lib wd y r s) = fst (reserve lib wd' y r t)
    \<and> fst (snd (reserve lib wd y r s)) = fst (snd (reserve lib wd' y r t))
    \<and> related n (wd_clock wd y) (snd (snd (reserve lib wd y r s))) (snd (snd (reserve lib wd' y r t)))"
proof -
  obtain x s' where s: "reserve_begin lib wd y r s = (x, s')" by fastforce
  obtain x' t' where t: "reserve_begin lib wd' y r t = (x', t')" by fastforce
  have agree: "x' = x" "related (Suc n) (wd_clock wd y) s' t'"
    using begin_agrees [OF assms(1-5), of r lib] assms(6) s t by simp_all
  show ?thesis
  proof (cases x)
    case (Finished z events)
    then show ?thesis using agree s t related_less by (simp add: reserve_def)
  next
    case (Suspended p)
    obtain pol w u where p: "registry_find (wd_policies wd) (rq_key r) = Some pol"
      "pr_store_request p = store_request wd pol y r w (pe_effective_limit
        (evaluate_policy lib pol (cu_used u) (rq_amount r) (rq_priority r) w (wd_clock wd y)))"
      using s unfolding Suspended by (elim reserve_begin_Suspended) (simp add: store_request_def)
    then have "good_request (pr_store_request p)" "rr_now (pr_store_request p) = wd_clock wd y"
      using assms(6) by (simp_all add: effective_limit_le_hard_limit, simp add: store_request_def)
    with finish_agrees [OF assms(2,3) agree(2), of p lib] Suspended agree(1) s t show ?thesis
      by (simp add: reserve_def)
  qed
qed

lemma policy_usage_agrees:
  assumes "wd_store wd = ops" "wd_store wd' = ops'" "related n past s t" "past \<le> now"
    and "good_key (policy_store_key p k)"
  shows "fst (policy_usage lib wd p k now s) = fst (policy_usage lib wd' p k now t)
    \<and> related n now (snd (policy_usage lib wd p k now s)) (snd (policy_usage lib wd' p k now t))"
proof (cases "bounds_at lib (bp_window p) now")
  case (Ok w)
  obtain x s' where s: "st_usage ops (policy_store_key p k) w now s = (x, s')" by fastforce
  obtain x' t' where t: "st_usage ops' (policy_store_key p k) w now t = (x', t')" by fastforce
  have "x' = x" "related n now s' t'" using usage_agrees [OF assms(3-5), of w] s t by simp_all
  with Ok s t show ?thesis by (simp add: policy_usage_def assms(1,2))
qed (use related_later [OF assms(3,4)] in \<open>simp_all add: policy_usage_def\<close>)

lemma report_loop_agrees:
  assumes "wd_store wd = ops" "wd_store wd' = ops'" "related n now s t"
    and "list_all (\<lambda>p. good_key (policy_store_key p (report_key (bp_key p)))) ps"
  shows "fst (report_loop lib wd now ps snaps s) = fst (report_loop lib wd' now ps snaps t)
    \<and> related n now (snd (report_loop lib wd now ps snaps s)) (snd (report_loop lib wd' now ps snaps t))"
  using assms(3,4)
proof (induction ps arbitrary: snaps s t)
  case (Cons p ps)
  obtain x s' where s: "policy_usage lib wd p (report_key (bp_key p)) now s = (x, s')" by fastforce
  obtain x' t' where t: "policy_usage lib wd' p (report_key (bp_key p)) now t = (x', t')" by fastforce
  have "x' = x" "related n now s' t'"
    using policy_usage_agrees [OF assms(1,2) Cons.prems(1) order_refl, of p "report_key (bp_key p)" lib] Cons.prems(2) s t
    by simp_all
  with Cons s t show ?case by (cases x) simp_all
qed simp

lemma op_agrees:
  assumes "same_setup wd wd'" "wd_store wd = ops" "wd_store wd' = ops'"
    and "related (Suc n) past s t" "past \<le> op_time wd x" "op_fits wd good_key good_id good_request x"
  shows "fst (broker_do lib wd x s) = fst (broker_do lib wd' x t)
    \<and> fst (snd (broker_do lib wd x s)) = fst (snd (broker_do lib wd' x t))
    \<and> related n (op_time wd x) (snd (snd (broker_do lib wd x s))) (snd (snd (broker_do lib wd' x t)))"
proof -
  have same: "wd_policies wd' = wd_policies wd" "wd_clock wd' = wd_clock wd"
    using assms(1) by (simp_all add: same_setup_def)
  have less: "related n past s t" by (rule related_less [OF assms(4)])
  show ?thesis
  proof (cases x)
    case (DoAuthorize y r)
    with authorize_agrees [OF assms(1-3) less, of y r lib] assms(5,6) show ?thesis
      by simp
  next
    case (DoReserve y r)
    with reserve_agrees_whole [OF assms(1-4), of y r lib] assms(5,6) show ?thesis
      by (simp del: op_fits.simps)
  next
    case (DoCommit y v)
    with commit_agrees [OF less, of y "rs_id v"] related_later [OF less, of y] assms(2,3,5,6) show ?thesis
      by (auto simp: reservation_commit_def split: prod.splits outcome.splits)
  next
    case (DoRefund y v)
    with refund_agrees [OF less, of y "rs_id v"] related_later [OF less, of y] assms(2,3,5,6) show ?thesis
      by (auto simp: reservation_refund_def split: prod.splits outcome.splits)
  next
    case (DoUsage y q)
    show ?thesis
    proof (cases "registry_find (wd_policies wd) (uq_key q)")
      case None
      with DoUsage related_later [OF less, of "wd_clock wd y"] assms(5) show ?thesis
        by (simp add: broker_usage_def same)
    next
      case (Some p)
      with DoUsage policy_usage_agrees [OF assms(2,3) less, of "wd_clock wd y" p "uq_key q" lib] assms(5,6) show ?thesis
        by (auto simp: broker_usage_def same key_fits_def split: prod.splits)
    qed
  next
    case (DoReport y)
    with report_loop_agrees [OF assms(2,3) related_later [OF less, of "wd_clock wd y"], where ps = "wd_policies wd" and lib = lib and snaps = "[]"] assms(5,6)
    show ?thesis by (auto simp: broker_report_def same Let_def split: prod.splits)
  qed
qed

lemma replies_agree:
  assumes "same_setup wd wd'" "wd_store wd = ops" "wd_store wd' = ops'"
    and "related (length xs) past s t" "list_all (\<lambda>x. past \<le> op_time wd x) xs" "sorted (map (op_time wd) xs)"
    and "list_all (op_fits wd good_key good_id good_request) xs"
  shows "broker_replies lib wd xs s = broker_replies lib wd' xs t"
  using assms(4-7)
proof (induction xs arbitrary: past s t)
  case (Cons x xs)
  obtain y e s' where s: "broker_do lib wd x s = (y, e, s')" by (metis prod_cases3)
  obtain y' e' t' where t: "broker_do lib wd' x t = (y', e', t')" by (metis prod_cases3)
  have agree: "y' = y" "e' = e" "related (length xs) (op_time wd x) s' t'"
    using op_agrees [OF assms(1-3), of "length xs" past s t x lib] Cons.prems s t by simp_all
  have "list_all (\<lambda>x'. op_time wd x \<le> op_time wd x') xs" using Cons.prems(3) by (simp add: list_all_iff)
  then have "broker_replies lib wd xs s' = broker_replies lib wd' xs t'"
    using Cons.prems(3,4) by (intro Cons.IH [OF agree(3)]) simp_all
  then show ?case using agree s t by simp
qed simp

end

end
