(* ===== verification/Memory_Ledger.thy ===== *)
theory Memory_Ledger
  imports Memory_Operations Broker_Agreement
begin

text \<open>
  The abstract specification of the in-memory store: a ledger of reservations with no counters at
  all, whose usage is recomputed from the reservations as natural numbers. The detailed store
  refines it: on every sequence of calls both give the same replies.
\<close>

section \<open>The ledger\<close>

record ledger =
  lg_reservations :: "(reservation_id, reservation_record) hmap"
  lg_idempotency :: "(counter_key \<times> idempotency_key, reservation_id) hmap"
  lg_last_id :: nat
  lg_broken :: bool

definition ledger_units :: "reservation_status \<Rightarrow> counter_key \<Rightarrow> ledger \<Rightarrow> nat" where
  "ledger_units st k l =
     (\<Sum>(rid, r) \<leftarrow> lg_reservations l.
        if rv_counter_key r = k \<and> rv_status r = st then unat (rv_amount r) else 0)"

definition ledger_usage_at :: "counter_key \<Rightarrow> ledger \<Rightarrow> counter_usage" where
  "ledger_usage_at k l =
     counter_usage_new (of_nat (ledger_units Committed k l)) (of_nat (ledger_units Active k l))"

definition ledger_expire :: "datetime \<Rightarrow> ledger \<Rightarrow> ledger" where
  "ledger_expire now l = l\<lparr>lg_reservations := expire_all now (lg_reservations l)\<rparr>"

definition ledger_settle ::
    "reservation_status \<Rightarrow> datetime \<Rightarrow> reservation_id \<Rightarrow> ledger \<Rightarrow> (unit, ledger) store_effect" where
  "ledger_settle st now rid l0 =
     (let l = ledger_expire now l0 in
      case hm_get (lg_reservations l) rid of
        None \<Rightarrow> (Err StReservationNotFound, l)
      | Some r \<Rightarrow>
          (if rv_status r = Active
           then (Ok (), l\<lparr>lg_reservations := set_status rid st (lg_reservations l)\<rparr>)
           else if rv_status r = Expired then (Err StReservationExpired, l) else (Ok (), l)))"

definition ledger_admit ::
    "('tz, 'more) chrono_scheme \<Rightarrow> reserve_request \<Rightarrow> counter_key \<Rightarrow> ledger \<Rightarrow>
     (store_reservation_result, ledger) store_effect" where
  "ledger_admit lib r k l =
     (let n = lg_last_id l + 1; rid = ReservationId (of_nat n) in
      if 18446744073709551615 < n then (Err (StOther ''reservation id overflow''), l)
      else
        case ch_add lib (rr_now r) (rr_reservation_ttl r) of
          None \<Rightarrow> (Panic, l\<lparr>lg_last_id := n\<rparr>)
        | Some t \<Rightarrow>
            let l' = l\<lparr>lg_last_id := n,
                       lg_reservations :=
                         lg_reservations l @ [(rid, active_record k (rr_amount r) t)],
                       lg_idempotency :=
                         (case rr_idempotency_key r of None \<Rightarrow> lg_idempotency l
                          | Some i \<Rightarrow> lg_idempotency l @ [((k, i), rid)])\<rparr>
            in (Ok (srr_allow (store_reservation_new rid t) (ledger_usage_at k l')), l'))"

definition ledger_reserve ::
    "('tz, 'more) chrono_scheme \<Rightarrow> reserve_request \<Rightarrow> ledger \<Rightarrow>
     (store_reservation_result, ledger) store_effect" where
  "ledger_reserve lib r l0 =
     (let l = ledger_expire (rr_now r) l0;
          k = counter_key_new (rr_key r) (rr_window r)
      in
      case Option.bind (rr_idempotency_key r) (\<lambda>i. hm_get (lg_idempotency l) (k, i)) of
        Some rid \<Rightarrow>
          (case hm_get (lg_reservations l) rid of
             None \<Rightarrow> (Ok (srr_deny (ledger_usage_at k l)), l)
           | Some v \<Rightarrow>
               (if rv_status v = Active \<or> rv_status v = Committed
                then (Ok (srr_allow (store_reservation_new rid (rv_expires_at v)) (ledger_usage_at k l)), l)
                else (Ok (srr_deny (ledger_usage_at k l)), l)))
      | None \<Rightarrow>
          (if ledger_units Committed k l + ledger_units Active k l + unat (rr_amount r)
                \<le> unat (rr_effective_limit r)
           then ledger_admit lib r k l
           else (Ok (srr_deny (ledger_usage_at k l)), l)))"

definition ledger_guard ::
    "(ledger \<Rightarrow> ('a, ledger) store_effect) \<Rightarrow> ledger \<Rightarrow> ('a, ledger) store_effect" where
  "ledger_guard f l =
     (if lg_broken l then (Err (StOther ''memory store lock is poisoned''), l)
      else case f l of (x, l') \<Rightarrow> (x, l'\<lparr>lg_broken := (x = Panic)\<rparr>))"

definition ledger_ops :: "('tz, 'more) chrono_scheme \<Rightarrow> ledger store_ops" where
  "ledger_ops lib =
     \<lparr>st_reserve_if_allowed = (\<lambda>r l.
        case reserve_request_validate r of
          Err e \<Rightarrow> (Err e, l)
        | Panic \<Rightarrow> (Panic, l)
        | Ok _ \<Rightarrow> ledger_guard (ledger_reserve lib r) l),
      st_commit = (\<lambda>t rid. ledger_guard (ledger_settle Committed t rid)),
      st_refund = (\<lambda>t rid. ledger_guard (ledger_settle Refunded t rid)),
      st_usage = (\<lambda>k w t. ledger_guard (\<lambda>l.
        (Ok (ledger_usage_at (counter_key_new k w) (ledger_expire t l)), ledger_expire t l)))\<rparr>"

definition ledger_new :: ledger where
  "ledger_new = \<lparr>lg_reservations = [], lg_idempotency = [], lg_last_id = 0, lg_broken = False\<rparr>"

section \<open>Abstraction\<close>

definition abs_state :: "bool \<Rightarrow> memory_state \<Rightarrow> ledger" where
  "abs_state b s =
     \<lparr>lg_reservations = ms_reservations s, lg_idempotency = ms_idempotency s,
      lg_last_id = unat (ms_next_id s), lg_broken = b\<rparr>"

definition abs_store :: "memory_store \<Rightarrow> ledger" where
  "abs_store m = abs_state (mem_poisoned m) (mem_state m)"

lemma ledger_units_abs [simp]: "ledger_units st k (abs_state b s) = units_of st k s"
  by (simp add: ledger_units_def abs_state_def units_of_def hm_total_def units_in_def [abs_def])

lemma ledger_usage_abs:
  assumes "mem_inv s"
  shows "ledger_usage_at k (abs_state b s) = usage_for_counter s k"
  using mem_invD(7,8) [OF assms, of k, symmetric]
  by (simp add: ledger_usage_at_def usage_for_counter_at)

lemma ledger_expire_abs:
  "mem_inv s \<Longrightarrow> ledger_expire now (abs_state b s) = abs_state b (cleanup_expired now s)"
  by (simp add: ledger_expire_def abs_state_def cleanup_reservations)

lemma ledger_settle_abs:
  assumes "mem_inv s"
  shows "ledger_settle st now rid (abs_state b s) =
    (fst (settle_locked st f now rid s), abs_state b (snd (settle_locked st f now rid s)))"
  by (cases rule: settle_locked_cases [of now s rid st f])
    (auto simp: ledger_settle_def Let_def ledger_expire_abs [OF assms],
     auto simp: abs_state_def settle_reservations)

lemma ledger_state_abs [simp]:
  "lg_reservations (abs_state b s) = ms_reservations s"
  "lg_idempotency (abs_state b s) = ms_idempotency s"
  "lg_last_id (abs_state b s) = unat (ms_next_id s)"
  "lg_broken (abs_state b s) = b"
  by (simp_all add: abs_state_def)

lemma ledger_admit_insert:
  assumes "mem_inv s'" "(u, s') = insert_reservation r k (ReservationId n) t (s\<lparr>ms_next_id := n\<rparr>)"
    and "hm_get (ms_reservations s) (ReservationId n) = None"
    and "Option.bind (rr_idempotency_key r) (\<lambda>i. hm_get (ms_idempotency s) (k, i)) = None"
    and "unat n = unat (ms_next_id s) + 1" "ch_add lib (rr_now r) (rr_reservation_ttl r) = Some t"
  shows "ledger_admit lib r k (abs_state b s) =
    (Ok (srr_allow (store_reservation_new (ReservationId n) t) u), abs_state b s')"
proof -
  let ?l = "(abs_state b s)\<lparr>lg_last_id := unat n,
      lg_reservations := ms_reservations s @ [(ReservationId n, active_record k (rr_amount r) t)],
      lg_idempotency := (case rr_idempotency_key r of None \<Rightarrow> ms_idempotency s
        | Some i \<Rightarrow> ms_idempotency s @ [((k, i), ReservationId n)])\<rparr>"
  have s': "s' = snd (insert_reservation r k (ReservationId n) t (s\<lparr>ms_next_id := n\<rparr>))"
    and u: "u = fst (insert_reservation r k (ReservationId n) t (s\<lparr>ms_next_id := n\<rparr>))"
    using assms(2) by (metis snd_conv, metis fst_conv)
  have "?l = abs_state b s'"
    using assms(3,4)
    by (auto simp: abs_state_def s' insert_reservation_simps hm_insert_new split: option.splits)
  moreover have "u = usage_for_counter s' k"
    by (simp add: u s' insert_reservation_fst usage_for_counter_at counter_at_insert)
  then have "u = ledger_usage_at k (abs_state b s')"
    by (simp add: ledger_usage_abs [OF assms(1)])
  moreover have inverse: "word_of_nat (unat n) = n" by simp
  moreover have "ledger_admit lib r k (abs_state b s) =
      (Ok (srr_allow (store_reservation_new (ReservationId n) t) (ledger_usage_at k ?l)), ?l)"
    unfolding ledger_admit_def Let_def ledger_state_abs assms(5) [symmetric] inverse
    using assms(6) unat_u64_le [of n] by simp
  ultimately show ?thesis by simp
qed

lemma ledger_reserve_abs:
  assumes "mem_inv s" "rr_effective_limit r < u64_max"
  shows "ledger_reserve lib r (abs_state b s) =
    (fst (reserve_locked lib r s), abs_state b (snd (reserve_locked lib r s)))"
proof -
  let ?k = "counter_key_new (rr_key r) (rr_window r)"
  let ?s = "cleanup_expired (rr_now r) s"
  note clean = cleanup_inv [OF assms(1), of "rr_now r"]
  have limit: "units_of Committed ?k ?s + units_of Active ?k ?s + unat (rr_amount r) \<le> unat (rr_effective_limit r)
      \<longleftrightarrow> sat_add (cu_used (usage_for_counter ?s ?k)) (rr_amount r) \<le> rr_effective_limit r"
    using assms(2) used_exact [OF clean, of ?k]
    by (simp add: word_le_nat_alt word_less_nat_alt unat_sat_add unat_u64_max held_def min_le_iff_disj)
  note unfold = ledger_reserve_def Let_def ledger_expire_abs [OF assms(1)] ledger_usage_abs [OF clean] limit
  show ?thesis
  proof (cases rule: reserve_locked_cases [of r s lib])
    case (replay i rid)
    obtain v where "hm_get (ms_reservations ?s) rid = Some v"
      using mem_invD(6) [OF clean, of ?k i rid] replay by auto
    with replay show ?thesis
      by (cases "rv_status v") (simp_all add: unfold replay_existing_reservation_def)
  next
    case denied
    then have "\<not> units_of Committed ?k ?s + units_of Active ?k ?s + unat (rr_amount r) \<le> unat (rr_effective_limit r)"
      unfolding limit by (simp add: not_le)
    with denied show ?thesis by (simp add: ledger_reserve_def Let_def ledger_expire_abs [OF assms(1)]
          ledger_usage_abs [OF clean])
  next
    case reserve_overflow
    then show ?thesis by (simp add: unfold ledger_admit_def)
  next
    case (clock n)
    have "lg_last_id (abs_state b ?s) + 1 = unat n" using clock(3) by simp
    then have "ledger_admit lib r ?k (abs_state b ?s) = (Panic, (abs_state b ?s)\<lparr>lg_last_id := unat n\<rparr>)"
      using clock(4) unat_u64_le [of n] by (simp add: ledger_admit_def Let_def)
    with clock show ?thesis by (simp add: unfold) 
  next
    case (allowed n t u s')
    have "mem_inv s'"
      using reserve_locked_inv_level [OF assms, of lib] allowed(5) by simp
    moreover have "hm_get (ms_reservations ?s) (ReservationId n) = None"
      using next_id_fresh [OF clean, of n] allowed(1) by simp
    ultimately have "ledger_admit lib r ?k (abs_state b ?s) =
        (Ok (srr_allow (store_reservation_new (ReservationId n) t) u), abs_state b s')"
      using allowed(1,2,6) by (intro ledger_admit_insert allowed(4) [symmetric]) simp_all
    with allowed show ?thesis by (simp add: unfold)
  qed
qed

section \<open>Refinement\<close>

lemma guard_abs:
  assumes "f (mem_state m) = (x, s')" "g (abs_state False (mem_state m)) = (x, abs_state False s')"
  shows "ledger_guard g (abs_store m) = (fst (with_lock f m), abs_store (snd (with_lock f m)))"
proof (cases "mem_poisoned m")
  case True
  then show ?thesis
    by (simp add: ledger_guard_def abs_store_def with_lock_def write_state_def)
next
  case False
  then show ?thesis
    using assms by (simp add: ledger_guard_def abs_store_def with_lock_def write_state_def abs_state_def)
qed

lemma ledger_call_abs:
  assumes "mem_wf m" "exact_call c"
  shows "store_reply_to (ledger_ops lib) c (abs_store m) = store_reply_to (memory_ops lib) c m \<and>
    store_after (ledger_ops lib) c (abs_store m) = abs_store (store_after (memory_ops lib) c m)"
proof -
  have inv: "mem_inv (mem_state m)" using assms(1) by (simp add: mem_wf_def)
  show ?thesis
  proof (cases c)
    case (ReserveCall r)
    then have "ledger_guard (ledger_reserve lib r) (abs_store m) =
        (fst (with_lock (reserve_locked lib r) m), abs_store (snd (with_lock (reserve_locked lib r) m)))"
      using assms(2) by (intro guard_abs [where s' = "snd (reserve_locked lib r (mem_state m))"
          and x = "fst (reserve_locked lib r (mem_state m))"])
        (simp_all add: ledger_reserve_abs [OF inv] exact_request_def)
    then show ?thesis
      using ReserveCall
      by (cases "reserve_request_validate r")
        (simp_all add: ledger_ops_def memory_reserve_if_allowed_def del: reserve_request_validate_Ok)
  next
    case (CommitCall t rid)
    have "ledger_guard (ledger_settle Committed t rid) (abs_store m) =
        (fst (with_lock (commit_locked t rid) m), abs_store (snd (with_lock (commit_locked t rid) m)))"
      by (intro guard_abs [where s' = "snd (commit_locked t rid (mem_state m))"
          and x = "fst (commit_locked t rid (mem_state m))"])
        (simp_all add: commit_settles_as inv ledger_settle_abs [OF inv, where f = commit_units])
    then show ?thesis by (simp add: CommitCall ledger_ops_def memory_commit_def)
  next
    case (RefundCall t rid)
    have "ledger_guard (ledger_settle Refunded t rid) (abs_store m) =
        (fst (with_lock (refund_locked t rid) m), abs_store (snd (with_lock (refund_locked t rid) m)))"
      by (intro guard_abs [where s' = "snd (refund_locked t rid (mem_state m))"
          and x = "fst (refund_locked t rid (mem_state m))"])
        (simp_all add: refund_settles_as inv ledger_settle_abs [OF inv, where f = release_units])
    then show ?thesis by (simp add: RefundCall ledger_ops_def memory_refund_def)
  next
    case (UsageCall k w t)
    have "ledger_guard (\<lambda>l. (Ok (ledger_usage_at (counter_key_new k w) (ledger_expire t l)), ledger_expire t l))
        (abs_store m) = (fst (with_lock (usage_locked k w t) m), abs_store (snd (with_lock (usage_locked k w t) m)))"
      by (intro guard_abs [where s' = "snd (usage_locked k w t (mem_state m))"
          and x = "fst (usage_locked k w t (mem_state m))"])
        (simp_all add: usage_locked_def Let_def ledger_expire_abs [OF inv] ledger_usage_abs cleanup_inv inv)
    then show ?thesis by (simp add: UsageCall ledger_ops_def memory_usage_def)
  qed
qed

lemma ledger_calls_abs:
  assumes "mem_wf m" "list_all exact_call cs"
  shows "store_replies (ledger_ops lib) cs (abs_store m) = store_replies (memory_ops lib) cs m"
  using assms
proof (induction cs arbitrary: m)
  case (Cons c cs)
  then have "mem_wf (store_after (memory_ops lib) c m)"
    by (auto intro: memory.after_wf)
  with Cons show ?case
    using ledger_call_abs [of m c lib] by simp
qed simp

lemma abs_store_new [simp]: "abs_store memory_store_new = ledger_new"
  by (simp add: abs_store_def memory_store_new_def ledger_new_def abs_state_def default_memory_state_def)

section \<open>A warden over the ledger\<close>

text \<open>The ledger and the in-memory store agree, so a warden cannot tell them apart.\<close>

interpretation ledger_memory: agreeing_stores "ledger_ops lib" "memory_ops lib"
    "\<lambda>n past l m. mem_wf m \<and> l = abs_store m" "\<lambda>_. True" "\<lambda>_. True" exact_request
  for lib :: "('tz, 'more) chrono_scheme"
proof
  fix n past now k w r rid and l :: ledger and m
  assume l: "mem_wf m \<and> l = abs_store m"
  then have wf: "mem_wf m" by simp
  show "fst (st_usage (ledger_ops lib) k w now l) = fst (st_usage (memory_ops lib) k w now m) \<and>
      mem_wf (snd (st_usage (memory_ops lib) k w now m)) \<and>
      snd (st_usage (ledger_ops lib) k w now l) = abs_store (snd (st_usage (memory_ops lib) k w now m))"
    using ledger_call_abs [OF wf, of "UsageCall k w now" lib] memory.after_wf [of "UsageCall k w now" m lib] l by simp
  show "fst (st_commit (ledger_ops lib) now rid l) = fst (st_commit (memory_ops lib) now rid m) \<and>
      mem_wf (snd (st_commit (memory_ops lib) now rid m)) \<and>
      snd (st_commit (ledger_ops lib) now rid l) = abs_store (snd (st_commit (memory_ops lib) now rid m))"
    using ledger_call_abs [OF wf, of "CommitCall now rid" lib] memory.after_wf [of "CommitCall now rid" m lib] l by simp
  show "fst (st_refund (ledger_ops lib) now rid l) = fst (st_refund (memory_ops lib) now rid m) \<and>
      mem_wf (snd (st_refund (memory_ops lib) now rid m)) \<and>
      snd (st_refund (ledger_ops lib) now rid l) = abs_store (snd (st_refund (memory_ops lib) now rid m))"
    using ledger_call_abs [OF wf, of "RefundCall now rid" lib] memory.after_wf [of "RefundCall now rid" m lib] l by simp
  assume "exact_request r"
  then show "fst (st_reserve_if_allowed (ledger_ops lib) r l) = fst (st_reserve_if_allowed (memory_ops lib) r m) \<and>
      mem_wf (snd (st_reserve_if_allowed (memory_ops lib) r m)) \<and>
      snd (st_reserve_if_allowed (ledger_ops lib) r l) = abs_store (snd (st_reserve_if_allowed (memory_ops lib) r m))"
    using ledger_call_abs [OF wf, of "ReserveCall r" lib] memory.after_wf [of "ReserveCall r" m lib] l by simp
qed

end
