(* ===== verification/Store_Properties.thy ===== *)
theory Store_Properties
  imports Fixtures Memory_Ledger
begin

text \<open>
  What the in-memory store promises its callers, each property with an instance on the fixtures.
\<close>

section \<open>Counters\<close>

text \<open>C12: however the store is used with effective limits below \<open>u64::MAX\<close>, every counter holds exactly
  the units of its reservations: \<open>reserved\<close> the active ones, \<open>committed\<close> the committed ones, and
  their sum never saturates.\<close>

theorem counters_match_reservations:
  assumes "(memory_step lib)\<^sup>*\<^sup>* memory_store_new m"
  shows "unat (cr_reserved (counter_at (mem_state m) k)) = units_of Active k (mem_state m)
    \<and> unat (cr_committed (counter_at (mem_state m) k)) = units_of Committed k (mem_state m)
    \<and> units_of Committed k (mem_state m) + units_of Active k (mem_state m) \<le> 18446744073709551615"
  using memory_runD(1) [OF assms mem_wf_new] by (simp add: mem_wf_def mem_invD(7-9) held_def [symmetric])

theorem counters_match_reservations_witness:
  "unat (cr_reserved (counter_at (mem_state demo_store) (counter_key_new demo_store_key demo_window)))
     = units_of Active (counter_key_new demo_store_key demo_window) (mem_state demo_store)
   \<and> units_of Active (counter_key_new demo_store_key demo_window) (mem_state demo_store) = 3"
  by (rule conjI, rule counters_match_reservations [OF demo_run, THEN conjunct1]) code_simp

text \<open>C22: for an effective limit below \<open>u64::MAX\<close>, a reservation without an idempotency key, or the first
  one under its key, is admitted exactly when the units used at that instant and the requested ones fit
  under the effective limit; the reported usage then counts it, and is unchanged otherwise.\<close>

theorem reserve_admits_exactly:
  assumes "mem_wf m" "rr_effective_limit r < u64_max"
    and "key_unused (counter_key_new (rr_key r) (rr_window r)) (rr_idempotency_key r) (mem_state m)"
    and "memory_usage (rr_key r) (rr_window r) (rr_now r) m = (Ok u, m1)"
    and "memory_reserve_if_allowed lib r m = (Ok x, m2)"
  shows "srr_allowed x = (unat (cu_used u) + unat (rr_amount r) \<le> unat (rr_effective_limit r))
    \<and> unat (cu_used (srr_usage x)) = unat (cu_used u) + (if srr_allowed x then unat (rr_amount r) else 0)"
proof -
  let ?k = "counter_key_new (rr_key r) (rr_window r)"
  let ?s = "cleanup_expired (rr_now r) (mem_state m)"
  have inv: "mem_inv (mem_state m)" using assms(1) by (simp add: mem_wf_def)
  have u: "u = usage_for_counter ?s ?k"
    using with_lock_Ok [OF assms(4) [unfolded memory_usage_def]]
    unfolding usage_locked_def Let_def prod.inject outcome.inject by metis
  have x: "reserve_locked lib r (mem_state m) = (Ok x, mem_state m2)"
    using with_lock_Ok [OF memory_reserve_locks [OF assms(5)]] by simp
  have fits: "sat_add (cu_used u) (rr_amount r) \<le> rr_effective_limit r
      \<longleftrightarrow> unat (cu_used u) + unat (rr_amount r) \<le> unat (rr_effective_limit r)"
    using assms(2) by (auto simp: word_le_nat_alt word_less_nat_alt unat_sat_add unat_u64_max min_le_iff_disj)
  show ?thesis
  proof (cases rule: reserve_locked_cases [of r "mem_state m" lib])
    case denied
    with x u fits show ?thesis by (auto simp: srr_deny_def not_le [symmetric])
  next
    case (allowed n t v s')
    have "unat (cu_used (srr_usage x)) = held ?k s'"
      using reserve_locked_reports [OF inv assms(2) x] x allowed(5) by simp
    moreover have "hm_get (ms_reservations (?s\<lparr>ms_next_id := n\<rparr>)) (ReservationId n) = None"
      using next_id_fresh [OF cleanup_inv [OF inv], of _ n] allowed(1) by simp
    then have "held ?k s' = held ?k ?s + unat (rr_amount r)"
      using held_insert [of "?s\<lparr>ms_next_id := n\<rparr>" "ReservationId n" ?k r ?k t] allowed(4) by simp
    ultimately show ?thesis
      using x u fits allowed(3,5) used_exact [OF cleanup_inv [OF inv], of "rr_now r" ?k]
      by (auto simp: srr_allow_def)
  qed (use x assms(3) in \<open>simp_all add: key_unused_def\<close>)
qed

theorem reserve_admits_exactly_witness:
  "srr_allowed (case fst (memory_reserve_if_allowed utc_chrono (demo_reserve 8 10 None) demo_store) of
      Ok x \<Rightarrow> x | _ \<Rightarrow> srr_deny default_counter_usage)
    = (3 + unat (8 :: u64) \<le> unat (10 :: u64))"
proof -
  obtain u m1 where u: "memory_usage demo_store_key demo_window demo_now demo_store = (Ok u, m1)" "unat (cu_used u) = 3"
  proof
    show "memory_usage demo_store_key demo_window demo_now demo_store
        = (Ok \<lparr>cu_committed = 0, cu_reserved = 3\<rparr>, demo_store)" by code_simp
    show "unat (cu_used \<lparr>cu_committed = 0, cu_reserved = 3\<rparr>) = 3" by code_simp
  qed
  obtain x m2 where x: "memory_reserve_if_allowed utc_chrono (demo_reserve 8 10 None) demo_store = (Ok x, m2)"
  proof
    show "memory_reserve_if_allowed utc_chrono (demo_reserve 8 10 None) demo_store
        = (Ok (srr_deny \<lparr>cu_committed = 0, cu_reserved = 3\<rparr>), demo_store)" by code_simp
  qed
  show ?thesis
    using reserve_admits_exactly [of demo_store "demo_reserve 8 10 None" u m1 utc_chrono x m2] u x
    by (simp add: demo_store_wf demo_reserve_def u64_max_def)
qed

section \<open>Helpers: what a settlement does to the usage\<close>

lemma memory_usage_OkD:
  assumes "memory_usage k w t m = (Ok u, m1)"
  shows "u = usage_for_counter (mem_state m1) (counter_key_new k w)"
    and "mem_state m1 = cleanup_expired t (mem_state m)" "\<not> mem_poisoned m1"
  using with_lock_Ok [OF assms [unfolded memory_usage_def]] by (auto simp: usage_locked_def Let_def)

lemma memory_commit_settles:
  "mem_wf m \<Longrightarrow> memory_commit t rid m = with_lock (settle_locked Committed commit_units t rid) m"
  by (simp add: memory_commit_def with_lock_def write_state_def mem_wf_def commit_settles_as)

lemma memory_refund_settles:
  "mem_wf m \<Longrightarrow> memory_refund t rid m = with_lock (settle_locked Refunded release_units t rid) m"
  by (simp add: memory_refund_def with_lock_def write_state_def mem_wf_def refund_settles_as)

lemma settled_usage:
  assumes "mem_wf m" "memory_usage k w t m = (Ok u, m1)"
    and "hm_get (ms_reservations (mem_state m1)) rid = Some r" "rv_status r = Active"
    and "rv_counter_key r = counter_key_new k w" and as: "settles_as st f"
  defines "m2 \<equiv> with_lock (settle_locked st f t rid) m1"
  shows "fst m2 = Ok () \<and> (\<exists>u'. fst (memory_usage k w t (snd m2)) = Ok u'
      \<and> unat (cu_committed u') = unat (cu_committed u) + (if st = Committed then unat (rv_amount r) else 0)
      \<and> unat (cu_reserved u') + unat (rv_amount r) = unat (cu_reserved u))"
proof -
  let ?k = "counter_key_new k w" and ?s = "mem_state m1"
  have inv0: "mem_inv (mem_state m)" using assms(1) by (simp add: mem_wf_def)
  note u = memory_usage_OkD [OF assms(2)]
  have clean: "cleanup_expired t ?s = ?s" unfolding u(2) by (rule cleanup_again [OF inv0])
  have inv: "mem_inv ?s" unfolding u(2) by (rule cleanup_inv [OF inv0])
  let ?s2 = "settle rid r st f ?s"
  have m2: "m2 = (Ok (), \<lparr>mem_state = ?s2, mem_poisoned = False\<rparr>)"
    using assms(3,4) clean u(3) by (simp add: m2_def with_lock_def write_state_def settle_locked_def)
  have inv2: "mem_inv ?s2" by (rule settle_inv [OF inv assms(3,4) as])
  have idle: "cleanup_expired t ?s2 = ?s2"
  proof (rule cleanup_idle)
    have "expired_ids t ?s = []"
      unfolding u(2) by (rule expired_ids_cleanup [OF inv0])
    with as show "expired_ids t ?s2 = []" by (rule expired_ids_settle)
  qed
  have "fst (memory_usage k w t (snd m2)) = Ok (usage_for_counter ?s2 ?k)"
    by (simp add: m2 memory_usage_def with_lock_def write_state_def usage_locked_def idle Let_def)
  moreover have "unat (cu_committed (usage_for_counter ?s2 ?k)) =
      unat (cu_committed u) + (if st = Committed then unat (rv_amount r) else 0)"
    and "unat (cu_reserved (usage_for_counter ?s2 ?k)) + unat (rv_amount r) = unat (cu_reserved u)"
    using units_of_settle [OF mem_invD(2) [OF inv] assms(3), of Committed ?k st f]
      units_of_settle [OF mem_invD(2) [OF inv] assms(3), of Active ?k st f] assms(4,5) as
    by (auto simp: u(1) usage_for_counter_at counter_usage_new_def mem_invD(7,8) [OF inv]
        mem_invD(7,8) [OF inv2] units_in_def settles_as_def)
  ultimately show ?thesis using m2 by simp
qed

lemma cleanup_committed:
  assumes "mem_inv s"
  shows "units_of Committed k (cleanup_expired now s) = units_of Committed k s"
proof -
  have "(\<lambda>(rid, r). units_in Committed k r) \<circ> (\<lambda>(rid, r). (rid, expire_record now r)) =
      (\<lambda>(rid :: reservation_id, r). units_in Committed k r)"
    by (auto simp: fun_eq_iff units_in_def)
  then show ?thesis
    by (simp add: units_of_def hm_total_def cleanup_reservations [OF assms] expire_all_def)
qed

lemma expired_units_gone:
  assumes "mem_inv s" "hm_get (ms_reservations s) rid = Some r" "rv_status r = Active" "rv_expires_at r \<le> now"
  shows "units_of Active (rv_counter_key r) (cleanup_expired now s) + unat (rv_amount r)
    \<le> units_of Active (rv_counter_key r) s"
proof -
  let ?g = "units_in Active (rv_counter_key r)"
  have le: "?g (expire_record now v) \<le> ?g v" for v by (simp add: units_in_def)
  have "hm_total ?g (expire_all now m) + unat (rv_amount r) \<le> hm_total ?g m"
    if "(rid, r) \<in> set m" for m
    using that
  proof (induction m)
    case (Cons p m)
    have "hm_total ?g (expire_all now m) \<le> hm_total ?g m" for m :: "(reservation_id, reservation_record) hmap"
      by (induction m) (auto simp: hm_total_def expire_all_def intro: add_mono le)
    then show ?case
      using Cons assms(3,4) le [of "snd p"]
      by (cases p) (auto simp: hm_total_def expire_all_def units_in_def expire_record_def intro: add_mono)
  qed simp
  then show ?thesis
    using assms(2) by (simp add: units_of_def cleanup_reservations [OF assms(1)] map_of_SomeD)
qed

lemma demo_store_reservation:
  "hm_get (ms_reservations (mem_state demo_store)) (ReservationId 1) =
     Some (active_record (counter_key_new demo_store_key demo_window) 3 (demo_now + duration_minutes 5))"
  by code_simp

section \<open>The life of a reservation\<close>

text \<open>C16: as long as effective limits are below \<open>u64::MAX\<close>, once created, a reservation is never removed and its counter, amount and expiry never
  change; once it has been committed, refunded or expired, nothing about it changes any more.\<close>

theorem reservation_lifecycle:
  assumes "(memory_step lib)\<^sup>*\<^sup>* memory_store_new m" "(memory_step lib)\<^sup>*\<^sup>* m m'"
    and "hm_get (ms_reservations (mem_state m)) rid = Some r"
  shows "\<exists>r'. hm_get (ms_reservations (mem_state m')) rid = Some r'
    \<and> rv_counter_key r' = rv_counter_key r \<and> rv_amount r' = rv_amount r \<and> rv_expires_at r' = rv_expires_at r
    \<and> (rv_status r = Active \<or> r' = r)"
proof -
  have "evolves (mem_state m) (mem_state m')"
    by (rule memory_runD(2) [OF assms(2) memory_runD(1) [OF assms(1) mem_wf_new]])
  then obtain r' where "hm_get (ms_reservations (mem_state m')) rid = Some r'" "record_evolves r r'"
    using assms(3) unfolding evolves_def by blast
  then show ?thesis by (auto simp: record_evolves_def)
qed

theorem reservation_lifecycle_witness:
  "\<exists>r'. hm_get (ms_reservations (mem_state (fold (store_after (memory_ops utc_chrono))
        [CommitCall demo_now (ReservationId 1), RefundCall demo_now (ReservationId 1)] demo_store)))
        (ReservationId 1) = Some r'
    \<and> rv_counter_key r' = counter_key_new demo_store_key demo_window \<and> rv_amount r' = 3"
proof -
  let ?r = "active_record (counter_key_new demo_store_key demo_window) 3 (demo_now + duration_minutes 5)"
  have "hm_get (ms_reservations (mem_state demo_store)) (ReservationId 1) = Some ?r" by code_simp
  from reservation_lifecycle [OF demo_run memory_run_calls this,
      of "[CommitCall demo_now (ReservationId 1), RefundCall demo_now (ReservationId 1)]"]
  show ?thesis by (auto simp: active_record_def)
qed

text \<open>C23: committing an active reservation moves its units from reserved to committed, exactly and
  without saturation, as the usage of the same instant shows.\<close>

theorem commit_moves_units:
  assumes "mem_wf m" "memory_usage k w t m = (Ok u, m1)"
    and "hm_get (ms_reservations (mem_state m1)) rid = Some r" "rv_status r = Active"
    and "rv_counter_key r = counter_key_new k w"
  shows "fst (memory_commit t rid m1) = Ok () \<and>
    (\<exists>u'. fst (memory_usage k w t (snd (memory_commit t rid m1))) = Ok u'
      \<and> unat (cu_committed u') = unat (cu_committed u) + unat (rv_amount r)
      \<and> unat (cu_reserved u') + unat (rv_amount r) = unat (cu_reserved u))"
  using settled_usage [OF assms settles_as_intros(1)]
    memory_commit_settles [of m1 t rid] memory_usage_wf_level [OF assms(1), of k w t] assms(2) by simp

text \<open>C24: refunding an active reservation gives its units back, exactly, and commits nothing.\<close>

theorem refund_releases_units:
  assumes "mem_wf m" "memory_usage k w t m = (Ok u, m1)"
    and "hm_get (ms_reservations (mem_state m1)) rid = Some r" "rv_status r = Active"
    and "rv_counter_key r = counter_key_new k w"
  shows "fst (memory_refund t rid m1) = Ok () \<and>
    (\<exists>u'. fst (memory_usage k w t (snd (memory_refund t rid m1))) = Ok u'
      \<and> unat (cu_committed u') = unat (cu_committed u)
      \<and> unat (cu_reserved u') + unat (rv_amount r) = unat (cu_reserved u))"
  using settled_usage [OF assms settles_as_intros(2)]
    memory_refund_settles [of m1 t rid] memory_usage_wf_level [OF assms(1), of k w t] assms(2) by simp

theorem commit_moves_units_witness:
  "\<exists>u'. fst (memory_usage demo_store_key demo_window demo_now
          (snd (memory_commit demo_now (ReservationId 1) demo_store))) = Ok u'
      \<and> unat (cu_committed u') = 3 \<and> unat (cu_reserved u') = 0"
  using commit_moves_units [OF demo_store_wf demo_store_usage demo_store_reservation] by (simp add: active_record_def)

theorem refund_releases_units_witness:
  "\<exists>u'. fst (memory_usage demo_store_key demo_window demo_now
          (snd (memory_refund demo_now (ReservationId 1) demo_store))) = Ok u'
      \<and> unat (cu_committed u') = 0 \<and> unat (cu_reserved u') = 0"
  using refund_releases_units [OF demo_store_wf demo_store_usage demo_store_reservation] by (simp add: active_record_def)

lemma memory_settled_record:
  assumes "mem_wf m" "memory_commit t rid m = (Ok (), m1) \<or> memory_refund t rid m = (Ok (), m1)"
  obtains r where "hm_get (ms_reservations (mem_state m1)) rid = Some r" "settled_record r"
proof -
  have inv: "mem_inv (mem_state m)" using assms(1) by (simp add: mem_wf_def)
  from assms(2) show ?thesis
  proof
    assume "memory_commit t rid m = (Ok (), m1)"
    then have ok: "settle_locked Committed commit_units t rid (mem_state m) = (Ok (), mem_state m1)"
      using with_lock_Ok [of "settle_locked Committed commit_units t rid"] by (simp add: memory_commit_settles [OF assms(1)])
    show ?thesis by (rule settle_locked_settled [OF inv settles_as_intros(1) _ ok], simp, rule that)
  next
    assume "memory_refund t rid m = (Ok (), m1)"
    then have ok: "settle_locked Refunded release_units t rid (mem_state m) = (Ok (), mem_state m1)"
      using with_lock_Ok [of "settle_locked Refunded release_units t rid"] by (simp add: memory_refund_settles [OF assms(1)])
    show ?thesis by (rule settle_locked_settled [OF inv settles_as_intros(2) _ ok], simp, rule that)
  qed
qed

text \<open>C26: once a reservation has been settled, and whatever calls follow (with limits below \<open>u64::MAX\<close>), a
  commit or refund of it succeeds again and raises no counter, so a client may retry either call, unless
  a panic has poisoned the lock in between.\<close>

theorem settled_for_good:
  assumes "mem_wf m" "memory_commit t rid m = (Ok (), m1) \<or> memory_refund t rid m = (Ok (), m1)"
    and "(memory_step lib)\<^sup>*\<^sup>* m1 m2" "\<not> mem_poisoned m2"
  shows "fst (memory_commit t' rid m2) = Ok () \<and> fst (memory_refund t' rid m2) = Ok ()
    \<and> mem_level (snd (memory_commit t' rid m2)) c \<le> mem_level m2 c
    \<and> mem_level (snd (memory_refund t' rid m2)) c \<le> mem_level m2 c"
proof -
  have "mem_wf m1"
    using assms(2) memory_commit_wf_level [OF assms(1), of t rid] memory_refund_wf_level [OF assms(1), of t rid]
    by auto
  note run = memory_runD [OF assms(3) this]
  obtain r where "hm_get (ms_reservations (mem_state m1)) rid = Some r" "settled_record r"
    by (rule memory_settled_record [OF assms(1,2)])
  moreover from this obtain r' where "hm_get (ms_reservations (mem_state m2)) rid = Some r'" "record_evolves r r'"
    using run(2) unfolding evolves_def by blast
  ultimately have "settle_locked st f t' rid (mem_state m2) = (Ok (), cleanup_expired t' (mem_state m2))" for st f
    using run(1) by (intro settled_record_again) (auto simp: mem_wf_def record_evolves_def settled_record_def)
  then have "fst (memory_commit t' rid m2) = Ok () \<and> fst (memory_refund t' rid m2) = Ok ()"
    using assms(4) by (simp add: memory_commit_settles [OF run(1)] memory_refund_settles [OF run(1)]
        with_lock_def write_state_def)
  then show ?thesis
    using memory_commit_wf_level [OF run(1)] memory_refund_wf_level [OF run(1)] by blast
qed

theorem settled_for_good_witness:
  "fst (memory_commit (demo_now + duration_days 1) (ReservationId 1)
      (snd (memory_reserve_if_allowed utc_chrono (demo_reserve 5 10 None)
        (snd (memory_commit demo_now (ReservationId 1) demo_store))))) = Ok ()"
proof -
  let ?m1 = "snd (memory_commit demo_now (ReservationId 1) demo_store)"
  have "memory_commit demo_now (ReservationId 1) demo_store = (Ok (), ?m1)" by code_simp
  moreover have "(memory_step utc_chrono)\<^sup>*\<^sup>* ?m1 (fold (store_after (memory_ops utc_chrono)) [ReserveCall (demo_reserve 5 10 None)] ?m1)"
    by (rule memory_run_calls) (simp add: demo_reserve_def u64_max_def exact_request_def)
  moreover have "\<not> mem_poisoned (fold (store_after (memory_ops utc_chrono)) [ReserveCall (demo_reserve 5 10 None)] ?m1)"
    by code_simp
  ultimately show ?thesis
    using settled_for_good [OF demo_store_wf disjI1, of demo_now "ReservationId 1" ?m1 utc_chrono] by auto
qed

text \<open>C25: when its expiry has come, a reservation still marked active in an unpoisoned store can be neither
  committed nor refunded and its units no longer count as used.\<close>

theorem expired_reservation_released:
  assumes "mem_wf m" "\<not> mem_poisoned m" "hm_get (ms_reservations (mem_state m)) rid = Some r"
    and "rv_status r = Active" "rv_expires_at r \<le> t" "rv_counter_key r = counter_key_new k w"
  shows "fst (memory_commit t rid m) = Err StReservationExpired
    \<and> fst (memory_refund t rid m) = Err StReservationExpired
    \<and> (\<exists>u. fst (memory_usage k w t m) = Ok u
        \<and> unat (cu_used u) + unat (rv_amount r) \<le> mem_level m (counter_key_new k w))"
proof -
  let ?s = "cleanup_expired t (mem_state m)" and ?k = "counter_key_new k w"
  have inv: "mem_inv (mem_state m)" using assms(1) by (simp add: mem_wf_def)
  have get: "hm_get (ms_reservations ?s) rid = Some (r\<lparr>rv_status := Expired\<rparr>)"
    using assms(3-5) by (simp add: cleanup_reservations [OF inv] hmap_simps expire_record_def)
  have settled: "fst (memory_commit t rid m) = Err StReservationExpired \<and>
      fst (memory_refund t rid m) = Err StReservationExpired"
    using get assms(2) by (simp add: memory_commit_def memory_refund_def with_lock_def write_state_def
        commit_locked_def refund_locked_def Let_def)
  have "fst (memory_usage k w t m) = Ok (usage_for_counter ?s ?k)"
    using assms(2) by (simp add: memory_usage_def with_lock_def write_state_def usage_locked_def Let_def)
  moreover have "units_of Active ?k ?s + unat (rv_amount r) \<le> units_of Active ?k (mem_state m)"
    using expired_units_gone [OF inv assms(3-5)] assms(6) by simp
  moreover have "units_of Committed ?k ?s = units_of Committed ?k (mem_state m)"
    by (rule cleanup_committed [OF inv])
  ultimately show ?thesis
    using settled used_exact [OF cleanup_inv [OF inv], of t ?k]
    by (simp add: mem_level_held [OF assms(1)] held_def)
qed

theorem expired_reservation_released_witness:
  "fst (memory_commit (demo_now + duration_minutes 5) (ReservationId 1) demo_store) = Err StReservationExpired
   \<and> (\<exists>u. fst (memory_usage demo_store_key demo_window (demo_now + duration_minutes 5) demo_store) = Ok u
        \<and> unat (cu_used u) + 3 \<le> mem_level demo_store (counter_key_new demo_store_key demo_window))"
proof -
  have "\<not> mem_poisoned demo_store" by code_simp
  from expired_reservation_released [OF demo_store_wf this demo_store_reservation,
      of "demo_now + duration_minutes 5" demo_store_key demo_window]
  show ?thesis by (simp add: active_record_def)
qed

section \<open>Idempotency keys\<close>

text \<open>C17: an idempotency key stands for one reservation for good, with effective limits below \<open>u64::MAX\<close>. After a successful reservation, and
  whatever happens in between, another reservation under the same key, counter and window never
  reserves anything: it returns the first reservation or none, and raises no counter.\<close>

theorem idempotency_key_reserves_once:
  assumes "mem_wf m" "rr_effective_limit r < u64_max" "rr_idempotency_key r = Some i"
    and "memory_reserve_if_allowed lib r m = (Ok x, m1)" "srr_reservation x = Some v"
    and "(memory_step lib)\<^sup>*\<^sup>* m1 m2"
    and "rr_key r' = rr_key r" "rr_window r' = rr_window r" "rr_idempotency_key r' = Some i"
    and "memory_reserve_if_allowed lib r' m2 = (Ok x', m3)"
  shows "srr_reservation x' \<in> {None, Some v} \<and> mem_level m3 c \<le> mem_level m2 c"
proof -
  let ?k = "counter_key_new (rr_key r) (rr_window r)"
  let ?s = "cleanup_expired (rr_now r') (mem_state m2)"
  have "mem_wf m1" using memory_reserve_wf_level [OF assms(1,2), of lib] assms(4) by simp
  then have m2: "mem_wf m2" "evolves (mem_state m1) (mem_state m2)"
    using memory_runD [OF assms(6)] by blast+
  have inv2: "mem_inv (mem_state m2)" using m2(1) by (simp add: mem_wf_def)
  have ev: "evolves (mem_state m1) ?s"
    by (rule evolves_trans [OF m2(2) cleanup_evolves [OF inv2]])
  note bound = reserve_binds_key [OF assms(1-5)]
  then have key: "hm_get (ms_idempotency ?s) (?k, i) = Some (sr_id v)"
    using ev unfolding evolves_def by blast
  obtain q where q: "hm_get (ms_reservations ?s) (sr_id v) = Some q" "rv_expires_at q = sr_expires_at v"
    using bound ev unfolding evolves_def record_evolves_def by metis
  have "reserve_locked lib r' (mem_state m2) = (Ok (replay_existing_reservation ?s (sr_id v) ?k), ?s)"
    using key assms(7-9) by (simp add: reserve_locked_def Let_def)
  then have x': "x' = replay_existing_reservation ?s (sr_id v) ?k" "mem_state m3 = ?s"
    using with_lock_Ok [OF memory_reserve_locks [OF assms(10)]] by simp_all
  have "mem_wf m3" using x'(2) inv2 by (simp add: mem_wf_def cleanup_inv)
  then have "mem_level m3 c \<le> mem_level m2 c"
    using x'(2) cleanup_level [OF inv2] m2(1) by (simp add: mem_level_held)
  moreover have "srr_reservation x' \<in> {None, Some v}"
    using q unfolding x'(1)
    by (auto simp: replay_existing_reservation_def Let_def srr_allow_def srr_deny_def
        store_reservation_new_def split: reservation_status.splits)
  ultimately show ?thesis by simp
qed

theorem idempotency_key_reserves_once_witness:
  "mem_level (snd (memory_reserve_if_allowed utc_chrono (demo_reserve 5 10 (Some (IdempotencyKey ''a'')))
      (snd (memory_commit demo_now (ReservationId 1) demo_store)))) (counter_key_new demo_store_key demo_window)
   \<le> mem_level (snd (memory_commit demo_now (ReservationId 1) demo_store)) (counter_key_new demo_store_key demo_window)"
proof -
  let ?v = "store_reservation_new (ReservationId 1) (demo_now + duration_minutes 5)"
  let ?r = "\<lambda>a. demo_reserve a 10 (Some (IdempotencyKey ''a''))"
  let ?m2 = "snd (memory_commit demo_now (ReservationId 1) demo_store)"
  have first: "memory_reserve_if_allowed utc_chrono (?r 3) memory_store_new =
      (Ok (srr_allow ?v \<lparr>cu_committed = 0, cu_reserved = 3\<rparr>), demo_store)" by code_simp
  have second: "memory_reserve_if_allowed utc_chrono (?r 5) ?m2 =
      (Ok (srr_allow ?v \<lparr>cu_committed = 3, cu_reserved = 0\<rparr>), ?m2)" by code_simp
  have run: "(memory_step utc_chrono)\<^sup>*\<^sup>* demo_store ?m2"
    using memory_run_calls [of "[CommitCall demo_now (ReservationId 1)]" utc_chrono demo_store] by simp
  show ?thesis
    using idempotency_key_reserves_once [OF mem_wf_new _ _ first _ run _ _ _ second]
    by (simp add: demo_reserve_def u64_max_def srr_allow_def second [unfolded demo_reserve_def])
qed

section \<open>Errors\<close>

lemma with_lock_poisoned:
  "mem_poisoned m \<Longrightarrow> with_lock f m = (Err (StOther ''memory store lock is poisoned''), m)"
  by (simp add: with_lock_def write_state_def)

lemma poisoned_call:
  assumes "mem_poisoned m"
  shows "reply_failed (store_reply_to (memory_ops lib) c m) \<and> store_after (memory_ops lib) c m = m"
  by (cases c) (auto simp: memory_reserve_if_allowed_def memory_commit_def memory_refund_def memory_usage_def
      with_lock_poisoned [OF assms] split: outcome.splits)

text \<open>C39: an admitted reservation without an idempotency key whose expiry is out of the range of instants
  panics while the lock is held, and from then on every call of the store (reserve, commit, refund,
  usage) is answered with an error and changes nothing, whoever makes it.\<close>

theorem expiry_overflow_poisons:
  assumes "\<not> mem_poisoned m" "reserve_request_validate r = Ok ()" "rr_idempotency_key r = None"
    and "memory_usage (rr_key r) (rr_window r) (rr_now r) m = (Ok u, m1)"
    and "sat_add (cu_used u) (rr_amount r) \<le> rr_effective_limit r" "ms_next_id (mem_state m1) < u64_max"
    and "ch_add lib (rr_now r) (rr_reservation_ttl r) = None"
    and "memory_reserve_if_allowed lib r m = (x, m2)"
  shows "x = Panic \<and> list_all reply_failed (store_replies (memory_ops lib) cs m2)
    \<and> fold (store_after (memory_ops lib)) cs m2 = m2"
proof -
  let ?s = "cleanup_expired (rr_now r) (mem_state m)"
  note u = memory_usage_OkD [OF assms(4)]
  have "checked_add (ms_next_id ?s) 1 \<noteq> None"
    using assms(6) unfolding checked_add_eq_None u(2) by (simp add: word_less_nat_alt unat_u64_max)
  then obtain n where "next_reservation_id ?s = (Ok (ReservationId n), ?s\<lparr>ms_next_id := n\<rparr>)"
    by (auto simp: next_reservation_id_def)
  then have "reserve_locked lib r (mem_state m) = (Panic, ?s\<lparr>ms_next_id := n\<rparr>)"
    using assms(3,5,7) u(1,2) by (simp add: reserve_locked_def Let_def)
  then have "x = Panic" and p: "mem_poisoned m2"
    using assms(1,2,8) by (auto simp: memory_reserve_if_allowed_def with_lock_def write_state_def
        simp del: reserve_request_validate_Ok)
  have call: "reply_failed (store_reply_to (memory_ops lib) c m2) \<and> store_after (memory_ops lib) c m2 = m2" for c
    by (rule poisoned_call [OF p])
  have "list_all reply_failed (store_replies (memory_ops lib) cs m2) \<and> fold (store_after (memory_ops lib)) cs m2 = m2"
    by (induction cs) (simp_all add: call)
  with \<open>x = Panic\<close> show ?thesis by simp
qed

theorem expiry_overflow_poisons_witness:
  "list_all reply_failed (store_replies (memory_ops utc_chrono)
      [RefundCall demo_now (ReservationId 1), ReserveCall (demo_reserve 1 10 None), UsageCall demo_store_key demo_window demo_now]
      (snd (memory_reserve_if_allowed utc_chrono ((demo_reserve 3 10 None)\<lparr>rr_reservation_ttl := duration_days 100000000\<rparr>) demo_store)))"
proof -
  let ?r = "(demo_reserve 3 10 None)\<lparr>rr_reservation_ttl := duration_days 100000000\<rparr>"
  have *: "\<not> mem_poisoned demo_store" "reserve_request_validate ?r = Ok ()" "rr_idempotency_key ?r = None"
    "sat_add (cu_used \<lparr>cu_committed = 0, cu_reserved = 3\<rparr>) (rr_amount ?r) \<le> rr_effective_limit ?r"
    "ms_next_id (mem_state demo_store) < u64_max"
    "ch_add utc_chrono (rr_now ?r) (rr_reservation_ttl ?r) = None"
    "memory_usage (rr_key ?r) (rr_window ?r) (rr_now ?r) demo_store = (Ok \<lparr>cu_committed = 0, cu_reserved = 3\<rparr>, demo_store)"
    by code_simp+
  show ?thesis
    using expiry_overflow_poisons [OF *(1-3,7,4-6) prod.collapse [symmetric]] by blast
qed

section \<open>Refinement\<close>

text \<open>C8: the store gives the same replies as the ledger, the specification without counters, to
  every sequence of calls with limits below \<open>u64::MAX\<close>.\<close>

theorem memory_store_refines_ledger:
  assumes "list_all exact_call cs"
  shows "store_replies (memory_ops lib) cs memory_store_new = store_replies (ledger_ops lib) cs ledger_new"
  using ledger_calls_abs [OF mem_wf_new assms, of lib] by simp

theorem memory_store_refines_ledger_witness:
  "store_replies (memory_ops utc_chrono)
      [ReserveCall (demo_reserve 3 10 None), CommitCall demo_now (ReservationId 1), UsageCall demo_store_key demo_window demo_now]
      memory_store_new =
    store_replies (ledger_ops utc_chrono)
      [ReserveCall (demo_reserve 3 10 None), CommitCall demo_now (ReservationId 1), UsageCall demo_store_key demo_window demo_now]
      ledger_new"
  by (rule memory_store_refines_ledger) (simp add: demo_reserve_def u64_max_def exact_request_def)

end
