(* ===== verification/Broker_Policies.thy ===== *)
theory Broker_Policies
  imports Fixtures
begin

text \<open>
  Which policy governs a request, how a warden is built, what happens when the store fails, and what
  usage queries and reports return, over any store.
\<close>

section \<open>Policy selection\<close>

lemma filter_split:
  "filter P xs = as @ x # bs \<Longrightarrow>
     \<exists>before after. xs = before @ x # after \<and> as = filter P before \<and> bs = filter P after"
proof (induction xs arbitrary: as)
  case (Cons y ys)
  show ?case
  proof (cases "P y \<and> as = []")
    case True
    with Cons.prems have "y # ys = [] @ x # ys \<and> as = filter P [] \<and> bs = filter P ys" by simp
    then show ?thesis by blast
  next
    case False
    with Cons.prems have "filter P ys = (if P y then tl as else as) @ x # bs" and "P y \<Longrightarrow> as = y # tl as"
      by (cases as; auto split: if_splits)+
    moreover from Cons.IH [OF this(1)] obtain before after where
      "ys = before @ x # after" "(if P y then tl as else as) = filter P before" "bs = filter P after" by blast
    ultimately have "y # ys = (y # before) @ x # after \<and> as = filter P (y # before) \<and> bs = filter P after"
      by (auto split: if_splits)
    then show ?thesis by blast
  qed
qed simp

text \<open>C32: the policy of a request is the last of the most specific ones that match it: every matching
  policy before it is at most as specific, every one after it less.\<close>

theorem find_last_most_specific:
  assumes "registry_find ps k = Some p"
  shows "\<exists>before after. ps = before @ p # after \<and> pattern_matches (bp_key p) k
    \<and> list_all (\<lambda>q. \<not> pattern_matches (bp_key q) k \<or> specificity (bp_key q) \<le> specificity (bp_key p)) before
    \<and> list_all (\<lambda>q. \<not> pattern_matches (bp_key q) k \<or> specificity (bp_key q) < specificity (bp_key p)) after"
proof -
  obtain as bs where f: "filter (\<lambda>p. pattern_matches (bp_key p) k) ps = as @ p # bs"
    and as: "\<forall>a \<in> set as. specificity (bp_key a) \<le> specificity (bp_key p)"
    and bs: "\<forall>b \<in> set bs. specificity (bp_key b) < specificity (bp_key p)"
    using max_by_key_Some [OF assms [unfolded registry_find_def]] by blast
  from filter_split [OF f] obtain us zs where ps: "ps = us @ p # zs"
    "as = filter (\<lambda>p. pattern_matches (bp_key p) k) us" "bs = filter (\<lambda>p. pattern_matches (bp_key p) k) zs"
    by blast
  have "list_all (\<lambda>q. \<not> pattern_matches (bp_key q) k \<or> specificity (bp_key q) \<le> specificity (bp_key p)) us"
    "list_all (\<lambda>q. \<not> pattern_matches (bp_key q) k \<or> specificity (bp_key q) < specificity (bp_key p)) zs"
    using as bs ps(2,3) by (auto simp: list_all_iff)
  with ps(1) registry_find_Some(2) [OF assms] show ?thesis by blast
qed

definition exact_policy :: budget_policy where
  "exact_policy = (demo_policy HardLimitOnly)
     \<lparr>bp_name := ''exact'', bp_key := \<lparr>kp_provider = ''serpapi'', kp_domain = Some ''search'',
        kp_resource = Some ''google'', kp_subject = Some ''global''\<rparr>\<rparr>"

theorem find_last_most_specific_witness:
  "\<exists>before after. [exact_policy, demo_policy HardLimitOnly] = before @ exact_policy # after
     \<and> list_all (\<lambda>q. \<not> pattern_matches (bp_key q) demo_key \<or> specificity (bp_key q) < specificity (bp_key exact_policy)) after"
proof -
  have "registry_find [exact_policy, demo_policy HardLimitOnly] demo_key = Some exact_policy" by code_simp
  from find_last_most_specific [OF this] show ?thesis by blast
qed

text \<open>A warden is built exactly when a store is set, the time to live (five minutes if unset) is
  positive and no two policies share a name; it keeps the policies in their order.\<close>

lemma warden_build_accepts:
  "warden_build b = Ok wd \<longleftrightarrow>
     wbd_store b = Some (wd_store wd) \<and> distinct (map bp_name (wbd_policies b))
   \<and> wd_policies wd = wbd_policies b
   \<and> wd_clock wd = (case wbd_clock b of None \<Rightarrow> system_clock | Some c \<Rightarrow> c)
   \<and> wd_reservation_ttl wd = (case wbd_reservation_ttl b of None \<Rightarrow> duration_minutes 5 | Some d \<Rightarrow> d)
   \<and> 0 < wd_reservation_ttl wd"
  by (cases wd) (auto simp: warden_build_def Let_def registry_new_Ok unwrap_or_def default_reservation_ttl_def
      split: option.splits if_splits)

section \<open>Requests that reach no store\<close>

text \<open>A request no policy matches, or whose unit is not its policy's, is answered without touching
  the store: the first with a denial that recommends rejection, the second with an error.\<close>

lemma rejected_before_store:
  "(registry_find (wd_policies wd) (rq_key r) \<noteq> None
    \<or> (snd (snd (reserve lib wd t r s)) = s
       \<and> (ch_add lib t (duration_seconds 1) = None
          \<or> (\<exists>us. fst (reserve lib wd t r s) = Ok (DenyLive DeniedNoMatchingPolicy us Reject) \<and> us_hard_limit us = 0))))
   \<and> (\<forall>p. registry_find (wd_policies wd) (rq_key r) \<noteq> Some p \<or> rq_unit r = bp_unit p
      \<or> reserve lib wd t r s =
          (Err (InvalidRequestError ''request unit does not match policy unit''), [], s))"
  by (cases "registry_find (wd_policies wd) (rq_key r)"; cases "ch_add lib t (duration_seconds 1)")
    (auto simp: reserve_def reserve_begin_def broker_enter_def no_policy_decision_def
      validate_request_against_policy_def)

lemma rejected_before_store_witness:
  "snd (snd (reserve utc_chrono (demo_warden HardLimitOnly) demo_now
      ((demo_request 3 Normal None)\<lparr>rq_key := demo_key\<lparr>bk_provider := ''other''\<rparr>\<rparr>) demo_store)) = demo_store
   \<and> reserve utc_chrono (demo_warden HardLimitOnly) demo_now ((demo_request 3 Normal None)\<lparr>rq_unit := Tokens\<rparr>) demo_store =
      (Err (InvalidRequestError ''request unit does not match policy unit''), [], demo_store)"
proof -
  have "registry_find (wd_policies (demo_warden HardLimitOnly))
      (rq_key ((demo_request 3 Normal None)\<lparr>rq_key := demo_key\<lparr>bk_provider := ''other''\<rparr>\<rparr>)) = None"
    "registry_find (wd_policies (demo_warden HardLimitOnly)) (rq_key ((demo_request 3 Normal None)\<lparr>rq_unit := Tokens\<rparr>)) =
      Some (demo_policy HardLimitOnly)" by code_simp+
  moreover have "rq_unit ((demo_request 3 Normal None)\<lparr>rq_unit := Tokens\<rparr>) \<noteq> bp_unit (demo_policy HardLimitOnly)"
    by (simp add: demo_policy_def)
  ultimately show ?thesis
    using rejected_before_store [of "demo_warden HardLimitOnly" _ utc_chrono demo_now demo_store] by blast
qed

section \<open>Store failures\<close>

text \<open>C31: when the store fails to report usage, a fail-closed policy returns the store's error and
  emits nothing; a fail-open one allows the request, whatever the error, with a preview that holds
  nothing, and the failure is reported.\<close>

theorem store_failure_by_mode:
  assumes "registry_find (wd_policies wd) (rq_key r) = Some p" "rq_unit r = bp_unit p"
    and "bounds_at lib (bp_window p) (wd_clock wd t) = Ok w"
    and "st_usage (wd_store wd) (policy_store_key p (rq_key r)) w (wd_clock wd t) s = (Err e, s')"
    and "ch_add lib (wd_clock wd t) (duration_seconds 1) = Some d"
  shows "reserve lib wd t r s = authorize lib wd t r s
    \<and> (if bp_fail_mode p = Closed then reserve lib wd t r s = (Err (from_store_error e), [], s')
       else \<exists>q us. reserve lib wd t r s =
           (Ok (AllowLive q us), [telemetry_store_unavailable p r e, telemetry_allowed r us], s')
         \<and> \<not> rs_attached q \<and> rs_expires_at q = d \<and> us_used us = 0)"
  using assms
  by (cases "bp_fail_mode p")
    (auto simp: reserve_def reserve_begin_def authorize_def broker_enter_def validate_request_against_policy_def
      on_store_error_def fail_open_decision_def Let_def budget_reservation_preview_def snapshot_def)

definition failing_ops :: "unit store_ops" where
  "failing_ops =
     \<lparr>st_reserve_if_allowed = (\<lambda>r s. (Err StUnavailable, s)), st_commit = (\<lambda>t rid s. (Err StUnavailable, s)),
      st_refund = (\<lambda>t rid s. (Err StUnavailable, s)), st_usage = (\<lambda>k w t s. (Err StUnavailable, s))\<rparr>"

definition failing_warden :: "fail_mode \<Rightarrow> unit budget_warden" where
  "failing_warden mode =
     \<lparr>wd_store = failing_ops, wd_policies = [(demo_policy HardLimitOnly)\<lparr>bp_fail_mode := mode\<rparr>],
      wd_clock = system_clock, wd_reservation_ttl = default_reservation_ttl\<rparr>"

theorem store_failure_by_mode_witness:
  "reserve utc_chrono (failing_warden Closed) demo_now (demo_request 3 Normal None) () = (Err StoreUnavailableError, [], ())
   \<and> (\<exists>q us events. reserve utc_chrono (failing_warden Open) demo_now (demo_request 3 Normal None) () =
        (Ok (AllowLive q us), events, ()))"
proof -
  have find: "registry_find (wd_policies (failing_warden mode)) (rq_key (demo_request 3 Normal None)) =
      Some ((demo_policy HardLimitOnly)\<lparr>bp_fail_mode := mode\<rparr>)" for mode
    by (simp add: registry_find_def failing_warden_def demo_policy_def demo_pattern_def demo_request_def
        demo_key_def pattern_matches_def)
  have unit: "rq_unit (demo_request 3 Normal None) = bp_unit ((demo_policy HardLimitOnly)\<lparr>bp_fail_mode := mode\<rparr>)" for mode
    by (simp add: demo_request_def demo_policy_def)
  have bounds: "bounds_at utc_chrono (bp_window ((demo_policy HardLimitOnly)\<lparr>bp_fail_mode := mode\<rparr>))
      (wd_clock (failing_warden mode) demo_now) = Ok demo_window" for mode
    by (simp add: demo_policy_def failing_warden_def) code_simp
  have usage: "st_usage (wd_store (failing_warden mode)) k w t () = (Err StUnavailable, ())" for mode k w t
    by (simp add: failing_warden_def failing_ops_def)
  have expiry: "ch_add utc_chrono (wd_clock (failing_warden mode) demo_now) (duration_seconds 1) =
      Some (demo_now + duration_seconds 1)" for mode
    by (simp add: failing_warden_def) code_simp
  show ?thesis
    using store_failure_by_mode [OF find unit bounds usage expiry, of Closed, THEN conjunct2]
      store_failure_by_mode [OF find unit bounds usage expiry, of Open, THEN conjunct2] by auto
qed

section \<open>Usage and reports\<close>

text \<open>
  A faithful snapshot of a policy and a key at an instant: its window is the policy's at that instant, its
  usage what the counter of that key and window holds in the in-memory store, and its other numbers those
  of the policy and of its evaluation on that usage.
\<close>

definition describes ::
    "('tz, 'more) chrono_scheme \<Rightarrow> datetime \<Rightarrow> memory_store \<Rightarrow> budget_policy \<Rightarrow> budget_key \<Rightarrow> usage_snapshot \<Rightarrow> bool" where
  "describes lib now m p k us \<longleftrightarrow>
     (\<exists>w. bounds_at lib (bp_window p) now = Ok w
      \<and> us_window_start us = wb_start w \<and> us_window_end us = wb_end w \<and> us_resets_at us = wb_end w
      \<and> unat (us_used us) = mem_level m (counter_key_new (policy_store_key p k) w)
      \<and> us_safe_to_spend_now us = pe_safe_to_spend_now (evaluate_policy lib p (us_used us) 0 Normal w now)
      \<and> us_reserved_remaining us = pe_reserved_remaining (evaluate_policy lib p (us_used us) 0 Normal w now)
      \<and> us_ahead_of_pace us = pe_ahead_of_pace (evaluate_policy lib p (us_used us) 0 Normal w now))
   \<and> us_policy_name us = bp_name p \<and> us_key us = k \<and> us_unit us = bp_unit p
   \<and> us_hard_limit us = bp_hard_limit p
   \<and> unat (us_remaining_hard us) = unat (bp_hard_limit p) - unat (us_used us)"

definition clean_at :: "datetime \<Rightarrow> memory_store \<Rightarrow> bool" where
  "clean_at now m \<longleftrightarrow> mem_wf m \<and> cleanup_expired now (mem_state m) = mem_state m"

lemma memory_usage_clean:
  assumes "mem_wf m" "memory_usage k w now m = (Ok u, m1)"
  shows "clean_at now m1 \<and> (clean_at now m \<longrightarrow> m1 = m)"
proof -
  have "mem_inv (mem_state m)" "mem_wf m1"
    using assms memory_usage_wf_level [OF assms(1), of k w now] by (simp_all add: mem_wf_def)
  moreover have m1: "mem_state m1 = cleanup_expired now (mem_state m)" "\<not> mem_poisoned m" "\<not> mem_poisoned m1"
    using with_lock_Ok [OF assms(2) [unfolded memory_usage_def]] by (auto simp: usage_locked_def Let_def)
  ultimately have "clean_at now m1" by (simp add: clean_at_def cleanup_again)
  moreover have "m1 = m" if "clean_at now m"
    using that m1 by (cases m; cases m1) (simp add: clean_at_def)
  ultimately show ?thesis by simp
qed

lemma policy_usage_describes:
  assumes "wd_store wd = memory_ops lib" "mem_wf m" "policy_usage lib wd p k now m = (Ok us, m1)"
  shows "describes lib now m1 p k us \<and> clean_at now m1 \<and> (clean_at now m \<longrightarrow> m1 = m)"
proof -
  obtain w u where w: "bounds_at lib (bp_window p) now = Ok w"
    and u: "memory_usage (policy_store_key p k) w now m = (Ok u, m1)"
    and us: "us = snapshot p k (cu_used u) (evaluate_policy lib p (cu_used u) 0 Normal w now) w"
    using assms(1,3) by (auto simp: policy_usage_def split: outcome.splits prod.splits)
  show ?thesis
    using memory_usage_clean [OF assms(2) u] memory_usage_reports [OF assms(2) u] w
    by (simp add: describes_def us snapshot_def unat_sat_sub)
qed

lemma report_loop_describes:
  assumes "wd_store wd = memory_ops lib" "mem_wf m" "report_loop lib wd now ps acc m = (Ok snaps, m')"
  shows "(clean_at now m \<longrightarrow> m' = m)
    \<and> (\<exists>news. snaps = acc @ news \<and> list_all2 (\<lambda>p. describes lib now m' p (report_key (bp_key p))) ps news)"
  using assms(2,3)
proof (induction ps arbitrary: acc m)
  case (Cons p ps)
  obtain x m1 where one: "policy_usage lib wd p (report_key (bp_key p)) now m = (x, m1)" by fastforce
  with Cons.prems(2) obtain us where us: "x = Ok us" "report_loop lib wd now ps (acc @ [us]) m1 = (Ok snaps, m')"
    by (cases x) auto
  note this_one = policy_usage_describes [OF assms(1) Cons.prems(1) one [unfolded us(1)]]
  then have "mem_wf m1" by (simp add: clean_at_def)
  note rest = Cons.IH [OF this us(2)]
  then have m': "m' = m1" using this_one by blast
  obtain news where news: "snaps = (acc @ [us]) @ news"
    "list_all2 (\<lambda>p. describes lib now m' p (report_key (bp_key p))) ps news"
    using rest by blast
  then have "snaps = acc @ (us # news)
      \<and> list_all2 (\<lambda>p. describes lib now m' p (report_key (bp_key p))) (p # ps) (us # news)"
    using this_one m' by simp
  then show ?case using this_one m' by blast
qed simp

text \<open>C33: over the in-memory store, a report that succeeds holds one snapshot for each configured policy, in
  their order, each with the policy's window at the instant of the report and the units its key's counter
  then holds, and with the limits, remaining units and pace that follow; it only reads the store.\<close>

theorem report_covers_policies:
  assumes "wd_store wd = memory_ops lib" "mem_wf m" "broker_report lib wd t m = (Ok rep, events, m')"
  shows "br_generated_at rep = wd_clock wd t
    \<and> list_all2 (\<lambda>p. describes lib (wd_clock wd t) m' p (report_key (bp_key p))) (wd_policies wd) (br_budgets rep)
    \<and> events = [] \<and> only_reads (wd_store wd) m m'"
proof -
  obtain x where loop: "report_loop lib wd (wd_clock wd t) (wd_policies wd) [] m = (x, m')"
    "and_then x (\<lambda>snaps. Ok (budget_report_new (wd_clock wd t) snaps)) = Ok rep" "events = []"
    using assms(3) by (auto simp: broker_report_def Let_def split: prod.splits)
  then obtain snaps where "x = Ok snaps" "rep = budget_report_new (wd_clock wd t) snaps" by auto
  with loop report_loop_describes [OF assms(1,2), of "wd_clock wd t" "wd_policies wd" "[]" snaps m']
    report_loop_reads [of wd m lib "wd_clock wd t" "wd_policies wd" "[]"]
  show ?thesis by (simp add: budget_report_new_def)
qed

text \<open>A warden with a policy for exactly the key of the requests, and one with wildcards.\<close>

definition demo_reported :: "memory_store budget_warden" where
  "demo_reported = (demo_warden HardLimitOnly)
     \<lparr>wd_policies := [(demo_policy HardLimitOnly)\<lparr>bp_key := \<lparr>kp_provider = ''serpapi'', kp_domain = Some ''search'',
         kp_resource = Some ''google'', kp_subject = Some ''global''\<rparr>\<rparr>, (demo_policy HardLimitOnly)\<lparr>bp_name := ''any''\<rparr>]\<rparr>"

theorem report_covers_policies_witness:
  "case broker_report utc_chrono demo_reported demo_now demo_store of
     (Ok rep, events, m') \<Rightarrow>
       list_all2 (\<lambda>p. describes utc_chrono demo_now m' p (report_key (bp_key p))) (wd_policies demo_reported) (br_budgets rep)
     \<and> map us_used (br_budgets rep) = [3, 0]
   | _ \<Rightarrow> False"
proof -
  have used: "case fst (broker_report utc_chrono demo_reported demo_now demo_store) of
      Ok rep \<Rightarrow> map us_used (br_budgets rep) = [3, 0] | _ \<Rightarrow> False"
    by code_simp
  obtain x events m' where run: "broker_report utc_chrono demo_reported demo_now demo_store = (x, events, m')"
    by (metis prod_cases3)
  have "wd_store demo_reported = memory_ops utc_chrono" "wd_clock demo_reported demo_now = demo_now"
    by (simp_all add: demo_reported_def demo_warden_def system_clock_def)
  with used run report_covers_policies [of demo_reported utc_chrono demo_store demo_now _ events m'] demo_store_wf
  show ?thesis by (cases x) auto
qed

text \<open>A policy with wildcards is reported under the literal key \<open>*\<close>, whose counter no request
  uses, so the report shows nothing of the three units its requests have reserved.\<close>

theorem wildcard_report_misses_usage:
  "(case fst (broker_report utc_chrono (demo_warden HardLimitOnly) demo_now demo_store) of
      Ok rep \<Rightarrow> map us_used (br_budgets rep) = [0] \<and> map (bk_domain \<circ> us_key) (br_budgets rep) = [''*'']
    | _ \<Rightarrow> False)
   \<and> (case fst (broker_usage utc_chrono (demo_warden HardLimitOnly) demo_now (usage_query_new demo_key) demo_store) of
      Ok us \<Rightarrow> us_used us = 3 | _ \<Rightarrow> False)"
  by (rule conjI) code_simp+

text \<open>An exhausted budget is denied with the low-budget action when one is set, although another
  action is configured for exhaustion.\<close>

theorem exhausted_budget_recommends_low_action:
  "(case fst (reserve utc_chrono (demo_warden HardLimitOnly) demo_now (demo_request 8 Normal None) demo_store) of
      Ok (DenyLive reason us action) \<Rightarrow> reason = HardLimitReached \<and> action = UseStaleCache
    | _ \<Rightarrow> False)
   \<and> bp_exhausted_action (demo_policy HardLimitOnly) = Reject"
  by (rule conjI) code_simp+

end
