(* ===== verification/Broker_Decisions.thy ===== *)
theory Broker_Decisions
  imports Fixtures
begin

text \<open>
  What a single operation of the broker decides: the policy it selects, the decision of \<open>reserve\<close>
  and \<open>authorize\<close> on the in-memory store, store failures, usage and reports.
\<close>

section \<open>The decision of a reserve\<close>

text \<open>
  A request the store is asked to reserve for right after its usage at the same instant: the numbers the
  broker works with, and the reservation they lead to.
\<close>

lemma reserve_after_usage:
  assumes "mem_wf m" "memory_usage (rr_key r) (rr_window r) (rr_now r) m = (Ok u, m1)"
    and "reserve_request_validate r = Ok ()"
    and "key_unused (counter_key_new (rr_key r) (rr_window r)) (rr_idempotency_key r) (mem_state m)"
    and "rr_effective_limit r < u64_max" "sat_add (cu_used u) (rr_amount r) \<le> rr_effective_limit r"
    and "ms_next_id (mem_state m) < u64_max" "ch_add lib (rr_now r) (rr_reservation_ttl r) = Some e"
  obtains rid u' m2 where
    "memory_reserve_if_allowed lib r m1 = (Ok (srr_allow (store_reservation_new rid e) u'), m2)"
    "unat (cu_used u') = unat (cu_used u) + unat (rr_amount r)"
    "unat (ms_next_id (mem_state m2)) = unat (ms_next_id (mem_state m)) + 1"
    "rr_idempotency_key r = None \<Longrightarrow> ms_idempotency (mem_state m2) = ms_idempotency (mem_state m)"
proof -
  let ?k = "counter_key_new (rr_key r) (rr_window r)" and ?s = "mem_state m1"
  have inv0: "mem_inv (mem_state m)" using assms(1) by (simp add: mem_wf_def)
  have u: "u = usage_for_counter ?s ?k" "?s = cleanup_expired (rr_now r) (mem_state m)" "\<not> mem_poisoned m1"
    using with_lock_Ok [OF assms(2) [unfolded memory_usage_def]] by (auto simp: usage_locked_def Let_def)
  have clean: "cleanup_expired (rr_now r) ?s = ?s" unfolding u(2) by (rule cleanup_again [OF inv0])
  have inv: "mem_inv ?s" unfolding u(2) by (rule cleanup_inv [OF inv0])
  have unused: "key_unused ?k (rr_idempotency_key r) ?s" using assms(4) by (simp add: u(2))
  show ?thesis
  proof (cases rule: reserve_locked_cases [of r ?s lib])
    case (allowed n t v s')
    have "mem_inv s'" "unat (cu_used v) = held ?k s'"
      using reserve_locked_inv_level [OF inv assms(5), of lib] reserve_locked_reports [OF inv assms(5) allowed(5)]
        allowed(5) by (simp_all add: srr_allow_def)
    moreover have "hm_get (ms_reservations (?s\<lparr>ms_next_id := n\<rparr>)) (ReservationId n) = None"
      using next_id_fresh [OF inv, of n] allowed(1) clean by simp
    then have "held ?k s' = held ?k ?s + unat (rr_amount r)"
      using held_insert [of "?s\<lparr>ms_next_id := n\<rparr>" "ReservationId n" ?k r ?k t] allowed(4) clean by simp
    ultimately have "unat (cu_used v) = unat (cu_used u) + unat (rr_amount r)"
      using used_exact [OF inv, of ?k] u(1) by simp
    moreover have s': "s' = snd (insert_reservation r ?k (ReservationId n) t (?s\<lparr>ms_next_id := n\<rparr>))"
      using allowed(4) clean by simp
    moreover have "unat (ms_next_id s') = unat (ms_next_id (mem_state m)) + 1"
      using allowed(1) by (simp add: s' u(2) insert_reservation_simps)
    moreover have "rr_idempotency_key r = None \<Longrightarrow> ms_idempotency s' = ms_idempotency (mem_state m)"
      by (simp add: s' u(2) insert_reservation_simps)
    moreover have "memory_reserve_if_allowed lib r m1 =
        (Ok (srr_allow (store_reservation_new (ReservationId n) e) v), \<lparr>mem_state = s', mem_poisoned = False\<rparr>)"
      using allowed(2,5) assms(3,8) u(3)
      by (simp add: memory_reserve_if_allowed_def with_lock_def write_state_def del: reserve_request_validate_Ok)
    ultimately show ?thesis by (intro that [of "ReservationId n" v "\<lparr>mem_state = s', mem_poisoned = False\<rparr>"]) simp_all
  next
    case denied
    then show ?thesis using assms(6) u(1) clean by simp
  next
    case reserve_overflow
    then show ?thesis using assms(7) clean u(2) by (simp add: word_less_nat_alt unat_u64_max)
  qed (use unused clean assms(8) in \<open>simp_all add: key_unused_def\<close>)
qed

text \<open>Asking twice at one instant, and a reserve whose store call succeeds.\<close>

lemma usage_again:
  assumes "mem_wf m" "memory_usage k w t m = (Ok u, m1)"
  shows "memory_usage k w t m1 = (Ok u, m1)"
proof -
  have "mem_inv (mem_state m)" using assms(1) by (simp add: mem_wf_def)
  moreover have m1: "mem_state m1 = cleanup_expired t (mem_state m)"
    "u = usage_for_counter (mem_state m1) (counter_key_new k w)" "\<not> mem_poisoned m1"
    using with_lock_Ok [OF assms(2) [unfolded memory_usage_def]] by (auto simp: usage_locked_def Let_def)
  ultimately have "cleanup_expired t (mem_state m1) = mem_state m1" by (simp add: cleanup_again)
  with m1(2,3) show ?thesis by (cases m1) (simp add: memory_usage_def with_lock_def write_state_def usage_locked_def Let_def)
qed

lemma finish_with_store:
  assumes "st_reserve_if_allowed (wd_store wd) (pr_store_request q) s = (Ok (srr_allow (store_reservation_new rid e) x), s')"
  shows "\<exists>v us events. reserve_finish lib wd q s = (Ok (AllowLive v us), events, s')
    \<and> rs_attached v \<and> rs_id v = rid \<and> rs_amount v = rq_amount (pr_request q) \<and> rs_expires_at v = e
    \<and> us_used us = cu_used x"
  using assms by (simp add: reserve_finish_def reserve_reply_def Let_def with_state_def srr_allow_def
      store_reservation_new_def budget_reservation_new_def snapshot_def)

text \<open>
  A request that passes the evaluation, all the way: the store reserves the amount, the snapshot counts it,
  and so does the usage asked for at the same instant afterwards.
\<close>

lemma reserve_admitted:
  assumes "chrono_laws lib" "mem_wf m" "wd_store wd = memory_ops lib" "warden_wf wd"
    and "registry_find (wd_policies wd) (rq_key r) = Some p" "bp_hard_limit p < u64_max"
    and "rq_unit r = bp_unit p" "rq_amount r \<noteq> 0"
    and "key_unused (counter_key_new (policy_store_key p (rq_key r)) w) (rq_idempotency_key r) (mem_state m)"
    and "bounds_at lib (bp_window p) (wd_clock wd t) = Ok w"
    and "ch_add lib (wd_clock wd t) (wd_reservation_ttl wd) = Some e"
    and "ms_next_id (mem_state m) < u64_max"
    and "memory_usage (policy_store_key p (rq_key r)) w (wd_clock wd t) m = (Ok u, m1)"
    and "pe_denial_reason (evaluate_policy lib p (cu_used u) (rq_amount r) (rq_priority r) w (wd_clock wd t)) = None"
  obtains q v us events m2 u2 where
    "reserve_begin lib wd t r m = (Suspended q, m1)"
    "reserve_finish lib wd q m1 = (Ok (AllowLive v us), events, m2)"
    "rs_attached v" "rs_amount v = rq_amount r" "rs_expires_at v = e"
    "unat (us_used us) = unat (cu_used u) + unat (rq_amount r)"
    "memory_usage (policy_store_key p (rq_key r)) w (wd_clock wd t) m2 = (Ok u2, m2)" "cu_used u2 = us_used us"
    "mem_wf m2" "unat (ms_next_id (mem_state m2)) = unat (ms_next_id (mem_state m)) + 1"
    "rq_idempotency_key r = None \<Longrightarrow> ms_idempotency (mem_state m2) = ms_idempotency (mem_state m)"
    "\<And>i req. rq_idempotency_key r = Some i \<Longrightarrow> rr_key req = policy_store_key p (rq_key r) \<Longrightarrow> rr_window req = w \<Longrightarrow>
       rr_now req = wd_clock wd t \<Longrightarrow> rr_idempotency_key req = Some i \<Longrightarrow> reserve_request_validate req = Ok () \<Longrightarrow>
       \<exists>x. memory_reserve_if_allowed lib req m2 = (Ok (srr_allow (store_reservation_new (rs_id v) e) x), m2)"
proof -
  let ?now = "wd_clock wd t" and ?key = "policy_store_key p (rq_key r)"
  let ?ev = "evaluate_policy lib p (cu_used u) (rq_amount r) (rq_priority r) w ?now"
  let ?r = "\<lparr>rr_key = ?key, rr_amount = rq_amount r, rr_hard_limit = bp_hard_limit p,
      rr_effective_limit = pe_effective_limit ?ev, rr_reservation_ttl = wd_reservation_ttl wd,
      rr_window = w, rr_idempotency_key = rq_idempotency_key r, rr_now = ?now\<rparr>"
  let ?q = "\<lparr>pr_policy = p, pr_request = r, pr_now = ?now, pr_window = w, pr_store_request = ?r\<rparr>"
  have limit: "pe_effective_limit ?ev \<le> bp_hard_limit p" by (rule effective_limit_le_hard_limit)
  then have exact: "rr_effective_limit ?r < u64_max" using assms(6) by (simp add: order.strict_trans1)
  have valid: "reserve_request_validate ?r = Ok ()" using limit assms(4,8) by (simp add: warden_wf_def)
  have first: "reserve_begin lib wd t r m = (Suspended ?q, m1)"
    using begin_with_usage [OF assms(5,7,10), of m u m1] assms(3,13,14) by simp
  obtain rid x m2 where
    store: "memory_reserve_if_allowed lib ?r m1 = (Ok (srr_allow (store_reservation_new rid e) x), m2)"
    and used: "unat (cu_used x) = unat (cu_used u) + unat (rq_amount r)"
    and rest: "unat (ms_next_id (mem_state m2)) = unat (ms_next_id (mem_state m)) + 1"
      "rq_idempotency_key r = None \<Longrightarrow> ms_idempotency (mem_state m2) = ms_idempotency (mem_state m)"
    by (rule reserve_after_usage [OF assms(2), of ?r u m1 lib e])
      (use assms(9,11-13) valid exact allowed_fits_effective_limit [OF assms(14)] in simp_all)
  have wf1: "mem_wf m1" using memory_usage_wf_level [OF assms(2), of ?key w ?now] assms(13) by simp
  obtain u2 where u2: "memory_usage ?key w ?now m2 = (Ok u2, m2)" "cu_used u2 = cu_used x"
    by (rule usage_after_reserve [OF assms(1) wf1 exact store]) (simp add: srr_allow_def)
  obtain v us events where second: "reserve_finish lib wd ?q m1 = (Ok (AllowLive v us), events, m2)"
    and v: "rs_attached v" "rs_id v = rid" "rs_amount v = rq_amount r" "rs_expires_at v = e" "us_used us = cu_used x"
    using finish_with_store [of wd ?q m1 rid e x m2 lib] store assms(3) by auto
  have replay: "\<exists>x. memory_reserve_if_allowed lib req m2 = (Ok (srr_allow (store_reservation_new (rs_id v) e) x), m2)"
    if "rq_idempotency_key r = Some i" "rr_key req = ?key" "rr_window req = w" "rr_now req = ?now"
      "rr_idempotency_key req = Some i" "reserve_request_validate req = Ok ()" for i req
    using reserve_replayed [OF assms(1) wf1 exact _ store _ that(6)] that
    by (simp add: srr_allow_def v(2))
  show ?thesis
    by (rule that [OF first second _ _ _ _ u2(1) _ _ rest replay])
      (use used u2(2) v reserve_leaves_clean [OF assms(1) wf1 exact store] in simp_all)
qed

text \<open>C7: run without interruption over the in-memory store, under a policy with a hard limit below \<open>u64::MAX\<close>,
  a reserve that is the first under its idempotency key, or has none, decides exactly by the decision
  table on the units used at that instant: it allows with a live reservation that counts the request,
  expiring after the time to live, or denies with the table's reason.\<close>

theorem reserve_decides_by_table:
  assumes "chrono_laws lib" "mem_wf m" "wd_store wd = memory_ops lib" "warden_wf wd"
    and "registry_find (wd_policies wd) (rq_key r) = Some p" "bp_hard_limit p < u64_max"
    and "rq_unit r = bp_unit p" "rq_amount r \<noteq> 0"
    and "key_unused (counter_key_new (policy_store_key p (rq_key r)) w) (rq_idempotency_key r) (mem_state m)"
    and "bounds_at lib (bp_window p) (wd_clock wd t) = Ok w"
    and "ch_add lib (wd_clock wd t) (wd_reservation_ttl wd) = Some e"
    and "ms_next_id (mem_state m) < u64_max"
    and "memory_usage (policy_store_key p (rq_key r)) w (wd_clock wd t) m = (Ok u, m1)"
  shows "case fst (reserve lib wd t r m) of
      Ok (AllowLive v us) \<Rightarrow>
        denial_spec lib p (unat (cu_used u) + unat (rq_amount r)) (rq_priority r) w (wd_clock wd t) = None
      \<and> rs_attached v \<and> rs_amount v = rq_amount r \<and> rs_expires_at v = e
      \<and> unat (us_used us) = unat (cu_used u) + unat (rq_amount r)
    | Ok (DenyLive reason us action) \<Rightarrow>
        denial_spec lib p (unat (cu_used u) + unat (rq_amount r)) (rq_priority r) w (wd_clock wd t) = Some reason
      \<and> us_used us = cu_used u
    | _ \<Rightarrow> False"
proof -
  let ?ev = "evaluate_policy lib p (cu_used u) (rq_amount r) (rq_priority r) w (wd_clock wd t)"
  note spec = evaluate_policy_spec [OF assms(1,6), of "cu_used u" "rq_amount r" "rq_priority r" w "wd_clock wd t", symmetric]
  show ?thesis
  proof (cases "pe_denial_reason ?ev")
    case (Some reason)
    then show ?thesis
      using begin_with_usage [OF assms(5,7,10), of m u m1] assms(3,13)
      by (simp add: reserve_def spec deny_def snapshot_def)
  next
    case None
    show ?thesis
      by (rule reserve_admitted [OF assms None]) (use None in \<open>simp add: reserve_def spec\<close>)
  qed
qed

lemma demo_find: "registry_find (wd_policies (demo_warden s)) demo_key = Some (demo_policy s)"
  by (simp add: registry_find_def demo_warden_def demo_policy_def demo_pattern_def demo_key_def pattern_matches_def)

lemma demo_bounds: "bounds_at utc_chrono (bp_window (demo_policy s)) demo_now = Ok demo_window"
  by (simp add: demo_policy_def) code_simp

lemma demo_expiry: "ch_add utc_chrono demo_now default_reservation_ttl = Some (demo_now + duration_minutes 5)"
  by code_simp

lemma demo_usage:
  "memory_usage (policy_store_key (demo_policy s) demo_key) demo_window demo_now demo_store =
     (Ok \<lparr>cu_committed = 0, cu_reserved = 3\<rparr>, demo_store)"
proof -
  have "policy_store_key (demo_policy s) demo_key = demo_store_key"
    by (simp add: policy_store_key_def demo_policy_def demo_store_key_def)
  then show ?thesis by (simp add: demo_store_usage)
qed

lemma demo_premises:
  "wd_store (demo_warden s) = memory_ops utc_chrono" "warden_wf (demo_warden s)"
  "bp_hard_limit (demo_policy s) < u64_max" "rq_unit (demo_request a prio i) = bp_unit (demo_policy s)"
  "wd_clock (demo_warden s) t = t" "wd_reservation_ttl (demo_warden s) = default_reservation_ttl"
  "rq_key (demo_request a prio i) = demo_key" "rq_amount (demo_request a prio i) = a"
  "rq_priority (demo_request a prio i) = prio" "rq_idempotency_key (demo_request a prio i) = i"
  by (simp_all add: demo_warden_def warden_wf_def demo_policy_def u64_max_def demo_request_def
      system_clock_def default_reservation_ttl_def duration_defs)

theorem reserve_decides_by_table_witness:
  "case fst (reserve utc_chrono (demo_warden HardLimitOnly) demo_now (demo_request 8 Normal None) demo_store) of
      Ok (AllowLive v us) \<Rightarrow> False
    | Ok (DenyLive reason us action) \<Rightarrow> reason = HardLimitReached \<and> us_used us = 3
    | _ \<Rightarrow> False"
proof -
  let ?u = "\<lparr>cu_committed = 0, cu_reserved = 3\<rparr> :: counter_usage"
  have used: "cu_used ?u = 3" by code_simp
  have "ms_next_id (mem_state demo_store) < u64_max" by code_simp
  with reserve_decides_by_table [OF utc_chrono_laws demo_store_wf demo_premises(1,2), where r = "demo_request 8 Normal None"
      and p = "demo_policy HardLimitOnly" and t = demo_now and w = demo_window
      and e = "demo_now + duration_minutes 5" and u = ?u and ?m1.0 = demo_store and s1 = HardLimitOnly]
  show ?thesis
    unfolding demo_premises
    by (simp add: demo_premises demo_find demo_bounds demo_expiry demo_usage used denial_spec_def
        split: outcome.splits budget_decision.splits) (auto simp: demo_policy_def)
qed

text \<open>C30: over every store that keeps the contract (the four of this crate do, within their limits), when the
  store reports the usage and the policy's hard limit is below \<open>u64::MAX\<close>, \<open>authorize\<close> decides by the same
  table without reserving: it only asks for the usage, raises no counter, and the reservation it returns
  is a preview, which can be neither committed nor refunded.\<close>

theorem authorize_decides_without_reserving:
  assumes "chrono_laws lib" "budget_store (wd_store wd) good slot level fit" "good s"
    and "registry_find (wd_policies wd) (rq_key r) = Some p" "bp_hard_limit p < u64_max"
    and "rq_unit r = bp_unit p" "bounds_at lib (bp_window p) (wd_clock wd t) = Ok w"
    and "ch_add lib (wd_clock wd t) (wd_reservation_ttl wd) = Some e"
    and "st_usage (wd_store wd) (policy_store_key p (rq_key r)) w (wd_clock wd t) s = (Ok u, s1)"
  shows "snd (snd (authorize lib wd t r s)) = s1 \<and> level s1 c \<le> level s c
    \<and> (case fst (authorize lib wd t r s) of
        Ok (AllowLive q us) \<Rightarrow>
          denial_spec lib p (unat (cu_used u) + unat (rq_amount r)) (rq_priority r) w (wd_clock wd t) = None
        \<and> us_used us = cu_used u
        \<and> reservation_commit (wd_store wd) t' q s1 = (Err ReservationNotFoundError, [], s1)
        \<and> reservation_refund (wd_store wd) t' q s1 = (Err ReservationNotFoundError, [], s1)
      | Ok (DenyLive reason us action) \<Rightarrow>
          denial_spec lib p (unat (cu_used u) + unat (rq_amount r)) (rq_priority r) w (wd_clock wd t) = Some reason
        \<and> us_used us = cu_used u
      | _ \<Rightarrow> False)"
proof -
  let ?now = "wd_clock wd t"
  have enter: "broker_enter lib wd t r s = (Entered p ?now w u, s1)"
    using enter_with_usage [OF assms(4,6,7), of s "Ok u" s1] assms(9) by simp
  note spec = evaluate_policy_spec [OF assms(1,5), of "cu_used u" "rq_amount r" "rq_priority r" w ?now, symmetric]
  have "level s1 c \<le> level s c"
    using budget_store.usage_level [OF assms(2,3), of "policy_store_key p (rq_key r)" w ?now c] assms(9) by simp
  then show ?thesis
    by (simp add: authorize_def enter Let_def spec deny_def snapshot_def assms(8) reservation_commit_def
        reservation_refund_def budget_reservation_preview_def split: option.split)
qed

theorem authorize_decides_without_reserving_witness:
  "snd (snd (authorize utc_chrono (demo_warden HardLimitOnly) demo_now (demo_request 7 Normal None) demo_store)) = demo_store
   \<and> denial_spec utc_chrono (demo_policy HardLimitOnly) 10 Normal demo_window demo_now = None"
proof -
  have "budget_store (wd_store (demo_warden HardLimitOnly)) mem_wf counter_key_new mem_level exact_request"
    unfolding demo_premises by (rule memory.budget_store_axioms)
  note authorized = authorize_decides_without_reserving [OF utc_chrono_laws this demo_store_wf,
      where r = "demo_request 7 Normal None" and p = "demo_policy HardLimitOnly" and t = demo_now
        and w = demo_window and e = "demo_now + duration_minutes 5"]
  have "snd (snd (authorize utc_chrono (demo_warden HardLimitOnly) demo_now (demo_request 7 Normal None) demo_store)) = demo_store"
    using authorized by (simp add: demo_premises demo_find demo_bounds demo_expiry demo_usage)
  then show ?thesis by (simp add: denial_spec_def demo_policy_def)
qed

section \<open>Repeated requests\<close>

text \<open>C38: over the in-memory store, when a request under a fresh idempotency key is allowed and the units then
  used leave no room for a second one of its size, repeating it at once is denied as exceeding the hard
  limit, because the evaluation already counts the first attempt, although the store, asked under the
  same key, returns the reservation of the first attempt as allowed.\<close>

theorem idempotent_retry_denied:
  assumes "chrono_laws lib" "mem_wf m" "wd_store wd = memory_ops lib" "warden_wf wd"
    and "registry_find (wd_policies wd) (rq_key r) = Some p" "bp_hard_limit p < u64_max"
    and "rq_unit r = bp_unit p" "rq_amount r \<noteq> 0"
    and "rq_idempotency_key r = Some i"
      "key_unused (counter_key_new (policy_store_key p (rq_key r)) w) (Some i) (mem_state m)"
    and "bounds_at lib (bp_window p) (wd_clock wd t) = Ok w"
    and "ch_add lib (wd_clock wd t) (wd_reservation_ttl wd) = Some e"
    and "ms_next_id (mem_state m) < u64_max"
    and "memory_usage (policy_store_key p (rq_key r)) w (wd_clock wd t) m = (Ok u, m1)"
    and "denial_spec lib p (unat (cu_used u) + unat (rq_amount r)) (rq_priority r) w (wd_clock wd t) = None"
    and "unat (bp_hard_limit p) < unat (cu_used u) + 2 * unat (rq_amount r)"
    and "reserve_request_validate req = Ok ()" "rr_key req = policy_store_key p (rq_key r)" "rr_window req = w"
      "rr_now req = wd_clock wd t" "rr_idempotency_key req = Some i"
  shows "\<exists>v us events m2. reserve lib wd t r m = (Ok (AllowLive v us), events, m2) \<and> rs_attached v
    \<and> (\<exists>us' action events'. reserve lib wd t r m2 = (Ok (DenyLive HardLimitReached us' action), events', m2))
    \<and> (\<exists>x. memory_reserve_if_allowed lib req m2 = (Ok (srr_allow (store_reservation_new (rs_id v) (rs_expires_at v)) x), m2))"
proof -
  have none: "pe_denial_reason (evaluate_policy lib p (cu_used u) (rq_amount r) (rq_priority r) w (wd_clock wd t)) = None"
    using assms(15) by (simp add: evaluate_policy_spec [OF assms(1,6)])
  obtain q v us events m2 u2 where first: "reserve_begin lib wd t r m = (Suspended q, m1)"
      "reserve_finish lib wd q m1 = (Ok (AllowLive v us), events, m2)" "rs_attached v" "rs_expires_at v = e"
    and used: "unat (us_used us) = unat (cu_used u) + unat (rq_amount r)" "cu_used u2 = us_used us"
    and u2: "memory_usage (policy_store_key p (rq_key r)) w (wd_clock wd t) m2 = (Ok u2, m2)"
    and replay: "\<exists>x. memory_reserve_if_allowed lib req m2 = (Ok (srr_allow (store_reservation_new (rs_id v) e) x), m2)"
    by (rule reserve_admitted [OF assms(1-8) _ assms(11-14) none]) (use assms(9,10,17-21) in simp_all)
  have "pe_denial_reason (evaluate_policy lib p (cu_used u2) (rq_amount r) (rq_priority r) w (wd_clock wd t)) = Some HardLimitReached"
    using assms(16) used by (simp add: evaluate_policy_spec [OF assms(1,6)] denial_spec_def)
  then have "\<exists>us' action events'. reserve lib wd t r m2 = (Ok (DenyLive HardLimitReached us' action), events', m2)"
    using begin_with_usage [OF assms(5,7,11), of m2 u2 m2] assms(3) u2 by (simp add: reserve_def deny_def)
  moreover have "reserve lib wd t r m = (Ok (AllowLive v us), events, m2)"
    using first(1,2) by (simp add: reserve_def)
  ultimately show ?thesis using first(3,4) replay by auto
qed

theorem idempotent_retry_denied_witness:
  "\<exists>v us events m2. reserve utc_chrono (demo_warden HardLimitOnly) demo_now (demo_request 4 Normal (Some (IdempotencyKey ''retry''))) demo_store
      = (Ok (AllowLive v us), events, m2)
    \<and> (\<exists>us' action events'. reserve utc_chrono (demo_warden HardLimitOnly) demo_now
          (demo_request 4 Normal (Some (IdempotencyKey ''retry''))) m2 = (Ok (DenyLive HardLimitReached us' action), events', m2))"
proof -
  let ?u = "\<lparr>cu_committed = 0, cu_reserved = 3\<rparr> :: counter_usage" and ?i = "IdempotencyKey ''retry''"
  let ?req = "(demo_reserve 4 10 (Some ?i))"
  have used: "cu_used ?u = 3" by code_simp
  have key: "policy_store_key (demo_policy HardLimitOnly) demo_key = demo_store_key"
    by (simp add: policy_store_key_def demo_policy_def demo_store_key_def)
  have "ms_next_id (mem_state demo_store) < u64_max"
    "key_unused (counter_key_new demo_store_key demo_window) (Some ?i) (mem_state demo_store)"
    "reserve_request_validate ?req = Ok ()" by code_simp+
  moreover have "denial_spec utc_chrono (demo_policy HardLimitOnly) 7 Normal demo_window demo_now = None"
    "unat (bp_hard_limit (demo_policy HardLimitOnly)) = 10"
    by (simp_all add: denial_spec_def demo_policy_def)
  moreover have "rr_key ?req = demo_store_key" "rr_window ?req = demo_window" "rr_now ?req = demo_now"
    "rr_idempotency_key ?req = Some ?i" by (simp_all add: demo_reserve_def)
  ultimately show ?thesis
    using idempotent_retry_denied [OF utc_chrono_laws demo_store_wf demo_premises(1,2), where r = "demo_request 4 Normal (Some ?i)"
        and p = "demo_policy HardLimitOnly" and t = demo_now and w = demo_window and i = ?i and req = ?req
        and e = "demo_now + duration_minutes 5" and u = ?u and ?m1.0 = demo_store and s1 = HardLimitOnly]
    unfolding demo_premises
    by (simp add: demo_premises demo_find demo_bounds demo_expiry demo_store_usage used key del: reserve_request_validate_Ok) blast
qed

end
