(* ===== verification/Broker_Races.thy ===== *)
theory Broker_Races
  imports Broker_Decisions
begin

text \<open>
  What holds, and what does not, when several tasks use one warden over the in-memory store at once.
\<close>

section \<open>Safety over interleavings\<close>

text \<open>C1: no interleaving of operations on one warden over the in-memory store, with any number of
  reservations begun and not finished, takes a counter of a policy above its hard limit.\<close>

theorem hard_limit_never_exceeded:
  assumes "warden_build b = Ok wd" "wbd_store b = Some (memory_ops lib)"
    and "list_all (\<lambda>p. bp_hard_limit p < u64_max) (wbd_policies b)"
    and "(broker_step lib wd)\<^sup>*\<^sup>* (run_start memory_store_new) st"
    and "p \<in> set (wbd_policies b)"
  shows "mem_level (run_store st) (counter_key_new (policy_store_key p k) w) \<le> unat (bp_hard_limit p)"
proof -
  have wd: "wd_store wd = memory_ops lib" "warden_wf wd" "limits_exact wd" "wd_policies wd = wbd_policies b"
    using assms(1-3) by (auto elim!: warden_build_OkE simp: limits_exact_def)
  have "run_ok (memory_ops lib) mem_wf counter_key_new mem_level exact_request wd st"
    by (rule memory_runs.run_inv [OF assms(4) run_start_ok [OF wd(1-3)]])
  with assms(5) wd(4) show ?thesis by (simp add: run_ok_def within_limits_def)
qed

lemma demo_warden_built: "warden_build (demo_builder [demo_policy s]) = Ok (demo_warden s)"
  by (simp add: warden_build_def demo_builder_def demo_warden_def registry_new_def unwrap_or_def
      default_reservation_ttl_def duration_defs)

lemma demo_limits: "list_all (\<lambda>p. bp_hard_limit p < u64_max) (wbd_policies (demo_builder [demo_policy s]))"
  by (simp add: demo_builder_def demo_policy_def u64_max_def)

theorem hard_limit_never_exceeded_witness:
  "mem_level (run_store (the (race (demo_warden HardLimitOnly) memory_store_new 6 4))) (counter_key_new (policy_store_key (demo_policy HardLimitOnly) demo_key) demo_window)
     \<le> unat (bp_hard_limit (demo_policy HardLimitOnly))
   \<and> mem_level (run_store (the (race (demo_warden HardLimitOnly) memory_store_new 6 4))) (counter_key_new (policy_store_key (demo_policy HardLimitOnly) demo_key) demo_window) = 10"
proof
  have "race (demo_warden HardLimitOnly) memory_store_new 6 4 \<noteq> None" by code_simp
  then have "(broker_step utc_chrono (demo_warden HardLimitOnly))\<^sup>*\<^sup>* (run_start memory_store_new) (the (race (demo_warden HardLimitOnly) memory_store_new 6 4))"
    by (intro race_runs) simp
  from hard_limit_never_exceeded [OF demo_warden_built _ demo_limits this]
  show "mem_level (run_store (the (race (demo_warden HardLimitOnly) memory_store_new 6 4))) (counter_key_new (policy_store_key (demo_policy HardLimitOnly) demo_key) demo_window)
     \<le> unat (bp_hard_limit (demo_policy HardLimitOnly))" by (simp add: demo_builder_def)
  show "mem_level (run_store (the (race (demo_warden HardLimitOnly) memory_store_new 6 4))) (counter_key_new (policy_store_key (demo_policy HardLimitOnly) demo_key) demo_window) = 10"
    by code_simp
qed

text \<open>C37: over the in-memory store, capacity reserved for higher priorities is not protected against
  interleaving: two requests of one key below the protected priority, each of which fits the unreserved
  capacity while both together do not, are both allowed when the second begins before the first has
  finished, and spend reserved units; begun after the first has finished, the second is denied as
  \<open>ReservedForHigherPriority\<close>.\<close>

theorem reserved_capacity_race:
  assumes "chrono_laws lib" "mem_wf m" "wd_store wd = memory_ops lib" "warden_wf wd"
    and "registry_find (wd_policies wd) k = Some p" "bp_hard_limit p < u64_max" "bp_strategy p = ReserveCapacity s"
    and key: "rq_key r1 = k" "rq_key r2 = k" and unit: "rq_unit r1 = bp_unit p" "rq_unit r2 = bp_unit p"
    and amount: "rq_amount r1 \<noteq> 0" "rq_amount r2 \<noteq> 0"
    and none: "rq_idempotency_key r1 = None" "rq_idempotency_key r2 = None"
    and low: "rq_priority r1 < rc_reserved_for s" "rq_priority r2 < rc_reserved_for s"
    and "bounds_at lib (bp_window p) (wd_clock wd t) = Ok w"
    and "ch_add lib (wd_clock wd t) (wd_reservation_ttl wd) = Some e"
    and ids: "unat (ms_next_id (mem_state m)) < 18446744073709551614"
    and usage: "memory_usage (policy_store_key p k) w (wd_clock wd t) m = (Ok u, m1)"
    and fits: "unat (cu_used u) + unat (rq_amount r1) \<le> unat (bp_hard_limit p) - unat (rc_reserved_units s)"
      "unat (cu_used u) + unat (rq_amount r2) \<le> unat (bp_hard_limit p) - unat (rc_reserved_units s)"
    and both: "unat (bp_hard_limit p) - unat (rc_reserved_units s) < unat (cu_used u) + unat (rq_amount r1) + unat (rq_amount r2)"
      "unat (cu_used u) + unat (rq_amount r1) + unat (rq_amount r2) \<le> unat (bp_hard_limit p)"
  shows "\<exists>q1 q2 v1 v2 us1 us2 events1 events2 m2 m3.
      reserve_begin lib wd t r1 m = (Suspended q1, m1) \<and> reserve_begin lib wd t r2 m1 = (Suspended q2, m1)
    \<and> reserve_finish lib wd q1 m1 = (Ok (AllowLive v1 us1), events1, m2)
    \<and> reserve_finish lib wd q2 m2 = (Ok (AllowLive v2 us2), events2, m3)
    \<and> rs_attached v1 \<and> rs_attached v2
    \<and> unat (us_used us2) = unat (cu_used u) + unat (rq_amount r1) + unat (rq_amount r2)
    \<and> (\<exists>us action events. reserve lib wd t r2 m2 = (Ok (DenyLive ReservedForHigherPriority us action), events, m2))"
proof -
  let ?now = "wd_clock wd t" and ?key = "policy_store_key p k"
  let ?ev = "evaluate_policy lib p (cu_used u) (rq_amount r2) (rq_priority r2) w ?now"
  note spec = evaluate_policy_spec [OF assms(1,6)]
  have pass: "pe_denial_reason (evaluate_policy lib p (cu_used u) (rq_amount r) (rq_priority r) w ?now) = None"
    if "unat (cu_used u) + unat (rq_amount r) \<le> unat (bp_hard_limit p) - unat (rc_reserved_units s)" for r
    using that by (simp add: spec denial_spec_def assms(7) Let_def)
  obtain q1 v1 us1 events1 m2 u2 where first: "reserve_begin lib wd t r1 m = (Suspended q1, m1)"
      "reserve_finish lib wd q1 m1 = (Ok (AllowLive v1 us1), events1, m2)" "rs_attached v1"
    and used: "unat (us_used us1) = unat (cu_used u) + unat (rq_amount r1)"
    and u2: "memory_usage ?key w ?now m2 = (Ok u2, m2)" "cu_used u2 = us_used us1" "mem_wf m2"
      "unat (ms_next_id (mem_state m2)) = unat (ms_next_id (mem_state m)) + 1"
    by (rule reserve_admitted [OF assms(1-4) _ assms(6) unit(1) amount(1) _ assms(18,19) _ _ pass [OF fits(1)], unfolded key])
      (use assms(5) none ids usage in \<open>simp_all add: word_less_nat_alt unat_u64_max\<close>)
  let ?q = "\<lparr>rr_key = ?key, rr_amount = rq_amount r2, rr_hard_limit = bp_hard_limit p, rr_effective_limit = pe_effective_limit ?ev,
      rr_reservation_ttl = wd_reservation_ttl wd, rr_window = w, rr_idempotency_key = None, rr_now = ?now\<rparr>"
  let ?q2 = "\<lparr>pr_policy = p, pr_request = r2, pr_now = ?now, pr_window = w, pr_store_request = ?q\<rparr>"
  have second: "reserve_begin lib wd t r2 m1 = (Suspended ?q2, m1)"
    using begin_with_usage [of wd r2 p lib t w m1 u m1] assms(3,5,18) key(2) unit(2) none(2) pass [OF fits(2)]
      usage_again [OF assms(2) usage] by simp
  have limit: "pe_effective_limit ?ev = bp_hard_limit p"
    using pass [OF fits(2)] by (auto simp: evaluate_defs Let_def assms(7) split: if_splits)
  obtain rid x m3 where store: "memory_reserve_if_allowed lib ?q m2 = (Ok (srr_allow (store_reservation_new rid e) x), m3)"
    and x: "unat (cu_used x) = unat (cu_used u2) + unat (rq_amount r2)"
    by (rule reserve_after_usage [of m2 ?q u2 m2 lib e])
      (use assms(4,6,19) u2 used both(2) ids limit amount(2) in
        \<open>simp_all add: warden_wf_def word_less_nat_alt word_le_nat_alt unat_u64_max unat_sat_add\<close>)
  obtain v2 us2 events2 where finish: "reserve_finish lib wd ?q2 m2 = (Ok (AllowLive v2 us2), events2, m3)"
    "rs_attached v2" "us_used us2 = cu_used x"
    using finish_with_store [of wd ?q2 m2 rid e x m3 lib] store assms(3) by auto
  have "pe_denial_reason (evaluate_policy lib p (cu_used u2) (rq_amount r2) (rq_priority r2) w ?now) = Some ReservedForHigherPriority"
    using both low(2) used u2(2) by (simp add: spec denial_spec_def assms(7) Let_def)
  then have "\<exists>us action events. reserve lib wd t r2 m2 = (Ok (DenyLive ReservedForHigherPriority us action), events, m2)"
    using begin_with_usage [of wd r2 p lib t w m2 u2 m2] assms(3,5,18) key(2) unit(2) u2(1)
    by (simp add: reserve_def deny_def)
  then show ?thesis
    using first second finish x used u2(2) by auto
qed

theorem reserved_capacity_race_witness:
  "\<exists>q1 q2 v1 us1 events1 v2 us2 events2 m2 m3.
      reserve_begin utc_chrono (demo_warden (ReserveCapacity (reserve_capacity_new 4 Critical))) demo_now
        (demo_request 3 Normal None) demo_store = (Suspended q1, demo_store)
    \<and> reserve_finish utc_chrono (demo_warden (ReserveCapacity (reserve_capacity_new 4 Critical))) q1 demo_store
        = (Ok (AllowLive v1 us1), events1, m2)
    \<and> reserve_finish utc_chrono (demo_warden (ReserveCapacity (reserve_capacity_new 4 Critical))) q2 m2
        = (Ok (AllowLive v2 us2), events2, m3)
    \<and> unat (us_used us2) = 9"
proof -
  let ?s = "reserve_capacity_new 4 Critical" and ?u = "\<lparr>cu_committed = 0, cu_reserved = 3\<rparr> :: counter_usage"
  let ?r = "demo_request 3 Normal None"
  have used: "cu_used ?u = 3" by code_simp
  have numbers: "unat (bp_hard_limit (demo_policy (ReserveCapacity ?s))) = 10" "unat (rc_reserved_units ?s) = 4"
    "rc_reserved_for ?s = Critical" "bp_strategy (demo_policy (ReserveCapacity ?s)) = ReserveCapacity ?s"
    by (simp_all add: demo_policy_def reserve_capacity_new_def)
  have "ms_next_id (mem_state demo_store) = 1" by code_simp
  then have "unat (ms_next_id (mem_state demo_store)) < 18446744073709551614" "Normal < Critical"
    by (simp_all add: priority_order)
  then have "\<exists>q1 q2 v1 v2 us1 us2 events1 events2 m2 m3.
      reserve_begin utc_chrono (demo_warden (ReserveCapacity ?s)) demo_now ?r demo_store = (Suspended q1, demo_store)
    \<and> reserve_begin utc_chrono (demo_warden (ReserveCapacity ?s)) demo_now ?r demo_store = (Suspended q2, demo_store)
    \<and> reserve_finish utc_chrono (demo_warden (ReserveCapacity ?s)) q1 demo_store = (Ok (AllowLive v1 us1), events1, m2)
    \<and> reserve_finish utc_chrono (demo_warden (ReserveCapacity ?s)) q2 m2 = (Ok (AllowLive v2 us2), events2, m3)
    \<and> rs_attached v1 \<and> rs_attached v2
    \<and> unat (us_used us2) = unat (cu_used ?u) + unat (rq_amount ?r) + unat (rq_amount ?r)
    \<and> (\<exists>us action events. reserve utc_chrono (demo_warden (ReserveCapacity ?s)) demo_now ?r m2
          = (Ok (DenyLive ReservedForHigherPriority us action), events, m2))"
    by (intro reserved_capacity_race [OF utc_chrono_laws demo_store_wf demo_premises(1,2) demo_find demo_premises(3) numbers(4)])
      (simp_all add: demo_premises demo_bounds demo_expiry used numbers, rule demo_usage)
  then show ?thesis
    unfolding demo_premises used by (elim exE conjE) (intro exI conjI, assumption+, simp)
qed

end
