(* ===== verification/Codec.thy ===== *)
theory Codec
  imports Store_Contract
begin

text \<open>
  \<open>store/codec.rs\<close>: how store values become database integers and back. A database integer is an
  \<open>i64\<close>; the code only converts, compares and passes such values, so they are \<open>int\<close>s here, and
  \<open>i64_max\<close> bounds the ones that exist.
\<close>

definition i64_max :: int where
  "i64_max = 9223372036854775807"

text \<open>\<open>codec::key\<close> is the compact text of a store key.\<close>

definition codec_key :: "store_key \<Rightarrow> string" where
  "codec_key k = compact k"

definition codec_window_start :: "window_bounds \<Rightarrow> datetime" where
  "codec_window_start w = wb_start w"

definition codec_window_end :: "window_bounds \<Rightarrow> datetime" where
  "codec_window_end w = wb_end w"

text \<open>\<open>i64::try_from\<close> of a \<open>u64\<close>, and \<open>u64::try_from\<close> of an \<open>i64\<close>.\<close>

definition to_i64 :: "u64 \<Rightarrow> string \<Rightarrow> (int, store_error) outcome" where
  "to_i64 v name =
     (if uint v \<le> i64_max then Ok (uint v)
      else Err (StInvalidInput (name @ '' is too large for backend integer'')))"

definition u64_from_i64 :: "int \<Rightarrow> string \<Rightarrow> (u64, store_error) outcome" where
  "u64_from_i64 v message = (if v < 0 then Err (StOther message) else Ok (word_of_int v))"

definition id_from_i64 :: "int \<Rightarrow> (reservation_id, store_error) outcome" where
  "id_from_i64 v =
     and_then (u64_from_i64 v ''backend returned negative reservation id'') (\<lambda>n. Ok (ReservationId n))"

definition usage_from_i64 :: "int \<Rightarrow> int \<Rightarrow> (counter_usage, store_error) outcome" where
  "usage_from_i64 committed reserved =
     and_then (u64_from_i64 committed ''backend returned negative committed usage'') (\<lambda>c.
     and_then (u64_from_i64 reserved ''backend returned negative reserved usage'') (\<lambda>r.
     Ok (counter_usage_new c r)))"

section \<open>Conversions that succeed\<close>

lemma to_i64_Ok [simp]: "to_i64 v name = Ok x \<longleftrightarrow> uint v \<le> i64_max \<and> x = uint v"
  by (auto simp: to_i64_def)

lemma to_i64_no_panic [simp]: "to_i64 v name \<noteq> Panic"
  by (simp add: to_i64_def)

lemma uint_word_of_i64: "0 \<le> x \<Longrightarrow> x \<le> i64_max \<Longrightarrow> uint (word_of_int x :: u64) = x"
  by (simp add: i64_max_def uint_word_of_int)

lemma unat_word_of_i64: "0 \<le> x \<Longrightarrow> x \<le> i64_max \<Longrightarrow> unat (word_of_int x :: u64) = nat x"
  using uint_word_of_i64 [of x] by (simp add: unat_eq_nat_uint)

lemma usage_from_i64_Ok:
  assumes "0 \<le> c" "0 \<le> r"
  shows "usage_from_i64 c r = Ok (counter_usage_new (word_of_int c) (word_of_int r))"
  using assms by (simp add: usage_from_i64_def u64_from_i64_def)

text \<open>Counters within the range of a database integer are reported exactly.\<close>

lemma usage_from_i64_used:
  assumes "0 \<le> c" "0 \<le> r" "c + r \<le> i64_max" "usage_from_i64 c r = Ok u"
  shows "unat (cu_used u) = nat (c + r)"
proof -
  have u: "u = counter_usage_new (word_of_int c) (word_of_int r)"
    using assms(1,2,4) by (simp add: usage_from_i64_Ok)
  have "unat (word_of_int c :: u64) = nat c" "unat (word_of_int r :: u64) = nat r"
    using assms by (auto intro!: unat_word_of_i64)
  moreover have "nat c + nat r \<le> 18446744073709551615"
    using assms by (simp add: i64_max_def)
  ultimately show ?thesis
    using assms(1,2) by (simp add: u cu_used_def counter_usage_new_def unat_sat_add nat_add_distrib)
qed

end
