(* ===== verification/Sql_Tables.thy ===== *)
theory Sql_Tables
  imports Codec
begin

text \<open>
  What \<open>store/sqlite.rs\<close> and \<open>store/postgres.rs\<close> share: the two tables of \<open>migrations/\<close>, the meaning of
  the SQL statements both stores issue, and a connection with transactions. The database and its
  driver are not in the repository: \<open>sql_driver\<close> is what the code can see of them, and every call to
  the database may fail, as the list of events in the state says.
\<close>

section \<open>The tables\<close>

text \<open>
  The columns the code reads. The primary key of a counter is its text key and window; the
  identifier of a reservation comes from a sequence that never yields a number twice.
\<close>

type_synonym slot = "string \<times> datetime \<times> datetime"

record counter_row =
  ct_slot :: slot
  ct_committed :: int
  ct_reserved :: int

record reservation_row =
  rw_id :: int
  rw_slot :: slot
  rw_amount :: int
  rw_status :: string
  rw_expires_at :: datetime
  rw_idempotency_key :: "string option"

record tables =
  tb_counters :: "counter_row list"
  tb_reservations :: "reservation_row list"
  tb_sequence :: int

definition empty_tables :: tables where
  "empty_tables = \<lparr>tb_counters = [], tb_reservations = [], tb_sequence = 0\<rparr>"

text \<open>
  The driver: \<open>dr_time\<close> is the instant a column holds after an instant was bound to it (PostgreSQL
  keeps microseconds), \<open>dr_not_after\<close> the comparison \<open><=\<close> of two such columns, \<open>dr_skipped\<close> how many
  numbers the sequence leaves out after a number (PostgreSQL never yields again a number it gave to an
  insert that failed or was rolled back; SQLite skips none), and the texts of the errors the database
  raises for a duplicate in the unique index, an exhausted sequence and, where it raises one, a sum
  out of the range of a \<open>BIGINT\<close>.
\<close>

record sql_driver =
  dr_time :: "datetime \<Rightarrow> datetime"
  dr_not_after :: "datetime \<Rightarrow> datetime \<Rightarrow> bool"
  dr_skipped :: "int \<Rightarrow> nat"
  dr_duplicate :: string
  dr_exhausted :: string
  dr_overflow :: "string option"

definition bind_slot :: "sql_driver \<Rightarrow> string \<Rightarrow> window_bounds \<Rightarrow> slot" where
  "bind_slot dr store_key w =
     (store_key, dr_time dr (codec_window_start w), dr_time dr (codec_window_end w))"

section \<open>Statements\<close>

text \<open>A statement yields rows or a count and the changed tables, or the text of the database's error.\<close>

type_synonym 'a sql = "tables \<Rightarrow> string + 'a \<times> tables"

definition counter_find :: "slot \<Rightarrow> tables \<Rightarrow> counter_row option" where
  "counter_find s t = find (\<lambda>c. ct_slot c = s) (tb_counters t)"

definition reservation_find :: "int \<Rightarrow> tables \<Rightarrow> reservation_row option" where
  "reservation_find i t = find (\<lambda>r. rw_id r = i) (tb_reservations t)"

definition on_counters :: "(counter_row \<Rightarrow> counter_row) \<Rightarrow> slot \<Rightarrow> tables \<Rightarrow> tables" where
  "on_counters f s t =
     t\<lparr>tb_counters := map (\<lambda>c. if ct_slot c = s then f c else c) (tb_counters t)\<rparr>"

definition select_active_expired :: "sql_driver \<Rightarrow> datetime \<Rightarrow> reservation_row list sql" where
  "select_active_expired dr now t =
     Inr (filter (\<lambda>r. rw_status r = ''active'' \<and> dr_not_after dr (rw_expires_at r) (dr_time dr now))
            (tb_reservations t), t)"

definition select_idempotent :: "slot \<Rightarrow> string \<Rightarrow> reservation_row option sql" where
  "select_idempotent s i t =
     Inr (find (\<lambda>r. rw_slot r = s \<and> rw_idempotency_key r = Some i \<and>
              rw_status r \<in> {''active'', ''committed''}) (tb_reservations t), t)"

definition select_counter :: "slot \<Rightarrow> counter_row option sql" where
  "select_counter s t = Inr (counter_find s t, t)"

definition select_reservation :: "int \<Rightarrow> reservation_row option sql" where
  "select_reservation i t = Inr (reservation_find i t, t)"

definition insert_counter_if_absent :: "slot \<Rightarrow> unit sql" where
  "insert_counter_if_absent s t =
     Inr ((), if counter_find s t = None
              then t\<lparr>tb_counters := tb_counters t @ [\<lparr>ct_slot = s, ct_committed = 0, ct_reserved = 0\<rparr>]\<rparr>
              else t)"

definition release_reserved :: "int \<Rightarrow> slot \<Rightarrow> unit sql" where
  "release_reserved amount s t =
     Inr ((), on_counters (\<lambda>c. c\<lparr>ct_reserved := max (ct_reserved c - amount) 0\<rparr>) s t)"

definition update_status :: "int \<Rightarrow> string \<Rightarrow> unit sql" where
  "update_status i status t =
     Inr ((), t\<lparr>tb_reservations :=
       map (\<lambda>r. if rw_id r = i then r\<lparr>rw_status := status\<rparr> else r) (tb_reservations t)\<rparr>)"

text \<open>
  The sum in the guarded update may leave the range of a \<open>BIGINT\<close>: PostgreSQL raises an error, SQLite
  compares it as a real number, which is above every limit. In \<open>settle_counter\<close> it cannot, since a
  counter holds the units already.
\<close>

definition raise_reserved :: "sql_driver \<Rightarrow> int \<Rightarrow> int \<Rightarrow> slot \<Rightarrow> nat sql" where
  "raise_reserved dr amount limit s t =
     (let level = (\<lambda>c. ct_committed c + ct_reserved c + amount);
          hit = (\<lambda>c. ct_slot c = s \<and> level c \<le> limit);
          changed = (length (filter hit (tb_counters t)),
           t\<lparr>tb_counters :=
             map (\<lambda>c. if hit c then c\<lparr>ct_reserved := ct_reserved c + amount\<rparr> else c) (tb_counters t)\<rparr>)
      in if list_ex (\<lambda>c. ct_slot c = s \<and> i64_max < level c) (tb_counters t)
         then (case dr_overflow dr of Some m \<Rightarrow> Inl m | None \<Rightarrow> Inr changed)
         else Inr changed)"

definition settle_counter :: "int \<Rightarrow> int \<Rightarrow> slot \<Rightarrow> unit sql" where
  "settle_counter amount committed_delta s t =
     Inr ((), on_counters (\<lambda>c. c\<lparr>ct_reserved := max (ct_reserved c - amount) 0,
        ct_committed := ct_committed c + committed_delta\<rparr>) s t)"

definition sequence_next :: "sql_driver \<Rightarrow> tables \<Rightarrow> int" where
  "sequence_next dr t = tb_sequence t + 1 + int (dr_skipped dr (tb_sequence t))"

definition insert_reservation_row ::
    "sql_driver \<Rightarrow> slot \<Rightarrow> int \<Rightarrow> datetime \<Rightarrow> string option \<Rightarrow> int sql" where
  "insert_reservation_row dr s amount expires_at i t =
     (if i64_max < sequence_next dr t then Inl (dr_exhausted dr)
      else if i \<noteq> None \<and> list_ex (\<lambda>r. rw_slot r = s \<and> rw_idempotency_key r = i) (tb_reservations t)
      then Inl (dr_duplicate dr)
      else
        let n = sequence_next dr t;
            row = \<lparr>rw_id = n, rw_slot = s, rw_amount = amount, rw_status = ''active'',
                   rw_expires_at = dr_time dr expires_at, rw_idempotency_key = i\<rparr>
        in Inr (n, t\<lparr>tb_reservations := tb_reservations t @ [row], tb_sequence := n\<rparr>))"

section \<open>Connections and transactions\<close>

text \<open>
  What becomes of the next calls to the database: one works, fails without effect, or takes effect
  while the reply is lost (for a commit that is the case nobody can rule out). An exhausted list is a
  database that works.
\<close>

datatype db_event = Works | Fails string | ReplyLost string

record database =
  db_tables :: tables
  db_events :: "db_event list"

record transaction =
  tx_saved :: tables
  tx_tables :: tables
  tx_events :: "db_event list"

definition next_event :: "db_event list \<Rightarrow> db_event \<times> db_event list" where
  "next_event es = (case es of [] \<Rightarrow> (Works, []) | e # es' \<Rightarrow> (e, es'))"

text \<open>\<open>sql_error\<close>: every error of the driver is passed on as its text.\<close>

definition sql_error :: "string \<Rightarrow> store_error" where
  "sql_error message = StOther message"

type_synonym 'a tx_step = "transaction \<Rightarrow> ('a, store_error) outcome \<times> transaction"
type_synonym 'a db_call = "database \<Rightarrow> ('a, store_error) outcome \<times> database"

definition tx_begin :: "transaction db_call" where
  "tx_begin d =
     (case next_event (db_events d) of
        (Works, es) \<Rightarrow>
          (Ok \<lparr>tx_saved = db_tables d, tx_tables = db_tables d, tx_events = es\<rparr>, d\<lparr>db_events := es\<rparr>)
      | (Fails m, es) \<Rightarrow> (Err (sql_error m), d\<lparr>db_events := es\<rparr>)
      | (ReplyLost m, es) \<Rightarrow> (Err (sql_error m), d\<lparr>db_events := es\<rparr>))"

definition execute :: "'a sql \<Rightarrow> 'a tx_step" where
  "execute q tx =
     (case next_event (tx_events tx) of
        (Works, es) \<Rightarrow>
          (case q (tx_tables tx) of
             Inl m \<Rightarrow> (Err (sql_error m), tx\<lparr>tx_events := es\<rparr>)
           | Inr (x, t) \<Rightarrow> (Ok x, tx\<lparr>tx_tables := t, tx_events := es\<rparr>))
      | (Fails m, es) \<Rightarrow> (Err (sql_error m), tx\<lparr>tx_events := es\<rparr>)
      | (ReplyLost m, es) \<Rightarrow> (Err (sql_error m), tx\<lparr>tx_events := es\<rparr>))"

text \<open>A transaction that is dropped, as every early return does, is rolled back.\<close>

definition tx_drop :: "transaction \<Rightarrow> database" where
  "tx_drop tx = \<lparr>db_tables = tx_saved tx, db_events = tx_events tx\<rparr>"

definition tx_commit :: "transaction \<Rightarrow> (unit, store_error) outcome \<times> database" where
  "tx_commit tx =
     (case next_event (tx_events tx) of
        (Works, es) \<Rightarrow> (Ok (), \<lparr>db_tables = tx_tables tx, db_events = es\<rparr>)
      | (Fails m, es) \<Rightarrow> (Err (sql_error m), \<lparr>db_tables = tx_saved tx, db_events = es\<rparr>)
      | (ReplyLost m, es) \<Rightarrow> (Err (sql_error m), \<lparr>db_tables = tx_tables tx, db_events = es\<rparr>))"

definition tx_rollback :: "transaction \<Rightarrow> (unit, store_error) outcome \<times> database" where
  "tx_rollback tx =
     (case next_event (tx_events tx) of
        (Works, es) \<Rightarrow> (Ok (), \<lparr>db_tables = tx_saved tx, db_events = es\<rparr>)
      | (Fails m, es) \<Rightarrow> (Err (sql_error m), \<lparr>db_tables = tx_saved tx, db_events = es\<rparr>)
      | (ReplyLost m, es) \<Rightarrow> (Err (sql_error m), \<lparr>db_tables = tx_saved tx, db_events = es\<rparr>))"

text \<open>
  The \<open>?\<close> operator, before a transaction (\<open>attempt\<close>), inside a function that borrows one
  (\<open>tx_then\<close>), in the function that owns it and drops it (\<open>or_drop\<close>), and after a call that gives
  the connection back (\<open>db_then\<close>).
\<close>

fun attempt :: "('a, store_error) outcome \<Rightarrow> ('a \<Rightarrow> 'b db_call) \<Rightarrow> 'b db_call" where
  "attempt (Ok x) f d = f x d"
| "attempt (Err e) f d = (Err e, d)"
| "attempt Panic f d = (Panic, d)"

fun tx_then ::
    "('a, store_error) outcome \<times> transaction \<Rightarrow> ('a \<Rightarrow> 'b tx_step) \<Rightarrow>
     ('b, store_error) outcome \<times> transaction" where
  "tx_then (Ok x, tx) f = f x tx"
| "tx_then (Err e, tx) f = (Err e, tx)"
| "tx_then (Panic, tx) f = (Panic, tx)"

fun or_drop ::
    "('a, store_error) outcome \<times> transaction \<Rightarrow>
     ('a \<Rightarrow> transaction \<Rightarrow> ('b, store_error) outcome \<times> database) \<Rightarrow>
     ('b, store_error) outcome \<times> database" where
  "or_drop (Ok x, tx) f = f x tx"
| "or_drop (Err e, tx) f = (Err e, tx_drop tx)"
| "or_drop (Panic, tx) f = (Panic, tx_drop tx)"

fun db_then ::
    "('a, store_error) outcome \<times> database \<Rightarrow> ('a \<Rightarrow> 'b db_call) \<Rightarrow>
     ('b, store_error) outcome \<times> database" where
  "db_then (Ok x, d) f = f x d"
| "db_then (Err e, d) f = (Err e, d)"
| "db_then (Panic, d) f = (Panic, d)"

text \<open>\<open>tx.commit().await.map_err(sql_error)?\<close> followed by a result.\<close>

definition commit_then ::
    "('a, store_error) outcome \<Rightarrow> transaction \<Rightarrow> ('a, store_error) outcome \<times> database" where
  "commit_then x tx = db_then (tx_commit tx) (\<lambda>_ d. (x, d))"

end
