(* ===== verification/Sqlite_Store.thy ===== *)
theory Sqlite_Store
  imports Sql_Tables
begin

text \<open>
  \<open>store/sqlite.rs\<close>: the SQLite store. Each operation is one transaction on the tables; SQLite runs
  transactions one after the other, so an operation is one step. \<open>commit\<close> and \<open>refund\<close> read the
  system clock, which is an argument here.
\<close>

section \<open>Setting up the schema\<close>

text \<open>
  \<open>setup_schema\<close> cuts the migration at its semicolons and runs each statement that is not blank on its
  own, stopping at the first error. The statements create tables and indexes if they are missing, so
  they change no row.
\<close>

fun split_on :: "char \<Rightarrow> string \<Rightarrow> string list" where
  "split_on c [] = [[]]"
| "split_on c (x # s) =
     (if x = c then [] # split_on c s
      else case split_on c s of [] \<Rightarrow> [[x]] | p # ps \<Rightarrow> (x # p) # ps)"

definition schema_statements :: "string \<Rightarrow> string list" where
  "schema_statements migration = filter (\<lambda>s. s \<noteq> []) (map trim (split_on (CHR '';'') migration))"

definition pool_execute :: "string \<Rightarrow> unit db_call" where
  "pool_execute statement d =
     (case next_event (db_events d) of
        (Works, es) \<Rightarrow> (Ok (), d\<lparr>db_events := es\<rparr>)
      | (Fails m, es) \<Rightarrow> (Err (sql_error m), d\<lparr>db_events := es\<rparr>)
      | (ReplyLost m, es) \<Rightarrow> (Err (sql_error m), d\<lparr>db_events := es\<rparr>))"

fun execute_all :: "string list \<Rightarrow> unit db_call" where
  "execute_all [] d = (Ok (), d)"
| "execute_all (statement # rest) d =
     db_then (pool_execute statement d) (\<lambda>_ d. execute_all rest d)"

definition sqlite_setup_schema :: "string \<Rightarrow> unit db_call" where
  "sqlite_setup_schema migration d = execute_all (schema_statements migration) d"

section \<open>Shared steps of a transaction\<close>

definition sqlite_load_usage :: "slot \<Rightarrow> counter_usage tx_step" where
  "sqlite_load_usage s tx =
     tx_then (execute (select_counter s) tx) (\<lambda>row tx.
     (case row of
        None \<Rightarrow> Ok default_counter_usage
      | Some c \<Rightarrow> usage_from_i64 (ct_committed c) (ct_reserved c), tx))"

fun sqlite_expire_rows :: "reservation_row list \<Rightarrow> unit tx_step" where
  "sqlite_expire_rows [] tx = (Ok (), tx)"
| "sqlite_expire_rows (row # rows) tx =
     tx_then (execute (release_reserved (rw_amount row) (rw_slot row)) tx) (\<lambda>_ tx.
     tx_then (execute (update_status (rw_id row) ''expired'') tx) (\<lambda>_ tx.
     sqlite_expire_rows rows tx))"

definition sqlite_cleanup_expired :: "sql_driver \<Rightarrow> datetime \<Rightarrow> unit tx_step" where
  "sqlite_cleanup_expired dr now tx =
     tx_then (execute (select_active_expired dr now) tx) (\<lambda>expired tx. sqlite_expire_rows expired tx)"

definition sqlite_existing_idempotent_reservation ::
    "slot \<Rightarrow> string \<Rightarrow> store_reservation_result option tx_step" where
  "sqlite_existing_idempotent_reservation s i tx =
     tx_then (execute (select_idempotent s i) tx) (\<lambda>row tx.
     case row of
       None \<Rightarrow> (Ok None, tx)
     | Some r \<Rightarrow>
         tx_then (sqlite_load_usage s tx) (\<lambda>usage tx.
         (and_then (id_from_i64 (rw_id r)) (\<lambda>rid.
            Ok (Some (srr_allow (store_reservation_new rid (rw_expires_at r)) usage))), tx)))"

definition sqlite_existing_from_pool ::
    "sql_driver \<Rightarrow> string \<Rightarrow> reserve_request \<Rightarrow> store_reservation_result option db_call" where
  "sqlite_existing_from_pool dr store_key r d =
     (case rr_idempotency_key r of
        None \<Rightarrow> (Ok None, d)
      | Some i \<Rightarrow>
          db_then (tx_begin d) (\<lambda>tx _.
          or_drop (sqlite_existing_idempotent_reservation (bind_slot dr store_key (rr_window r))
                     (idempotency_as_str i) tx) (\<lambda>result tx.
          commit_then (Ok result) tx)))"

section \<open>Reserving\<close>

text \<open>The answer to a failed insert: with an idempotency key, roll back and look again.\<close>

definition sqlite_insert_failed ::
    "sql_driver \<Rightarrow> string \<Rightarrow> reserve_request \<Rightarrow> store_error \<Rightarrow> transaction \<Rightarrow>
     (store_reservation_result, store_error) outcome \<times> database" where
  "sqlite_insert_failed dr store_key r e tx =
     (if rr_idempotency_key r \<noteq> None
      then
        db_then (tx_rollback tx) (\<lambda>_ d.
        db_then (sqlite_existing_from_pool dr store_key r d) (\<lambda>found d.
        case found of Some result \<Rightarrow> (Ok result, d) | None \<Rightarrow> (Err e, d)))
      else (Err e, tx_drop tx))"

definition sqlite_admit ::
    "sql_driver \<Rightarrow> string \<Rightarrow> int \<Rightarrow> int \<Rightarrow> datetime \<Rightarrow> reserve_request \<Rightarrow> transaction \<Rightarrow>
     (store_reservation_result, store_error) outcome \<times> database" where
  "sqlite_admit dr store_key amount effective_limit expires_at r tx =
     (let s = bind_slot dr store_key (rr_window r) in
      or_drop (execute (insert_counter_if_absent s) tx) (\<lambda>_ tx.
      or_drop (execute (raise_reserved dr amount effective_limit s) tx) (\<lambda>rows_affected tx.
      if rows_affected = 0
      then or_drop (sqlite_load_usage s tx) (\<lambda>usage tx. commit_then (Ok (srr_deny usage)) tx)
      else
        case execute (insert_reservation_row dr s amount expires_at
               (map_option idempotency_as_str (rr_idempotency_key r))) tx of
          (Ok row_id, tx) \<Rightarrow>
            or_drop (sqlite_load_usage s tx) (\<lambda>usage tx.
            commit_then (and_then (id_from_i64 row_id) (\<lambda>rid.
              Ok (srr_allow (store_reservation_new rid expires_at) usage))) tx)
        | (Err e, tx) \<Rightarrow> sqlite_insert_failed dr store_key r e tx
        | (Panic, tx) \<Rightarrow> (Panic, tx_drop tx))))"

definition sqlite_reserve_if_allowed ::
    "('tz, 'more) chrono_scheme \<Rightarrow> sql_driver \<Rightarrow> reserve_request \<Rightarrow> store_reservation_result db_call" where
  "sqlite_reserve_if_allowed lib dr r =
     attempt (reserve_request_validate r) (\<lambda>_.
     let store_key = codec_key (rr_key r) in
     attempt (to_i64 (rr_amount r) ''amount'') (\<lambda>amount.
     attempt (to_i64 (rr_effective_limit r) ''effective limit'') (\<lambda>effective_limit.
     attempt (or_panic (ch_add lib (rr_now r) (rr_reservation_ttl r))) (\<lambda>expires_at d.
     db_then (tx_begin d) (\<lambda>tx _.
     or_drop (sqlite_cleanup_expired dr (rr_now r) tx) (\<lambda>_ tx.
     or_drop (case rr_idempotency_key r of
                None \<Rightarrow> (Ok None, tx)
              | Some i \<Rightarrow> sqlite_existing_idempotent_reservation (bind_slot dr store_key (rr_window r))
                           (idempotency_as_str i) tx) (\<lambda>existing tx.
     case existing of
       Some result \<Rightarrow> commit_then (Ok result) tx
     | None \<Rightarrow> sqlite_admit dr store_key amount effective_limit expires_at r tx)))))))"

section \<open>Committing, refunding, usage\<close>

datatype finish_action = FinishCommit | FinishRefund

fun finish_delta :: "finish_action \<Rightarrow> int \<Rightarrow> int \<times> string" where
  "finish_delta FinishCommit amount = (amount, ''committed'')"
| "finish_delta FinishRefund amount = (0, ''refunded'')"

definition sqlite_finish_active ::
    "int \<Rightarrow> finish_action \<Rightarrow> datetime \<Rightarrow> reservation_row \<Rightarrow> transaction \<Rightarrow>
     (unit, store_error) outcome \<times> database" where
  "sqlite_finish_active i action utc_now row tx =
     (if rw_expires_at row \<le> utc_now
      then
        or_drop (execute (release_reserved (rw_amount row) (rw_slot row)) tx) (\<lambda>_ tx.
        or_drop (execute (update_status i ''expired'') tx) (\<lambda>_ tx.
        commit_then (Err StReservationExpired) tx))
      else
        case finish_delta action (rw_amount row) of (committed_delta, status) \<Rightarrow>
        or_drop (execute (settle_counter (rw_amount row) committed_delta (rw_slot row)) tx) (\<lambda>_ tx.
        or_drop (execute (update_status i status) tx) (\<lambda>_ tx.
        commit_then (Ok ()) tx)))"

definition sqlite_finish_reservation ::
    "datetime \<Rightarrow> finish_action \<Rightarrow> reservation_id \<Rightarrow> unit db_call" where
  "sqlite_finish_reservation utc_now action rid =
     attempt (to_i64 (as_u64 rid) ''reservation id'') (\<lambda>i d.
     db_then (tx_begin d) (\<lambda>tx _.
     or_drop (execute (select_reservation i) tx) (\<lambda>found tx.
     case found of
       None \<Rightarrow> (Err StReservationNotFound, tx_drop tx)
     | Some row \<Rightarrow>
         if rw_status row = ''committed'' \<or> rw_status row = ''refunded''
         then commit_then (Ok ()) tx
         else if rw_status row = ''expired''
         then commit_then (Err StReservationExpired) tx
         else if rw_status row = ''active''
         then sqlite_finish_active i action utc_now row tx
         else (Err (StOther ''unknown reservation status''), tx_drop tx))))"

definition sqlite_commit :: "datetime \<Rightarrow> reservation_id \<Rightarrow> unit db_call" where
  "sqlite_commit utc_now rid = sqlite_finish_reservation utc_now FinishCommit rid"

definition sqlite_refund :: "datetime \<Rightarrow> reservation_id \<Rightarrow> unit db_call" where
  "sqlite_refund utc_now rid = sqlite_finish_reservation utc_now FinishRefund rid"

definition sqlite_usage ::
    "sql_driver \<Rightarrow> store_key \<Rightarrow> window_bounds \<Rightarrow> datetime \<Rightarrow> counter_usage db_call" where
  "sqlite_usage dr k w now d =
     db_then (tx_begin d) (\<lambda>tx _.
     or_drop (sqlite_cleanup_expired dr now tx) (\<lambda>_ tx.
     or_drop (sqlite_load_usage (bind_slot dr (codec_key k) w) tx) (\<lambda>usage tx.
     commit_then (Ok usage) tx)))"

definition sqlite_ops :: "('tz, 'more) chrono_scheme \<Rightarrow> sql_driver \<Rightarrow> database store_ops" where
  "sqlite_ops lib dr =
     \<lparr>st_reserve_if_allowed = sqlite_reserve_if_allowed lib dr, st_commit = sqlite_commit,
      st_refund = sqlite_refund, st_usage = sqlite_usage dr\<rparr>"

end
