(* ===== verification/Sql_Invariant.thy ===== *)
theory Sql_Invariant
  imports Sql_Tables
begin

text \<open>
  The invariant of the two SQL tables and what the statements do to it: the schema's constraints
  hold (keys, checks, the unique index), and every counter holds exactly the units of its
  reservations. Both SQL stores rest on these lemmas.
\<close>

section \<open>The invariant\<close>

definition units_with :: "string \<Rightarrow> slot \<Rightarrow> tables \<Rightarrow> int" where
  "units_with status s t =
     sum_list (map (\<lambda>r. if rw_slot r = s \<and> rw_status r = status then rw_amount r else 0)
       (tb_reservations t))"

definition reserved_of :: "slot \<Rightarrow> tables \<Rightarrow> int" where
  "reserved_of s t = (case counter_find s t of None \<Rightarrow> 0 | Some c \<Rightarrow> ct_reserved c)"

definition committed_of :: "slot \<Rightarrow> tables \<Rightarrow> int" where
  "committed_of s t = (case counter_find s t of None \<Rightarrow> 0 | Some c \<Rightarrow> ct_committed c)"

text \<open>The entries of the unique index on (key, window, idempotency key).\<close>

definition index_entries :: "reservation_row list \<Rightarrow> (slot \<times> string option) list" where
  "index_entries rows =
     map (\<lambda>r. (rw_slot r, rw_idempotency_key r)) (filter (\<lambda>r. rw_idempotency_key r \<noteq> None) rows)"

definition row_wf :: "int \<Rightarrow> reservation_row \<Rightarrow> bool" where
  "row_wf n r \<longleftrightarrow> 0 < rw_id r \<and> rw_id r \<le> n \<and> 0 < rw_amount r
     \<and> rw_status r \<in> {''active'', ''committed'', ''refunded'', ''expired''}"

text \<open>A counter holds its active and its committed units, within the range of a database integer.\<close>

definition slot_wf :: "tables \<Rightarrow> slot \<Rightarrow> bool" where
  "slot_wf t s \<longleftrightarrow>
     reserved_of s t = units_with ''active'' s t
   \<and> committed_of s t = units_with ''committed'' s t
   \<and> committed_of s t + reserved_of s t \<le> i64_max"

definition tables_wf :: "tables \<Rightarrow> bool" where
  "tables_wf t \<longleftrightarrow>
     distinct (map ct_slot (tb_counters t))
   \<and> distinct (map rw_id (tb_reservations t))
   \<and> distinct (index_entries (tb_reservations t))
   \<and> list_all (row_wf (tb_sequence t)) (tb_reservations t)
   \<and> 0 \<le> tb_sequence t \<and> tb_sequence t \<le> i64_max
   \<and> All (slot_wf t)"

definition tables_level :: "tables \<Rightarrow> slot \<Rightarrow> nat" where
  "tables_level t s = nat (committed_of s t + reserved_of s t)"

lemma tables_wfD:
  assumes "tables_wf t"
  shows "distinct (map ct_slot (tb_counters t))"
    and "distinct (map rw_id (tb_reservations t))"
    and "distinct (index_entries (tb_reservations t))"
    and "r \<in> set (tb_reservations t) \<Longrightarrow> row_wf (tb_sequence t) r"
    and "0 \<le> tb_sequence t" "tb_sequence t \<le> i64_max"
    and "reserved_of s t = units_with ''active'' s t"
    and "committed_of s t = units_with ''committed'' s t"
    and "committed_of s t + reserved_of s t \<le> i64_max"
proof -
  have "slot_wf t s" using assms unfolding tables_wf_def by blast
  then show "reserved_of s t = units_with ''active'' s t" "committed_of s t = units_with ''committed'' s t"
    "committed_of s t + reserved_of s t \<le> i64_max"
    by (simp_all add: slot_wf_def)
qed (use assms in \<open>simp_all add: tables_wf_def list_all_iff\<close>)

lemma tables_wf_empty: "tables_wf empty_tables"
  by (simp add: tables_wf_def empty_tables_def index_entries_def reserved_of_def committed_of_def
      units_with_def counter_find_def i64_max_def slot_wf_def)

lemma units_nonneg:
  assumes "tables_wf t"
  shows "0 \<le> units_with st s t"
  unfolding units_with_def
  using tables_wfD(4) [OF assms] by (intro sum_list_nonneg) (auto simp: row_wf_def less_imp_le)

lemma counters_nonneg:
  assumes "tables_wf t"
  shows "0 \<le> reserved_of s t" "0 \<le> committed_of s t"
  using units_nonneg [OF assms] tables_wfD(7,8) [OF assms] by simp_all

lemma units_ge_amount:
  assumes "tables_wf t" "r \<in> set (tb_reservations t)"
  shows "rw_amount r \<le> units_with (rw_status r) (rw_slot r) t"
proof -
  let ?g = "\<lambda>q. if rw_slot q = rw_slot r \<and> rw_status q = rw_status r then rw_amount q else 0"
  have "?g r \<le> sum_list (map ?g rows)" if "r \<in> set rows" "\<forall>q \<in> set rows. 0 \<le> ?g q" for rows
    using that
  proof (induction rows)
    case (Cons q rows)
    then have "0 \<le> sum_list (map ?g rows)" by (intro sum_list_nonneg) auto
    with Cons show ?case by fastforce
  qed simp
  moreover have "0 \<le> ?g q" if "q \<in> set (tb_reservations t)" for q
    using tables_wfD(4) [OF assms(1) that] by (simp add: row_wf_def less_imp_le)
  ultimately show ?thesis
    using assms(2) by (fastforce simp: units_with_def)
qed

section \<open>Lookups after updates\<close>

lemma find_map_update:
  assumes "\<And>x. key (f x) = key x"
  shows "find (\<lambda>x. key x = k) (map (\<lambda>x. if key x = k' then f x else x) xs) =
    (if k = k' then map_option f (find (\<lambda>x. key x = k) xs) else find (\<lambda>x. key x = k) xs)"
  by (induction xs) (use assms in auto)

lemma find_append: "find P (xs @ ys) = (case find P xs of None \<Rightarrow> find P ys | Some x \<Rightarrow> Some x)"
  by (induction xs) auto

lemma find_SomeD: "find P xs = Some x \<Longrightarrow> x \<in> set xs \<and> P x"
  by (auto simp: find_Some_iff)

lemma find_distinct:
  assumes "distinct (map key xs)"
  shows "find (\<lambda>x. key x = k) xs = Some x \<longleftrightarrow> x \<in> set xs \<and> key x = k"
  using assms by (induction xs) (auto simp: image_iff)

lemma counter_find_on_counters:
  assumes "\<And>c. ct_slot (f c) = ct_slot c"
  shows "counter_find s (on_counters f s' t) =
    (if s = s' then map_option f (counter_find s t) else counter_find s t)"
  using assms by (simp add: counter_find_def on_counters_def find_map_update [where key = ct_slot])

lemma counter_find_reservations [simp]:
  "counter_find s (t\<lparr>tb_reservations := rows\<rparr>) = counter_find s t"
  "counter_find s (t\<lparr>tb_sequence := n\<rparr>) = counter_find s t"
  by (simp_all add: counter_find_def)

lemma on_counters_simps [simp]:
  "tb_reservations (on_counters f s t) = tb_reservations t"
  "tb_sequence (on_counters f s t) = tb_sequence t"
  by (simp_all add: on_counters_def)

lemma on_counters_slots:
  "(\<And>c. ct_slot (f c) = ct_slot c) \<Longrightarrow>
     map ct_slot (tb_counters (on_counters f s t)) = map ct_slot (tb_counters t)"
  by (simp add: on_counters_def)

lemma units_on_counters [simp]: "units_with st s (on_counters f s' t) = units_with st s t"
  by (simp add: units_with_def)

section \<open>Settling a reservation\<close>

text \<open>What expiring, committing and refunding a row all do to the tables.\<close>

definition settle_row :: "string \<Rightarrow> reservation_row \<Rightarrow> tables \<Rightarrow> tables" where
  "settle_row status r t =
     (on_counters (\<lambda>c. c\<lparr>ct_reserved := max (ct_reserved c - rw_amount r) 0,
        ct_committed := ct_committed c + (if status = ''committed'' then rw_amount r else 0)\<rparr>) (rw_slot r) t)
     \<lparr>tb_reservations :=
        map (\<lambda>q. if rw_id q = rw_id r then q\<lparr>rw_status := status\<rparr> else q) (tb_reservations t)\<rparr>"

definition settled_status :: "string \<Rightarrow> bool" where
  "settled_status st \<longleftrightarrow> st \<in> {''committed'', ''refunded'', ''expired''}"

lemma settle_row_simps [simp]:
  "tb_sequence (settle_row st r t) = tb_sequence t"
  "tb_reservations (settle_row st r t) =
     map (\<lambda>q. if rw_id q = rw_id r then q\<lparr>rw_status := st\<rparr> else q) (tb_reservations t)"
  by (simp_all add: settle_row_def)

lemma counter_find_settle:
  "counter_find s (settle_row st r t) =
     (if s = rw_slot r
      then map_option (\<lambda>c. c\<lparr>ct_reserved := max (ct_reserved c - rw_amount r) 0,
        ct_committed := ct_committed c + (if st = ''committed'' then rw_amount r else 0)\<rparr>) (counter_find s t)
      else counter_find s t)"
  by (simp add: settle_row_def counter_find_on_counters)

lemma units_with_settle:
  assumes "distinct (map rw_id (tb_reservations t))" "r \<in> set (tb_reservations t)"
    and "rw_status r = ''active''" "settled_status st"
  shows "units_with u s (settle_row st r t) = units_with u s t
    - (if s = rw_slot r \<and> u = ''active'' then rw_amount r else 0)
    + (if s = rw_slot r \<and> u = st then rw_amount r else 0)"
proof -
  let ?g = "\<lambda>r. if rw_slot r = s \<and> rw_status r = u then rw_amount r else 0"
  have "sum_list (map ?g (map (\<lambda>q. if rw_id q = rw_id r then q\<lparr>rw_status := st\<rparr> else q) rows)) =
      sum_list (map ?g rows) - (if r \<in> set rows then ?g r else 0)
      + (if r \<in> set rows then ?g (r\<lparr>rw_status := st\<rparr>) else 0)"
    if "distinct (map rw_id rows)" "set rows \<subseteq> set (tb_reservations t)" for rows
    using that
  proof (induction rows)
    case (Cons q rows)
    show ?case
    proof (cases "q = r")
      case True
      with Cons.prems(1) have "rw_id r \<notin> rw_id ` set rows" by simp
      then have "rw_id p \<noteq> rw_id r" if "p \<in> set rows" for p
        using that by (metis imageI)
      then have same: "map (\<lambda>q. if rw_id q = rw_id r then q\<lparr>rw_status := st\<rparr> else q) rows = rows"
        by (simp add: map_idI)
      show ?thesis using True Cons.prems(1) by (simp add: same)
    next
      case False
      have "q \<in> set (tb_reservations t)" using Cons.prems by simp
      with False assms(1,2) have "rw_id q \<noteq> rw_id r"
        by (auto simp: distinct_map dest: inj_onD)
      with False Cons show ?thesis by (simp del: map_map)
    qed
  qed simp
  from this [OF assms(1) subset_refl] show ?thesis
    using assms(2-4) by (auto simp: units_with_def settled_status_def)
qed

lemma settle_row_counters:
  assumes "tables_wf t" "r \<in> set (tb_reservations t)" "rw_status r = ''active''"
  shows "reserved_of s (settle_row st r t) = reserved_of s t - (if s = rw_slot r then rw_amount r else 0)"
    and "committed_of s (settle_row st r t) = committed_of s t +
      (if s = rw_slot r \<and> st = ''committed'' then rw_amount r else 0)"
proof -
  have "rw_amount r \<le> reserved_of (rw_slot r) t"
    using units_ge_amount [OF assms(1,2)] assms(3) by (simp add: tables_wfD(7) [OF assms(1)])
  moreover have "0 < rw_amount r" using tables_wfD(4) [OF assms(1,2)] by (simp add: row_wf_def)
  ultimately have "counter_find (rw_slot r) t \<noteq> None"
    and le: "\<And>c. counter_find (rw_slot r) t = Some c \<Longrightarrow> rw_amount r \<le> ct_reserved c"
    by (auto simp: reserved_of_def split: option.splits)
  then obtain c where c: "counter_find (rw_slot r) t = Some c" "rw_amount r \<le> ct_reserved c" by auto
  show "reserved_of s (settle_row st r t) = reserved_of s t - (if s = rw_slot r then rw_amount r else 0)"
    using c by (simp add: reserved_of_def counter_find_settle)
  show "committed_of s (settle_row st r t) = committed_of s t +
      (if s = rw_slot r \<and> st = ''committed'' then rw_amount r else 0)"
    using c by (simp add: committed_of_def counter_find_settle)
qed

lemma index_entries_status:
  "index_entries (map (\<lambda>q. if rw_id q = i then q\<lparr>rw_status := st\<rparr> else q) rows) = index_entries rows"
  by (induction rows) (auto simp: index_entries_def)

lemma settle_row_wf:
  assumes "tables_wf t" "r \<in> set (tb_reservations t)" "rw_status r = ''active''" "settled_status st"
  shows "tables_wf (settle_row st r t)"
proof -
  note d = tables_wfD [OF assms(1)]
  note c = settle_row_counters [OF assms(1-3)]
  note u = units_with_settle [OF d(2) assms(2-4)]
  have slots: "map ct_slot (tb_counters (settle_row st r t)) = map ct_slot (tb_counters t)"
    by (simp add: settle_row_def on_counters_slots)
  have ids: "map rw_id (tb_reservations (settle_row st r t)) = map rw_id (tb_reservations t)"
    by simp
  have rows: "list_all (row_wf (tb_sequence t)) (tb_reservations (settle_row st r t))"
    unfolding list_all_iff settle_row_simps set_map ball_simps
  proof
    fix q assume "q \<in> set (tb_reservations t)"
    from d(4) [OF this] assms(4) show "row_wf (tb_sequence t) (if rw_id q = rw_id r then q\<lparr>rw_status := st\<rparr> else q)"
      by (simp add: row_wf_def settled_status_def)
  qed
  have "st \<noteq> ''active''" using assms(4) by (auto simp: settled_status_def)
  have sum: "committed_of s (settle_row st r t) + reserved_of s (settle_row st r t) \<le> i64_max" for s
    using d(4) [OF assms(2)] d(9) [of s] by (cases "s = rw_slot r") (simp_all add: c row_wf_def)
  show ?thesis
    unfolding tables_wf_def settle_row_simps(1) slots ids
    using d(1-3,5,6) rows sum \<open>st \<noteq> ''active''\<close>
    by (simp add: index_entries_status slot_wf_def u c d(7,8))
qed

lemma settle_row_level:
  assumes "tables_wf t" "r \<in> set (tb_reservations t)" "rw_status r = ''active''"
  shows "tables_level (settle_row st r t) s \<le> tables_level t s"
  using tables_wfD(4) [OF assms(1,2)]
  by (auto simp: tables_level_def settle_row_counters [OF assms] row_wf_def)

section \<open>Expiring rows\<close>

definition expire_rows :: "reservation_row list \<Rightarrow> tables \<Rightarrow> tables" where
  "expire_rows rows t = fold (settle_row ''expired'') rows t"

definition expired_rows :: "sql_driver \<Rightarrow> datetime \<Rightarrow> tables \<Rightarrow> reservation_row list" where
  "expired_rows dr now t =
     filter (\<lambda>r. rw_status r = ''active'' \<and> dr_not_after dr (rw_expires_at r) (dr_time dr now))
       (tb_reservations t)"

definition expire_tables :: "sql_driver \<Rightarrow> datetime \<Rightarrow> tables \<Rightarrow> tables" where
  "expire_tables dr now t = expire_rows (expired_rows dr now t) t"

lemma settle_row_keeps_others:
  "q \<in> set (tb_reservations t) \<Longrightarrow> rw_id q \<noteq> rw_id r \<Longrightarrow> q \<in> set (tb_reservations (settle_row st r t))"
  by force

lemma expire_rows_wf_level:
  assumes "tables_wf t" "distinct (map rw_id rows)" "set rows \<subseteq> set (tb_reservations t)"
    and "\<forall>r \<in> set rows. rw_status r = ''active''"
  shows "tables_wf (expire_rows rows t) \<and> tables_level (expire_rows rows t) s \<le> tables_level t s"
  using assms
proof (induction rows arbitrary: t)
  case (Cons r rows)
  have r: "r \<in> set (tb_reservations t)" "rw_status r = ''active''" using Cons.prems by auto
  have "set rows \<subseteq> set (tb_reservations (settle_row ''expired'' r t))"
    using Cons.prems(2,3) by (auto intro!: settle_row_keeps_others simp: image_iff)
  with Cons.IH [of "settle_row ''expired'' r t"] Cons.prems r
  have "tables_wf (expire_rows rows (settle_row ''expired'' r t)) \<and>
      tables_level (expire_rows rows (settle_row ''expired'' r t)) s \<le> tables_level (settle_row ''expired'' r t) s"
    by (simp add: settle_row_wf settled_status_def)
  then show ?case
    using settle_row_level [OF Cons.prems(1) r, of "''expired''" s]
    by (simp add: expire_rows_def)
qed (simp add: expire_rows_def)

lemma expired_rows_props:
  "tables_wf t \<Longrightarrow> distinct (map rw_id (expired_rows dr now t))"
  "set (expired_rows dr now t) \<subseteq> set (tb_reservations t)"
  "\<forall>r \<in> set (expired_rows dr now t). rw_status r = ''active''"
  by (auto simp: expired_rows_def tables_wfD(2) distinct_map_filter)

lemma expire_tables_wf_level:
  assumes "tables_wf t"
  shows "tables_wf (expire_tables dr now t)" "tables_level (expire_tables dr now t) s \<le> tables_level t s"
  using expire_rows_wf_level [OF assms expired_rows_props(1) [OF assms] expired_rows_props(2,3)]
  by (auto simp: expire_tables_def)

text \<open>The rows after an expiry, and what a second look at a unique key finds.\<close>

definition expire_row :: "sql_driver \<Rightarrow> datetime \<Rightarrow> reservation_row \<Rightarrow> reservation_row" where
  "expire_row dr now r =
     (if rw_status r = ''active'' \<and> dr_not_after dr (rw_expires_at r) (dr_time dr now)
      then r\<lparr>rw_status := ''expired''\<rparr> else r)"

lemma expire_row_simps [simp]:
  "rw_id (expire_row dr now r) = rw_id r" "rw_slot (expire_row dr now r) = rw_slot r"
  "rw_amount (expire_row dr now r) = rw_amount r" "rw_expires_at (expire_row dr now r) = rw_expires_at r"
  "rw_idempotency_key (expire_row dr now r) = rw_idempotency_key r"
  by (simp_all add: expire_row_def)

lemma expire_rows_reservations:
  "tb_reservations (expire_rows rows t) =
     map (\<lambda>q. if rw_id q \<in> rw_id ` set rows then q\<lparr>rw_status := ''expired''\<rparr> else q) (tb_reservations t)"
proof (induction rows arbitrary: t)
  case (Cons r rows)
  then have "tb_reservations (expire_rows (r # rows) t) =
      map (\<lambda>q. if rw_id q \<in> rw_id ` set rows then q\<lparr>rw_status := ''expired''\<rparr> else q)
        (tb_reservations (settle_row ''expired'' r t))"
    by (simp add: expire_rows_def)
  then show ?case by auto
qed (simp add: expire_rows_def)

lemma expire_tables_reservations:
  assumes "tables_wf t"
  shows "tb_reservations (expire_tables dr now t) = map (expire_row dr now) (tb_reservations t)"
proof -
  have "rw_id q \<in> rw_id ` set (expired_rows dr now t) \<longleftrightarrow> q \<in> set (expired_rows dr now t)"
    if "q \<in> set (tb_reservations t)" for q
    using tables_wfD(2) [OF assms] that
    by (auto simp: expired_rows_def distinct_map dest: inj_onD)
  then show ?thesis
    by (auto simp: expire_tables_def expire_rows_reservations expire_row_def expired_rows_def)
qed

lemma expire_tables_sequence [simp]: "tb_sequence (expire_tables dr now t) = tb_sequence t"
proof -
  have "tb_sequence (expire_rows rows t) = tb_sequence t" for rows
    by (induction rows arbitrary: t) (simp_all add: expire_rows_def)
  then show ?thesis by (simp add: expire_tables_def)
qed

lemma index_unique:
  assumes "distinct (index_entries rows)" "p \<in> set rows" "q \<in> set rows"
    and "rw_slot p = rw_slot q" "rw_idempotency_key p = rw_idempotency_key q" "rw_idempotency_key q \<noteq> None"
  shows "p = q"
proof -
  have "inj_on (\<lambda>r. (rw_slot r, rw_idempotency_key r)) (set (filter (\<lambda>r. rw_idempotency_key r \<noteq> None) rows))"
    using assms(1) by (simp add: index_entries_def distinct_map)
  then show ?thesis by (rule inj_onD) (use assms in auto)
qed

end
