(* ===== verification/Sql_Transactions.thy ===== *)
theory Sql_Transactions
  imports Sql_Tables
begin

text \<open>
  Transactions over a database whose calls may fail: however they fail, a transaction has its whole
  effect or none, and it answers as a database that works would, or with an error. \<open>calm\<close> is the same
  transaction on a database that works.
\<close>

section \<open>Steps that borrow a transaction\<close>

definition calm :: "transaction \<Rightarrow> transaction" where
  "calm tx = tx\<lparr>tx_events := []\<rparr>"

lemma calm_simps [simp]:
  "tx_saved (calm tx) = tx_saved tx" "tx_tables (calm tx) = tx_tables tx" "tx_events (calm tx) = []"
  "calm (calm tx) = calm tx" "calm (tx\<lparr>tx_events := es\<rparr>) = calm tx"
  "calm (tx\<lparr>tx_tables := t, tx_events := es\<rparr>) = calm (tx\<lparr>tx_tables := t\<rparr>)"
  by (simp_all add: calm_def)

lemma calm_id: "tx_events tx = [] \<Longrightarrow> calm tx = tx"
  by (simp add: calm_def)

lemma next_event_simps [simp]:
  "next_event [] = (Works, [])" "next_event (e # es) = (e, es)"
  by (simp_all add: next_event_def)

definition step_ok :: "'a tx_step \<Rightarrow> bool" where
  "step_ok f \<longleftrightarrow> (\<forall>tx.
     tx_saved (snd (f tx)) = tx_saved tx
   \<and> fst (f tx) \<noteq> Panic
   \<and> tx_events (snd (f (calm tx))) = []
   \<and> ((\<exists>m. fst (f tx) = Err m)
      \<or> fst (f tx) = fst (f (calm tx)) \<and> calm (snd (f tx)) = snd (f (calm tx))))"

lemma step_okD:
  assumes "step_ok f"
  shows "tx_saved (snd (f tx)) = tx_saved tx" "fst (f tx) \<noteq> Panic" "tx_events (snd (f (calm tx))) = []"
  using assms by (simp_all add: step_ok_def)

text \<open>What a step of a troubled database is: an error, or the step of a calm one.\<close>

lemma step_ok_cases [consumes 1, case_names fails runs]:
  assumes "step_ok f"
  obtains (fails) m tx' where "f tx = (Err m, tx')" "tx_saved tx' = tx_saved tx"
  | (runs) x tx' where "f tx = (Ok x, tx')" "f (calm tx) = (Ok x, calm tx')" "tx_saved tx' = tx_saved tx"
proof -
  obtain x tx' where f: "f tx = (x, tx')" by fastforce
  obtain xh txh where h: "f (calm tx) = (xh, txh)" by fastforce
  show ?thesis
    using assms [unfolded step_ok_def, rule_format, of tx] f h that by (cases x) auto
qed

lemma execute_simps:
  "tx_events (tx :: transaction) = [] \<Longrightarrow> execute q tx =
     (case q (tx_tables tx) of Inl m \<Rightarrow> (Err (sql_error m), tx) | Inr (x, t) \<Rightarrow> (Ok x, tx\<lparr>tx_tables := t\<rparr>))"
  by (auto simp: execute_def split: sum.splits)

lemma step_ok_execute: "step_ok (execute q)"
  unfolding step_ok_def
proof
  fix tx :: transaction
  obtain e es where "next_event (tx_events tx) = (e, es)" by fastforce
  then show "tx_saved (snd (execute q tx)) = tx_saved tx \<and> fst (execute q tx) \<noteq> Panic \<and>
      tx_events (snd (execute q (calm tx))) = [] \<and>
      ((\<exists>m. fst (execute q tx) = Err m) \<or>
       fst (execute q tx) = fst (execute q (calm tx)) \<and> calm (snd (execute q tx)) = snd (execute q (calm tx)))"
    by (cases e; cases "q (tx_tables tx)") (auto simp: execute_def calm_def)
qed

lemma step_ok_return:
  assumes "x \<noteq> Panic"
  shows "step_ok (\<lambda>tx. (x, tx))"
  using assms by (simp add: step_ok_def)

lemma step_ok_then:
  assumes f: "step_ok f" and g: "\<And>x. step_ok (g x)"
  shows "step_ok (\<lambda>tx. tx_then (f tx) g)"
  unfolding step_ok_def
proof
  fix tx :: transaction
  show "tx_saved (snd (tx_then (f tx) g)) = tx_saved tx \<and> fst (tx_then (f tx) g) \<noteq> Panic \<and>
      tx_events (snd (tx_then (f (calm tx)) g)) = [] \<and>
      ((\<exists>m. fst (tx_then (f tx) g) = Err m) \<or>
       fst (tx_then (f tx) g) = fst (tx_then (f (calm tx)) g) \<and>
       calm (snd (tx_then (f tx) g)) = snd (tx_then (f (calm tx)) g))"
  using f proof (cases rule: step_ok_cases [where tx = tx])
    case (fails m tx')
    have "tx_events (snd (tx_then (f (calm tx)) g)) = []"
    using f proof (cases rule: step_ok_cases [where tx = "calm tx"])
      case (runs x txh)
      have "txh = calm txh" using runs by simp
      then show ?thesis using runs step_okD(3) [OF g, of x txh] by simp
    qed (use step_okD(3) [OF f, of tx] in simp)
    with fails show ?thesis by simp
  next
    case (runs x tx')
    with g [of x, unfolded step_ok_def, rule_format, of tx'] show ?thesis by simp
  qed
qed

lemma step_ok_case_option:
  "step_ok f \<Longrightarrow> (\<And>x. step_ok (g x)) \<Longrightarrow>
     step_ok (\<lambda>tx. case v of None \<Rightarrow> f tx | Some x \<Rightarrow> g x tx)"
  by (cases v) simp_all

lemmas step_ok_intros = step_ok_execute step_ok_return step_ok_then step_ok_case_option

section \<open>Functions that own a transaction\<close>

definition all_or_nothing :: "(transaction \<Rightarrow> ('a, store_error) outcome \<times> database) \<Rightarrow> transaction \<Rightarrow> bool" where
  "all_or_nothing g tx \<longleftrightarrow>
     db_events (snd (g (calm tx))) = []
   \<and> (fst (g tx) = fst (g (calm tx)) \<and> db_tables (snd (g tx)) = db_tables (snd (g (calm tx)))
      \<or> (\<exists>m. fst (g tx) = Err m) \<and> db_tables (snd (g tx)) \<in> {tx_saved tx, db_tables (snd (g (calm tx)))})"

lemma all_or_nothing_commit: "all_or_nothing (commit_then x) tx"
proof -
  obtain e es where "next_event (tx_events tx) = (e, es)" by fastforce
  then show ?thesis
    by (cases e) (simp_all add: all_or_nothing_def commit_then_def tx_commit_def calm_def)
qed

lemma all_or_nothing_drop: "x \<noteq> Panic \<Longrightarrow> all_or_nothing (\<lambda>tx. (x, tx_drop tx)) tx"
  by (simp add: all_or_nothing_def tx_drop_def)

lemma all_or_nothing_or_drop:
  assumes f: "step_ok f"
    and g: "\<And>x tx'. f (calm tx) = (Ok x, calm tx') \<Longrightarrow> tx_saved tx' = tx_saved tx \<Longrightarrow> all_or_nothing (g x) tx'"
  shows "all_or_nothing (\<lambda>tx. or_drop (f tx) g) tx"
proof -
  have calm: "db_events (snd (or_drop (f (calm tx)) g)) = []"
  using f proof (cases rule: step_ok_cases [where tx = "calm tx"])
    case (fails m txh)
    then show ?thesis using step_okD(3) [OF f, of tx] by (simp add: tx_drop_def)
  next
    case (runs x txh)
    have "calm txh = txh" using runs by simp
    then show ?thesis
      using runs g [of x txh] by (simp add: all_or_nothing_def)
  qed
  show ?thesis
  using f proof (cases rule: step_ok_cases [where tx = tx])
    case (fails m tx')
    with calm show ?thesis by (simp add: all_or_nothing_def tx_drop_def)
  next
    case (runs x tx')
    from g [OF runs(2,3)] show ?thesis using runs by (simp add: all_or_nothing_def)
  qed
qed

lemma all_or_nothing_if:
  "(b \<Longrightarrow> all_or_nothing f tx) \<Longrightarrow> (\<not> b \<Longrightarrow> all_or_nothing g tx) \<Longrightarrow>
     all_or_nothing (\<lambda>tx. if b then f tx else g tx) tx"
  by (cases b) simp_all

lemma all_or_nothing_case_option:
  "(v = None \<Longrightarrow> all_or_nothing f tx) \<Longrightarrow> (\<And>x. v = Some x \<Longrightarrow> all_or_nothing (g x) tx) \<Longrightarrow>
     all_or_nothing (\<lambda>tx. case v of None \<Rightarrow> f tx | Some x \<Rightarrow> g x tx) tx"
  by (cases v) simp_all

section \<open>Calls on the pool\<close>

definition atomic_call :: "'a db_call \<Rightarrow> bool" where
  "atomic_call f \<longleftrightarrow> (\<forall>d. let h = f (d\<lparr>db_events := []\<rparr>) in
     db_events (snd h) = []
   \<and> (fst (f d) = fst h \<and> db_tables (snd (f d)) = db_tables (snd h)
      \<or> (\<exists>m. fst (f d) = Err m) \<and> db_tables (snd (f d)) \<in> {db_tables d, db_tables (snd h)}))"

definition tx_open :: "database \<Rightarrow> transaction" where
  "tx_open d = \<lparr>tx_saved = db_tables d, tx_tables = db_tables d, tx_events = []\<rparr>"

lemma tx_begin_calm: "db_events d = [] \<Longrightarrow> tx_begin d = (Ok (tx_open d), d)"
  by (simp add: tx_begin_def tx_open_def)

lemma tx_begin_cases:
  obtains (fails) m es where "tx_begin d = (Err (sql_error m), d\<lparr>db_events := es\<rparr>)"
  | (runs) tx d' where "tx_begin d = (Ok tx, d')" "calm tx = tx_open d"
proof -
  obtain e es where "next_event (db_events d) = (e, es)" by fastforce
  with that show ?thesis by (cases e) (auto simp: tx_begin_def tx_open_def calm_def)
qed

lemma atomic_call_begin:
  assumes "\<And>d tx. calm tx = tx_open d \<Longrightarrow> all_or_nothing g tx"
  shows "atomic_call (\<lambda>d. db_then (tx_begin d) (\<lambda>tx _. g tx))"
  unfolding atomic_call_def Let_def
proof
  fix d
  have h: "db_then (tx_begin (d\<lparr>db_events := []\<rparr>)) (\<lambda>tx _. g tx) = g (tx_open d)"
    by (simp add: tx_begin_calm tx_open_def)
  have "calm (tx_open d) = tx_open d" by (simp add: tx_open_def calm_id)
  then have calm: "db_events (snd (g (tx_open d))) = []"
    using assms [of "tx_open d" d] by (simp add: all_or_nothing_def)
  show "db_events (snd (db_then (tx_begin (d\<lparr>db_events := []\<rparr>)) (\<lambda>tx _. g tx))) = [] \<and>
      (fst (db_then (tx_begin d) (\<lambda>tx _. g tx)) = fst (db_then (tx_begin (d\<lparr>db_events := []\<rparr>)) (\<lambda>tx _. g tx)) \<and>
       db_tables (snd (db_then (tx_begin d) (\<lambda>tx _. g tx))) =
         db_tables (snd (db_then (tx_begin (d\<lparr>db_events := []\<rparr>)) (\<lambda>tx _. g tx))) \<or>
       (\<exists>m. fst (db_then (tx_begin d) (\<lambda>tx _. g tx)) = Err m) \<and>
       db_tables (snd (db_then (tx_begin d) (\<lambda>tx _. g tx))) \<in>
         {db_tables d, db_tables (snd (db_then (tx_begin (d\<lparr>db_events := []\<rparr>)) (\<lambda>tx _. g tx)))})"
    unfolding h
  proof (cases rule: tx_begin_cases [of d])
    case (runs tx d')
    have "tx_saved tx = db_tables d"
      using runs(2) by (metis calm_simps(1) tx_open_def transaction.select_convs(1))
    with assms [OF runs(2)] runs show "db_events (snd (g (tx_open d))) = [] \<and>
      (fst (db_then (tx_begin d) (\<lambda>tx _. g tx)) = fst (g (tx_open d)) \<and>
       db_tables (snd (db_then (tx_begin d) (\<lambda>tx _. g tx))) = db_tables (snd (g (tx_open d))) \<or>
       (\<exists>m. fst (db_then (tx_begin d) (\<lambda>tx _. g tx)) = Err m) \<and>
       db_tables (snd (db_then (tx_begin d) (\<lambda>tx _. g tx))) \<in> {db_tables d, db_tables (snd (g (tx_open d)))})"
      by (simp add: all_or_nothing_def)
  qed (use calm in simp)
qed

lemma atomic_call_attempt:
  "(\<And>x. m = Ok x \<Longrightarrow> atomic_call (f x)) \<Longrightarrow> atomic_call (\<lambda>d. attempt m f d)"
  by (cases m) (simp_all add: atomic_call_def)

text \<open>A fact about the calls of a working database holds for every database.\<close>

lemma atomic_call_cases [consumes 1, case_names same lost nothing]:
  assumes "atomic_call f"
  obtains (same) dh where "f (d\<lparr>db_events := []\<rparr>) = (fst (f d), dh)" "db_tables (snd (f d)) = db_tables dh"
  | (lost) m xh dh where "f (d\<lparr>db_events := []\<rparr>) = (xh, dh)" "fst (f d) = Err m" "db_tables (snd (f d)) = db_tables dh"
  | (nothing) m where "fst (f d) = Err m" "db_tables (snd (f d)) = db_tables d"
  using assms [unfolded atomic_call_def Let_def, rule_format, of d]
  by (cases "f (d\<lparr>db_events := []\<rparr>)") auto

end
