(* ===== verification/Sqlite_Operations.thy ===== *)
theory Sqlite_Operations
  imports Sqlite_Store Sql_Invariant Sql_Transactions
begin

text \<open>
  The operations of the SQLite store: each is all or nothing however the database fails, and on a
  working database each is a simple function of the tables, for which the contract is proved.
\<close>

section \<open>All or nothing\<close>

lemma usage_from_i64_no_panic [simp]: "usage_from_i64 c r \<noteq> Panic"
  by (simp add: usage_from_i64_def u64_from_i64_def)

lemma id_from_i64_no_panic [simp]: "id_from_i64 i \<noteq> Panic"
  by (simp add: id_from_i64_def u64_from_i64_def)

lemma step_ok_load_usage: "step_ok (sqlite_load_usage s)"
  unfolding sqlite_load_usage_def
  by (intro step_ok_intros) (auto split: option.splits)

lemma step_ok_expire_rows: "step_ok (sqlite_expire_rows rows)"
proof (induction rows)
  case Nil
  then show ?case using step_ok_return [of "Ok ()"] by simp
next
  case (Cons row rows)
  then have "step_ok (\<lambda>tx. tx_then (execute (release_reserved (rw_amount row) (rw_slot row)) tx) (\<lambda>_ tx.
     tx_then (execute (update_status (rw_id row) ''expired'') tx) (\<lambda>_ tx.
     sqlite_expire_rows rows tx)))"
    by (intro step_ok_intros)
  then show ?case by (simp add: sqlite_expire_rows.simps(2) [abs_def])
qed

lemma step_ok_cleanup: "step_ok (sqlite_cleanup_expired dr now)"
  unfolding sqlite_cleanup_expired_def [abs_def]
  by (intro step_ok_intros step_ok_expire_rows)

lemma step_ok_existing: "step_ok (sqlite_existing_idempotent_reservation s i)"
proof -
  have "and_then (id_from_i64 j) (\<lambda>rid. Ok (Some (srr_allow (store_reservation_new rid e) u))) \<noteq> Panic" for j e u
    by (simp add: id_from_i64_def u64_from_i64_def)
  then show ?thesis
    unfolding sqlite_existing_idempotent_reservation_def [abs_def]
    by (intro step_ok_intros step_ok_load_usage) simp_all
qed

lemma atomic_sqlite_usage: "atomic_call (sqlite_usage dr k w now)"
  unfolding sqlite_usage_def [abs_def]
  by (intro atomic_call_begin all_or_nothing_or_drop step_ok_cleanup step_ok_load_usage all_or_nothing_commit)

lemma all_or_nothing_finish_active: "all_or_nothing (sqlite_finish_active i action utc_now row) tx"
  unfolding sqlite_finish_active_def [abs_def]
  by (cases "rw_expires_at row \<le> utc_now"; cases action)
    (auto intro!: all_or_nothing_or_drop step_ok_execute all_or_nothing_commit)

lemma all_or_nothing_finish_row:
  "all_or_nothing (\<lambda>tx.
     case found of
       None \<Rightarrow> (Err StReservationNotFound, tx_drop tx)
     | Some row \<Rightarrow>
         if rw_status row = ''committed'' \<or> rw_status row = ''refunded''
         then commit_then (Ok ()) tx
         else if rw_status row = ''expired''
         then commit_then (Err StReservationExpired) tx
         else if rw_status row = ''active''
         then sqlite_finish_active i action utc_now row tx
         else (Err (StOther ''unknown reservation status''), tx_drop tx)) tx"
  by (intro all_or_nothing_case_option all_or_nothing_if all_or_nothing_commit
      all_or_nothing_finish_active all_or_nothing_drop) simp_all

lemma atomic_sqlite_finish: "atomic_call (sqlite_finish_reservation utc_now action rid)"
  unfolding sqlite_finish_reservation_def [abs_def]
  by (intro atomic_call_attempt atomic_call_begin all_or_nothing_or_drop step_ok_execute
      all_or_nothing_finish_row)

section \<open>A failed insert\<close>

text \<open>
  After a failed insert the store looks again at the tables the transaction started from. It finds a
  reservation there only when the unique index holds the key, so only when the insert fails on a
  working database too.
\<close>

lemma atomic_sqlite_pool: "atomic_call (sqlite_existing_from_pool dr store_key r)"
proof (cases "rr_idempotency_key r")
  case None
  then show ?thesis by (simp add: sqlite_existing_from_pool_def [abs_def] atomic_call_def)
next
  case (Some i)
  have "atomic_call (\<lambda>d. db_then (tx_begin d) (\<lambda>tx _.
      or_drop (sqlite_existing_idempotent_reservation (bind_slot dr store_key (rr_window r))
        (idempotency_as_str i) tx) (\<lambda>result tx. commit_then (Ok result) tx)))"
    by (intro atomic_call_begin all_or_nothing_or_drop step_ok_existing all_or_nothing_commit)
  with Some show ?thesis by (simp add: sqlite_existing_from_pool_def [abs_def])
qed

text \<open>The answer of the second look on a working database, and the rows it rests on.\<close>

definition replayed ::
    "slot \<Rightarrow> string option \<Rightarrow> tables \<Rightarrow> (store_reservation_result option, store_error) outcome" where
  "replayed s i t =
     (case find (\<lambda>q. rw_slot q = s \<and> i \<noteq> None \<and> rw_idempotency_key q = i \<and>
              rw_status q \<in> {''active'', ''committed''}) (tb_reservations t) of
        None \<Rightarrow> Ok None
      | Some q \<Rightarrow>
          and_then (case counter_find s t of
              None \<Rightarrow> Ok default_counter_usage
            | Some c \<Rightarrow> usage_from_i64 (ct_committed c) (ct_reserved c)) (\<lambda>usage.
          and_then (id_from_i64 (rw_id q)) (\<lambda>rid.
          Ok (Some (srr_allow (store_reservation_new rid (rw_expires_at q)) usage)))))"

lemma load_usage_calm:
  assumes "tx_events tx = []"
  shows "sqlite_load_usage s tx =
    (case counter_find s (tx_tables tx) of
       None \<Rightarrow> Ok default_counter_usage
     | Some c \<Rightarrow> usage_from_i64 (ct_committed c) (ct_reserved c), tx)"
  using assms by (simp add: sqlite_load_usage_def execute_simps select_counter_def split: option.splits)

lemma existing_calm:
  assumes "tx_events tx = []"
  shows "sqlite_existing_idempotent_reservation s i tx = (replayed s (Some i) (tx_tables tx), tx)"
proof (cases "find (\<lambda>r. rw_slot r = s \<and> rw_idempotency_key r = Some i \<and>
    rw_status r \<in> {''active'', ''committed''}) (tb_reservations (tx_tables tx))")
  case None
  with assms show ?thesis
    by (simp add: sqlite_existing_idempotent_reservation_def execute_simps select_idempotent_def replayed_def)
next
  case (Some q)
  define u where "u = (case counter_find s (tx_tables tx) of
       None \<Rightarrow> Ok default_counter_usage
     | Some c \<Rightarrow> usage_from_i64 (ct_committed c) (ct_reserved c))"
  have load: "sqlite_load_usage s tx = (u, tx)"
    using assms by (simp add: load_usage_calm u_def)
  show ?thesis
    using assms Some load
    by (cases u) (simp_all add: sqlite_existing_idempotent_reservation_def execute_simps select_idempotent_def
        replayed_def u_def [symmetric])
qed

lemma replayed_no_panic [simp]: "replayed s i t \<noteq> Panic"
  by (auto simp: replayed_def id_from_i64_def u64_from_i64_def usage_from_i64_def split: option.splits)

lemma replayed_no_key [simp]: "replayed s None t = Ok None"
  by (simp add: replayed_def find_None_iff split: option.splits)

lemma pool_calm:
  assumes "db_events d = []"
  shows "sqlite_existing_from_pool dr store_key r d =
     (replayed (bind_slot dr store_key (rr_window r))
        (map_option idempotency_as_str (rr_idempotency_key r)) (db_tables d), d)"
proof (cases "rr_idempotency_key r")
  case (Some i)
  have "replayed s j t \<noteq> Panic" for s j t by simp
  with Some assms show ?thesis
    by (cases "replayed (bind_slot dr store_key (rr_window r)) (Some (idempotency_as_str i)) (db_tables d)")
      (simp_all add: sqlite_existing_from_pool_def tx_begin_calm existing_calm tx_open_def
        commit_then_def tx_commit_def tx_drop_def)
qed (simp add: sqlite_existing_from_pool_def)

lemma replayed_row:
  assumes "replayed s i t = Ok (Some x)"
  obtains q where "q \<in> set (tb_reservations t)" "rw_slot q = s" "i \<noteq> None" "rw_idempotency_key q = i"
  using assms by (auto simp: replayed_def split: option.splits dest!: find_SomeD)

text \<open>No reservation is ever removed from the table.\<close>

definition row_keys :: "tables \<Rightarrow> (slot \<times> string option) list" where
  "row_keys t = map (\<lambda>q. (rw_slot q, rw_idempotency_key q)) (tb_reservations t)"

definition keys_kept :: "transaction \<Rightarrow> bool" where
  "keys_kept tx \<longleftrightarrow> set (row_keys (tx_saved tx)) \<subseteq> set (row_keys (tx_tables tx))"

lemma insert_failed_result:
  assumes "sqlite_insert_failed dr store_key r e tx = (x, d)"
  shows "db_tables d = tx_saved tx"
    and "(\<exists>m. x = Err m) \<or> (\<exists>y. x = Ok y \<and>
      replayed (bind_slot dr store_key (rr_window r))
        (map_option idempotency_as_str (rr_idempotency_key r)) (tx_saved tx) = Ok (Some y))"
proof -
  have "db_tables d = tx_saved tx \<and> ((\<exists>m. x = Err m) \<or> (\<exists>y. x = Ok y \<and>
      replayed (bind_slot dr store_key (rr_window r))
        (map_option idempotency_as_str (rr_idempotency_key r)) (tx_saved tx) = Ok (Some y)))"
  proof (cases "rr_idempotency_key r = None")
    case True
    with assms show ?thesis by (auto simp: sqlite_insert_failed_def tx_drop_def)
  next
    case False
    obtain y d1 where roll: "tx_rollback tx = (y, d1)" by fastforce
    then have d1: "db_tables d1 = tx_saved tx" "y \<noteq> Panic"
      by (auto simp: tx_rollback_def next_event_def split: list.splits db_event.splits)
    show ?thesis
    proof (cases y)
      case (Ok u)
      obtain z d2 where pool: "sqlite_existing_from_pool dr store_key r d1 = (z, d2)" by fastforce
      have calm: "sqlite_existing_from_pool dr store_key r (d1\<lparr>db_events := []\<rparr>) =
          (replayed (bind_slot dr store_key (rr_window r))
            (map_option idempotency_as_str (rr_idempotency_key r)) (tx_saved tx), d1\<lparr>db_events := []\<rparr>)"
        using d1 by (simp add: pool_calm)
      have x: "(x, d) = (case z of Ok (Some v) \<Rightarrow> (Ok v, d2) | Ok None \<Rightarrow> (Err e, d2)
          | Err e' \<Rightarrow> (Err e', d2) | Panic \<Rightarrow> (Panic, d2))"
        using assms False roll Ok pool
        by (auto simp: sqlite_insert_failed_def split: outcome.splits option.splits)
      from atomic_sqlite_pool [of dr store_key r] show ?thesis
      proof (cases rule: atomic_call_cases [where d = d1])
        case (same dh)
        then show ?thesis using calm pool d1 x by (auto split: outcome.splits option.splits)
      next
        case (lost m xh dh)
        then show ?thesis using calm pool d1 x by auto
      next
        case (nothing m)
        then show ?thesis using pool d1 x by auto
      qed
    qed (use assms False roll d1 in \<open>auto simp: sqlite_insert_failed_def\<close>)
  qed
  then show "db_tables d = tx_saved tx"
    and "(\<exists>m. x = Err m) \<or> (\<exists>y. x = Ok y \<and>
      replayed (bind_slot dr store_key (rr_window r))
        (map_option idempotency_as_str (rr_idempotency_key r)) (tx_saved tx) = Ok (Some y))"
    by blast+
qed


lemma insert_failed_calm:
  assumes "tx_events tx = []"
  shows "sqlite_insert_failed dr store_key r e tx =
    (case replayed (bind_slot dr store_key (rr_window r))
        (map_option idempotency_as_str (rr_idempotency_key r)) (tx_saved tx) of
       Ok (Some x) \<Rightarrow> Ok x | Ok None \<Rightarrow> Err e | Err e' \<Rightarrow> Err e' | Panic \<Rightarrow> Panic,
     \<lparr>db_tables = tx_saved tx, db_events = []\<rparr>)"
  using assms
  by (cases "rr_idempotency_key r")
    (auto simp: sqlite_insert_failed_def tx_drop_def tx_rollback_def pool_calm split: outcome.splits option.splits)

lemma row_keys_in:
  "(s, i) \<in> set (row_keys t) \<Longrightarrow>
     \<exists>p \<in> set (tb_reservations t). rw_slot p = s \<and> rw_idempotency_key p = i"
  by (auto simp: row_keys_def)

lemma insert_Inl:
  assumes "q \<in> set (tb_reservations t)" "rw_slot q = s" "i \<noteq> None" "rw_idempotency_key q = i"
  shows "\<exists>m. insert_reservation_row dr s a e i t = Inl m"
  using assms by (auto simp: insert_reservation_row_def list_ex_iff)

lemma row_keys_settle [simp]: "row_keys (settle_row st r t) = row_keys t"
  by (simp add: row_keys_def)

lemma row_keys_expire [simp]: "row_keys (expire_rows rows t) = row_keys t"
  by (induction rows arbitrary: t) (simp_all add: expire_rows_def)

lemma expire_one_calm:
  "on_counters (\<lambda>c. c\<lparr>ct_reserved := max (ct_reserved c - rw_amount r) 0\<rparr>) (rw_slot r) t
     \<lparr>tb_reservations := map (\<lambda>q. if rw_id q = rw_id r then q\<lparr>rw_status := ''expired''\<rparr> else q)
       (tb_reservations t)\<rparr> = settle_row ''expired'' r t"
proof -
  have "(\<lambda>c. c\<lparr>ct_reserved := max (ct_reserved c - rw_amount r) 0,
      ct_committed := ct_committed c + 0\<rparr>) = (\<lambda>c. c\<lparr>ct_reserved := max (ct_reserved c - rw_amount r) 0\<rparr>)"
    by (simp add: fun_eq_iff)
  then show ?thesis by (simp add: settle_row_def)
qed

lemma expire_rows_calm:
  "tx_events tx = [] \<Longrightarrow> sqlite_expire_rows rows tx =
     (Ok (), tx\<lparr>tx_tables := expire_rows rows (tx_tables tx)\<rparr>)"
proof (induction rows arbitrary: tx)
  case (Cons r rows)
  then show ?case
    by (simp add: execute_simps release_reserved_def update_status_def expire_one_calm expire_rows_def)
qed (simp add: expire_rows_def)

lemma cleanup_calm:
  "tx_events tx = [] \<Longrightarrow> sqlite_cleanup_expired dr now tx =
     (Ok (), tx\<lparr>tx_tables := expire_tables dr now (tx_tables tx)\<rparr>)"
  by (simp add: sqlite_cleanup_expired_def execute_simps select_active_expired_def expire_rows_calm
      expire_tables_def expired_rows_def)

section \<open>Reserving is all or nothing\<close>

lemma all_or_nothing_insert:
  fixes tx :: transaction
  assumes keys: "keys_kept tx"
    and q: "q = insert_reservation_row dr (bind_slot dr store_key (rr_window r)) amount expires_at
               (map_option idempotency_as_str (rr_idempotency_key r))"
    and f: "\<And>n. step_ok (f n)" and g: "\<And>n u. g n u = commit_then (h n u)"
  shows "all_or_nothing (\<lambda>tx.
    case execute q tx of
      (Ok n, tx) \<Rightarrow> or_drop (f n tx) (g n)
    | (Err e, tx) \<Rightarrow> sqlite_insert_failed dr store_key r e tx
    | (Panic, tx) \<Rightarrow> (Panic, tx_drop tx)) tx" (is "all_or_nothing ?G tx")
proof -
  have ok: "all_or_nothing (\<lambda>tx. or_drop (f n tx) (g n)) tx'" for n tx'
    using f by (intro all_or_nothing_or_drop) (simp_all add: g all_or_nothing_commit)
  have calm: "db_events (snd (?G (calm tx))) = []"
  proof (cases "q (tx_tables tx)")
    case (Inl m)
    then show ?thesis by (simp add: execute_simps insert_failed_calm)
  next
    case (Inr y)
    obtain n t where y: "y = (n, t)" by (cases y)
    let ?tx = "(calm tx)\<lparr>tx_tables := t\<rparr>"
    have same: "calm ?tx = ?tx" by (simp add: calm_def)
    have "db_events (snd (or_drop (f n ?tx) (g n))) = []"
      using ok [of n ?tx] unfolding all_or_nothing_def same by (rule conjunct1)
    then show ?thesis
      using Inr y by (simp add: execute_simps)
  qed
  from step_ok_execute [of q] show ?thesis
  proof (cases rule: step_ok_cases [where tx = tx])
    case (runs n tx')
    then have G: "?G tx = or_drop (f n tx') (g n)" "?G (calm tx) = or_drop (f n (calm tx')) (g n)" by simp_all
    show ?thesis
      using ok [of n tx'] unfolding all_or_nothing_def G runs(3) .
  next
    case (fails m tx')
    obtain x d where fail: "sqlite_insert_failed dr store_key r m tx' = (x, d)" by fastforce
    note res = insert_failed_result [OF fail]
    from res(2) show ?thesis
    proof (elim disjE exE conjE)
      fix y assume y: "x = Ok y" "replayed (bind_slot dr store_key (rr_window r))
        (map_option idempotency_as_str (rr_idempotency_key r)) (tx_saved tx') = Ok (Some y)"
      obtain p where p: "p \<in> set (tb_reservations (tx_saved tx'))" "rw_slot p = bind_slot dr store_key (rr_window r)"
        "map_option idempotency_as_str (rr_idempotency_key r) \<noteq> None"
        "rw_idempotency_key p = map_option idempotency_as_str (rr_idempotency_key r)"
        by (rule replayed_row [OF y(2)])
      have "(rw_slot p, rw_idempotency_key p) \<in> set (row_keys (tx_saved tx))"
        using p(1) unfolding row_keys_def fails(2) set_map by (rule imageI)
      then have "(rw_slot p, rw_idempotency_key p) \<in> set (row_keys (tx_tables tx))"
        using keys unfolding keys_kept_def by (rule rev_subsetD)
      from row_keys_in [OF this] obtain p' where p': "p' \<in> set (tb_reservations (tx_tables tx))" "rw_slot p' = rw_slot p"
        "rw_idempotency_key p' = rw_idempotency_key p" by (elim bexE conjE)
      have "\<exists>m'. q (tx_tables tx) = Inl m'"
        unfolding q by (rule insert_Inl [OF p'(1)]) (simp_all only: p' p not_False_eq_True)
      then obtain m' where "q (tx_tables tx) = Inl m'" by (elim exE)
      then have "?G (calm tx) = (Ok y, \<lparr>db_tables = tx_saved tx, db_events = []\<rparr>)"
        using y(2) fails(2) by (simp add: execute_simps insert_failed_calm)
      moreover have "?G tx = (Ok y, d)" using fails(1) fail y(1) by simp
      ultimately show ?thesis using res(1) fails(2) unfolding all_or_nothing_def by simp
    next
      fix m' assume "x = Err m'"
      then have "?G tx = (Err m', d)" using fails(1) fail by simp
      with calm res(1) fails(2) show ?thesis unfolding all_or_nothing_def by simp
    qed
  qed
qed


lemma keys_kept_step:
  "keys_kept tx \<Longrightarrow> tx_saved tx' = tx_saved tx \<Longrightarrow> row_keys (tx_tables tx') = row_keys (tx_tables tx)
     \<Longrightarrow> keys_kept tx'"
  by (simp add: keys_kept_def)

lemma calm_tables: "calm tx' = calm tx\<lparr>tx_tables := t\<rparr> \<Longrightarrow> tx_tables tx' = t"
  by (metis calm_simps(2) transaction.select_convs(2) transaction.surjective transaction.update_convs(2))

lemma all_or_nothing_admit:
  assumes "keys_kept tx"
  shows "all_or_nothing (sqlite_admit dr store_key amount effective_limit expires_at r) tx"
  unfolding sqlite_admit_def [abs_def] Let_def
proof (intro all_or_nothing_or_drop all_or_nothing_if step_ok_execute step_ok_load_usage
    all_or_nothing_commit all_or_nothing_insert)
  let ?s = "bind_slot dr store_key (rr_window r)"
  fix u tx1 n tx2
  assume 1: "execute (insert_counter_if_absent ?s) (calm tx) = (Ok u, calm tx1)" "tx_saved tx1 = tx_saved tx"
    and 2: "execute (raise_reserved dr amount effective_limit ?s) (calm tx1) = (Ok n, calm tx2)"
      "tx_saved tx2 = tx_saved tx1"
  have "row_keys (tx_tables tx1) = row_keys (tx_tables tx)"
    using 1(1) by (auto simp: execute_simps insert_counter_if_absent_def row_keys_def
        dest!: sym [of _ "calm tx1"] calm_tables)
  moreover have "row_keys (tx_tables tx2) = row_keys (tx_tables tx1)"
    using 2(1) by (auto simp: execute_simps raise_reserved_def row_keys_def Let_def
        split: if_splits option.splits dest!: sym [of _ "calm tx2"] calm_tables)
  ultimately show "keys_kept tx2"
    using 1(2) 2(2) by (intro keys_kept_step [OF assms]) simp_all
qed simp_all

lemma atomic_sqlite_reserve: "atomic_call (sqlite_reserve_if_allowed lib dr r)"
  unfolding sqlite_reserve_if_allowed_def Let_def
proof (intro atomic_call_attempt atomic_call_begin all_or_nothing_or_drop step_ok_cleanup
    all_or_nothing_case_option all_or_nothing_commit all_or_nothing_admit)
  show "step_ok (\<lambda>tx. case rr_idempotency_key r of None \<Rightarrow> (Ok None, tx)
      | Some i \<Rightarrow> sqlite_existing_idempotent_reservation (bind_slot dr (codec_key (rr_key r)) (rr_window r))
          (idempotency_as_str i) tx)"
    by (intro step_ok_case_option step_ok_return step_ok_existing) simp
next
  fix d tx u tx1 x tx2
  let ?f = "\<lambda>tx. case rr_idempotency_key r of None \<Rightarrow> (Ok None, tx)
      | Some i \<Rightarrow> sqlite_existing_idempotent_reservation (bind_slot dr (codec_key (rr_key r)) (rr_window r))
          (idempotency_as_str i) tx"
  assume 0: "calm tx = tx_open d"
    and 1: "sqlite_cleanup_expired dr (rr_now r) (calm tx) = (Ok u, calm tx1)" "tx_saved tx1 = tx_saved tx"
    and 2: "?f (calm tx1) = (Ok x, calm tx2)" "tx_saved tx2 = tx_saved tx1"
  have "keys_kept (calm tx)" unfolding 0 by (simp add: keys_kept_def tx_open_def)
  then have "keys_kept tx" by (simp add: keys_kept_def)
  moreover have "row_keys (tx_tables tx1) = row_keys (tx_tables tx)"
    using 1(1) by (auto simp: cleanup_calm expire_tables_def dest!: sym [of _ "calm tx1"] calm_tables)
  moreover have "calm tx2 = calm tx1"
    using 2(1) by (auto simp: existing_calm split: option.splits)
  then have "tx_tables tx2 = tx_tables tx1" by (metis calm_simps(2))
  ultimately show "keys_kept tx2"
    using 1(2) 2(2) by (intro keys_kept_step [of tx tx2]) simp_all
qed

end
