(* ===== verification/Sqlite_Contract.thy ===== *)
theory Sqlite_Contract
  imports Sqlite_Operations
begin

text \<open>
  What the operations of the SQLite store do on a working database, and the laws of the store
  contract, which hold on every database because the operations are all or nothing.
\<close>

section \<open>Usage\<close>

definition usage_at :: "slot \<Rightarrow> tables \<Rightarrow> counter_usage" where
  "usage_at s t = counter_usage_new (word_of_int (committed_of s t)) (word_of_int (reserved_of s t))"

lemma loaded_usage:
  assumes "tables_wf t"
  shows "(case counter_find s t of
      None \<Rightarrow> Ok default_counter_usage
    | Some c \<Rightarrow> usage_from_i64 (ct_committed c) (ct_reserved c)) = Ok (usage_at s t)"
  using counters_nonneg [OF assms, of s]
  by (auto simp: usage_at_def committed_of_def reserved_of_def usage_from_i64_Ok counter_usage_new_def
      default_counter_usage_def split: option.splits)

lemma used_at:
  assumes "tables_wf t"
  shows "unat (cu_used (usage_at s t)) = tables_level t s"
  using usage_from_i64_used [OF counters_nonneg(2,1) [OF assms] tables_wfD(9) [OF assms], of s "usage_at s t"]
    counters_nonneg [OF assms, of s]
  by (simp add: tables_level_def usage_at_def usage_from_i64_Ok)

lemma load_usage_wf:
  "tx_events tx = [] \<Longrightarrow> tables_wf (tx_tables tx) \<Longrightarrow>
     sqlite_load_usage s tx = (Ok (usage_at s (tx_tables tx)), tx)"
  by (simp add: load_usage_calm loaded_usage)

lemma commit_then_calm:
  "tx_events tx = [] \<Longrightarrow> commit_then x tx = (x, \<lparr>db_tables = tx_tables tx, db_events = []\<rparr>)"
  by (simp add: commit_then_def tx_commit_def)

lemma tx_open_simps [simp]:
  "tx_saved (tx_open d) = db_tables d" "tx_tables (tx_open d) = db_tables d" "tx_events (tx_open d) = []"
  by (simp_all add: tx_open_def)

lemma usage_calm:
  assumes "db_events d = []" "tables_wf (db_tables d)"
  shows "sqlite_usage dr k w now d =
    (Ok (usage_at (bind_slot dr (codec_key k) w) (expire_tables dr now (db_tables d))),
     \<lparr>db_tables = expire_tables dr now (db_tables d), db_events = []\<rparr>)"
  using assms
  by (simp add: sqlite_usage_def tx_begin_calm cleanup_calm load_usage_wf expire_tables_wf_level commit_then_calm)

section \<open>Settling\<close>

lemma update_status_settle:
  "on_counters (\<lambda>c. c\<lparr>ct_reserved := max (ct_reserved c - rw_amount r) 0,
      ct_committed := ct_committed c + (if st = ''committed'' then rw_amount r else 0)\<rparr>) (rw_slot r) t
     \<lparr>tb_reservations := map (\<lambda>q. if rw_id q = rw_id r then q\<lparr>rw_status := st\<rparr> else q)
       (tb_reservations t)\<rparr> = settle_row st r t"
  by (simp add: settle_row_def)

fun finish_status :: "finish_action \<Rightarrow> string" where
  "finish_status FinishCommit = ''committed''"
| "finish_status FinishRefund = ''refunded''"

lemma finish_active_calm:
  assumes "tx_events tx = []" "rw_id row = i"
  shows "sqlite_finish_active i action utc_now row tx =
    (if rw_expires_at row \<le> utc_now
     then (Err StReservationExpired, \<lparr>db_tables = settle_row ''expired'' row (tx_tables tx), db_events = []\<rparr>)
     else (Ok (), \<lparr>db_tables = settle_row (finish_status action) row (tx_tables tx), db_events = []\<rparr>))"
proof -
  have "finish_delta action a = (if finish_status action = ''committed'' then a else 0, finish_status action)" for a
    by (cases action) simp_all
  then show ?thesis
    using assms
    by (simp add: sqlite_finish_active_def execute_simps release_reserved_def update_status_def
        settle_counter_def expire_one_calm [of row, unfolded assms(2)]
        update_status_settle [of row, unfolded assms(2)] commit_then_calm)
qed

lemma finish_calm:
  assumes "db_events d = []"
  shows "sqlite_finish_reservation utc_now action rid d =
    (if i64_max < uint (as_u64 rid)
     then (Err (StInvalidInput ''reservation id is too large for backend integer''), d)
     else case reservation_find (uint (as_u64 rid)) (db_tables d) of
       None \<Rightarrow> (Err StReservationNotFound, d)
     | Some row \<Rightarrow>
         if rw_status row = ''committed'' \<or> rw_status row = ''refunded'' then (Ok (), d)
         else if rw_status row = ''expired'' then (Err StReservationExpired, d)
         else if rw_status row = ''active''
         then (if rw_expires_at row \<le> utc_now
               then (Err StReservationExpired, d\<lparr>db_tables := settle_row ''expired'' row (db_tables d)\<rparr>)
               else (Ok (), d\<lparr>db_tables := settle_row (finish_status action) row (db_tables d)\<rparr>))
         else (Err (StOther ''unknown reservation status''), d))"
proof (cases "i64_max < uint (as_u64 rid)")
  case True
  then show ?thesis by (simp add: sqlite_finish_reservation_def to_i64_def)
next
  case False
  let ?i = "uint (as_u64 rid)"
  have ok: "to_i64 (as_u64 rid) ''reservation id'' = Ok ?i" using False by simp
  show ?thesis
  proof (cases "reservation_find ?i (db_tables d)")
    case None
    with False assms show ?thesis
      by (simp add: sqlite_finish_reservation_def ok tx_begin_calm execute_simps select_reservation_def tx_drop_def)
  next
    case (Some row)
    then have "rw_id row = ?i" unfolding reservation_find_def by (auto dest: find_SomeD)
    with Some False assms show ?thesis
      by (simp add: sqlite_finish_reservation_def ok tx_begin_calm execute_simps select_reservation_def tx_drop_def
          commit_then_calm finish_active_calm del: to_i64_Ok)
  qed
qed

lemma reservation_find_row:
  "reservation_find i t = Some row \<Longrightarrow> row \<in> set (tb_reservations t) \<and> rw_id row = i"
  unfolding reservation_find_def by (auto dest: find_SomeD)

lemma finish_calm_wf_level:
  assumes "db_events d = []" "tables_wf (db_tables d)"
  shows "tables_wf (db_tables (snd (sqlite_finish_reservation utc_now action rid d)))
    \<and> tables_level (db_tables (snd (sqlite_finish_reservation utc_now action rid d))) s \<le> tables_level (db_tables d) s"
proof -
  have "settled_status (finish_status action)" "settled_status ''expired''"
    by (cases action) (simp_all add: settled_status_def)
  then show ?thesis
    using assms(2) unfolding finish_calm [OF assms(1)]
    by (auto intro: settle_row_wf settle_row_level dest!: reservation_find_row split: option.splits)
qed

section \<open>Reserving\<close>

definition counter_added :: "slot \<Rightarrow> tables \<Rightarrow> tables" where
  "counter_added s t =
     (if counter_find s t = None
      then t\<lparr>tb_counters := tb_counters t @ [\<lparr>ct_slot = s, ct_committed = 0, ct_reserved = 0\<rparr>]\<rparr>
      else t)"

lemma counter_find_added:
  "counter_find s' (counter_added s t) =
     (if s' = s \<and> counter_find s t = None then Some \<lparr>ct_slot = s, ct_committed = 0, ct_reserved = 0\<rparr>
      else counter_find s' t)"
  by (auto simp: counter_added_def counter_find_def find_append split: option.splits)

lemma counter_added_same [simp]:
  "tb_reservations (counter_added s t) = tb_reservations t"
  "tb_sequence (counter_added s t) = tb_sequence t"
  "reserved_of s' (counter_added s t) = reserved_of s' t"
  "committed_of s' (counter_added s t) = committed_of s' t"
  "units_with st s' (counter_added s t) = units_with st s' t"
  "tables_level (counter_added s t) s' = tables_level t s'"
  "usage_at s' (counter_added s t) = usage_at s' t"
  by (auto simp: counter_added_def reserved_of_def committed_of_def units_with_def tables_level_def
      usage_at_def counter_find_def find_append split: option.splits)

lemma counter_added_wf:
  assumes "tables_wf t"
  shows "tables_wf (counter_added s t)"
proof -
  have "distinct (map ct_slot (tb_counters (counter_added s t)))"
    using tables_wfD(1) [OF assms]
    by (auto simp: counter_added_def counter_find_def find_None_iff image_iff)
  moreover have "slot_wf (counter_added s t) = slot_wf t" by (simp add: slot_wf_def fun_eq_iff)
  ultimately show ?thesis using assms unfolding tables_wf_def by simp
qed

lemma filter_distinct_key:
  assumes "distinct (map key xs)" "find (\<lambda>x. key x = k) xs = Some c"
  shows "filter (\<lambda>x. key x = k \<and> P x) xs = (if P c then [c] else [])"
  using assms
proof (induction xs)
  case (Cons x xs)
  show ?case
  proof (cases "key x = k")
    case True
    then have "\<forall>y \<in> set xs. key y \<noteq> k" using Cons.prems(1) by (auto simp: image_iff)
    with True Cons.prems(2) show ?thesis by (auto simp: filter_empty_conv)
  qed (use Cons in simp)
qed simp

definition sum_overflows :: "sql_driver \<Rightarrow> slot \<Rightarrow> int \<Rightarrow> tables \<Rightarrow> bool" where
  "sum_overflows dr s amount t \<longleftrightarrow>
     i64_max < committed_of s t + reserved_of s t + amount \<and> dr_overflow dr \<noteq> None"

lemma sum_overflows_added [simp]: "sum_overflows dr s' amount (counter_added s t) = sum_overflows dr s' amount t"
  by (simp add: sum_overflows_def)

text \<open>Raising a counter that is there: one row is affected, or none and nothing changes.\<close>

lemma raise_reserved_wf:
  assumes "distinct (map ct_slot (tb_counters t))" "counter_find s t \<noteq> None"
  shows "raise_reserved dr amount limit s t =
    (if sum_overflows dr s amount t
     then Inl (the (dr_overflow dr))
     else if committed_of s t + reserved_of s t + amount \<le> limit
     then Inr (1, on_counters (\<lambda>c. c\<lparr>ct_reserved := ct_reserved c + amount\<rparr>) s t)
     else Inr (0, t))"
proof -
  obtain c where c: "counter_find s t = Some c" using assms(2) by blast
  let ?P = "\<lambda>c. ct_committed c + ct_reserved c + amount \<le> limit"
  have *: "filter (\<lambda>c. ct_slot c = s \<and> ?P c) (tb_counters t) = (if ?P c then [c] else [])"
    using filter_distinct_key [OF assms(1), of s c ?P] c by (simp add: counter_find_def)
  have one: "ct_slot d = s \<longleftrightarrow> d = c" if "d \<in> set (tb_counters t)" for d
    using c that find_distinct [OF assms(1), of s] unfolding counter_find_def by (metis option.inject)
  have sum: "committed_of s t + reserved_of s t = ct_committed c + ct_reserved c"
    using c by (simp add: committed_of_def reserved_of_def)
  have over: "list_ex (\<lambda>d. ct_slot d = s \<and> i64_max < ct_committed d + ct_reserved d + amount) (tb_counters t) \<longleftrightarrow>
      i64_max < ct_committed c + ct_reserved c + amount"
    using one c find_distinct [OF assms(1), of s] by (auto simp: list_ex_iff counter_find_def)
  show ?thesis
  proof (cases "?P c")
    case True
    have "map (\<lambda>c. if ct_slot c = s \<and> ?P c then c\<lparr>ct_reserved := ct_reserved c + amount\<rparr> else c) (tb_counters t)
      = map (\<lambda>c. if ct_slot c = s then c\<lparr>ct_reserved := ct_reserved c + amount\<rparr> else c) (tb_counters t)"
      using one True by (intro map_cong) auto
    then show ?thesis using True * sum over by (auto simp: sum_overflows_def raise_reserved_def on_counters_def Let_def)
  next
    case False
    have "map (\<lambda>c. if ct_slot c = s \<and> ?P c then c\<lparr>ct_reserved := ct_reserved c + amount\<rparr> else c) (tb_counters t)
      = tb_counters t"
      using one False by (intro map_idI) auto
    then show ?thesis using False * sum over by (auto simp: sum_overflows_def raise_reserved_def Let_def)
  qed
qed

text \<open>A new active row on a raised counter.\<close>

definition admitted_tables ::
    "sql_driver \<Rightarrow> slot \<Rightarrow> int \<Rightarrow> datetime \<Rightarrow> string option \<Rightarrow> tables \<Rightarrow> tables" where
  "admitted_tables dr s amount expires_at i t =
     (on_counters (\<lambda>c. c\<lparr>ct_reserved := ct_reserved c + amount\<rparr>) s t)
     \<lparr>tb_reservations := tb_reservations t @
        [\<lparr>rw_id = sequence_next dr t, rw_slot = s, rw_amount = amount, rw_status = ''active'',
          rw_expires_at = dr_time dr expires_at, rw_idempotency_key = i\<rparr>],
      tb_sequence := sequence_next dr t\<rparr>"

lemma admitted_simps:
  assumes "counter_find s t \<noteq> None"
  shows "reserved_of s' (admitted_tables dr s amount e i t) = reserved_of s' t + (if s' = s then amount else 0)"
    and "committed_of s' (admitted_tables dr s amount e i t) = committed_of s' t"
    and "units_with st s' (admitted_tables dr s amount e i t) =
      units_with st s' t + (if s' = s \<and> st = ''active'' then amount else 0)"
  using assms
  by (auto simp: admitted_tables_def reserved_of_def committed_of_def units_with_def counter_find_on_counters
      split: option.splits)

lemma admitted_wf_level:
  assumes "tables_wf t" "counter_find s t \<noteq> None" "0 < amount"
    and "committed_of s t + reserved_of s t + amount \<le> limit" "limit \<le> i64_max" "sequence_next dr t \<le> i64_max"
    and "i = None \<or> \<not> list_ex (\<lambda>r. rw_slot r = s \<and> rw_idempotency_key r = i) (tb_reservations t)"
  shows "tables_wf (admitted_tables dr s amount e i t)"
    and "tables_level (admitted_tables dr s amount e i t) s' =
      tables_level t s' + (if s' = s then nat amount else 0)"
proof -
  note d = tables_wfD [OF assms(1)]
  note nonneg = counters_nonneg [OF assms(1)]
  have slots: "map ct_slot (tb_counters (admitted_tables dr s amount e i t)) = map ct_slot (tb_counters t)"
    by (simp add: admitted_tables_def on_counters_def)
  have ids: "distinct (map rw_id (tb_reservations (admitted_tables dr s amount e i t)))"
    using d(2) d(4) by (fastforce simp: admitted_tables_def row_wf_def sequence_next_def)
  have index: "distinct (index_entries (tb_reservations (admitted_tables dr s amount e i t)))"
    using d(3) assms(7) by (auto simp: admitted_tables_def index_entries_def list_ex_iff)
  have rows: "list_all (row_wf (sequence_next dr t)) (tb_reservations (admitted_tables dr s amount e i t))"
    using d(4,5) assms(3) by (fastforce simp: admitted_tables_def list_all_iff row_wf_def sequence_next_def)
  have "slot_wf (admitted_tables dr s amount e i t) s'" for s'
    using d(7-9) assms(4,5) by (cases "s' = s") (simp_all add: slot_wf_def admitted_simps [OF assms(2)])
  moreover have "tb_sequence (admitted_tables dr s amount e i t) = sequence_next dr t"
    by (simp add: admitted_tables_def)
  moreover have "0 \<le> sequence_next dr t" using d(5) by (simp add: sequence_next_def)
  ultimately show "tables_wf (admitted_tables dr s amount e i t)"
    unfolding tables_wf_def slots using d(1,5) ids index rows assms(6) by simp
  show "tables_level (admitted_tables dr s amount e i t) s' =
      tables_level t s' + (if s' = s then nat amount else 0)"
    using nonneg assms(3) by (simp add: tables_level_def admitted_simps [OF assms(2)] nat_add_distrib)
qed

lemma id_from_i64_wf: "tables_wf t \<Longrightarrow> q \<in> set (tb_reservations t) \<Longrightarrow>
    id_from_i64 (rw_id q) = Ok (ReservationId (word_of_int (rw_id q)))"
  using tables_wfD(4) [of t q] by (simp add: id_from_i64_def u64_from_i64_def row_wf_def)

definition live_row :: "slot \<Rightarrow> string option \<Rightarrow> tables \<Rightarrow> reservation_row option" where
  "live_row s i t = find (\<lambda>q. rw_slot q = s \<and> i \<noteq> None \<and> rw_idempotency_key q = i \<and>
     rw_status q \<in> {''active'', ''committed''}) (tb_reservations t)"

definition replay_row :: "slot \<Rightarrow> tables \<Rightarrow> reservation_row \<Rightarrow> store_reservation_result" where
  "replay_row s t q =
     srr_allow (store_reservation_new (ReservationId (word_of_int (rw_id q))) (rw_expires_at q)) (usage_at s t)"

lemma replayed_wf:
  "tables_wf t \<Longrightarrow> replayed s i t = Ok (map_option (replay_row s t) (live_row s i t))"
  by (auto simp: replayed_def live_row_def loaded_usage id_from_i64_wf replay_row_def
      split: option.splits dest: find_SomeD)

definition key_text :: "reserve_request \<Rightarrow> string option" where
  "key_text r = map_option idempotency_as_str (rr_idempotency_key r)"

lemma admit_calm:
  fixes dr :: sql_driver and store_key :: string and r :: reserve_request and expires_at :: datetime
  assumes "tx_events tx = []" "tables_wf (tx_tables tx)" "tables_wf (tx_saved tx)"
    and "0 < amount" "limit \<le> i64_max"
  defines "s \<equiv> bind_slot dr store_key (rr_window r)"
  defines "t \<equiv> counter_added s (tx_tables tx)"
  defines "t' \<equiv> admitted_tables dr s amount expires_at (key_text r) t"
  shows "sqlite_admit dr store_key amount limit expires_at r tx =
    (if sum_overflows dr s amount t
     then (Err (sql_error (the (dr_overflow dr))), \<lparr>db_tables = tx_saved tx, db_events = []\<rparr>)
     else if limit < committed_of s t + reserved_of s t + amount
     then (Ok (srr_deny (usage_at s t)), \<lparr>db_tables = t, db_events = []\<rparr>)
     else case insert_reservation_row dr s amount expires_at (key_text r) t of
       Inr _ \<Rightarrow> (Ok (srr_allow (store_reservation_new (ReservationId (word_of_int (sequence_next dr t))) expires_at)
                 (usage_at s t')), \<lparr>db_tables = t', db_events = []\<rparr>)
     | Inl m \<Rightarrow> (case live_row s (key_text r) (tx_saved tx) of
                   Some q \<Rightarrow> Ok (replay_row s (tx_saved tx) q)
                 | None \<Rightarrow> Err (sql_error m), \<lparr>db_tables = tx_saved tx, db_events = []\<rparr>))"
proof -
  have wf: "tables_wf t" using assms(2) by (simp add: t_def counter_added_wf)
  have there: "counter_find s t \<noteq> None" by (simp add: t_def counter_find_added)
  let ?raised = "on_counters (\<lambda>c. c\<lparr>ct_reserved := ct_reserved c + amount\<rparr>) s t"
  have added: "execute (insert_counter_if_absent s) tx = (Ok (), tx\<lparr>tx_tables := t\<rparr>)"
    using assms(1) by (simp add: execute_simps insert_counter_if_absent_def t_def counter_added_def)
  have raise: "execute (raise_reserved dr amount limit s) (tx\<lparr>tx_tables := t\<rparr>) =
      (if sum_overflows dr s amount t
       then (Err (sql_error (the (dr_overflow dr))), tx\<lparr>tx_tables := t\<rparr>)
       else if limit < committed_of s t + reserved_of s t + amount then (Ok 0, tx\<lparr>tx_tables := t\<rparr>)
       else (Ok 1, tx\<lparr>tx_tables := ?raised\<rparr>))"
    using assms(1) by (simp add: execute_simps raise_reserved_wf [OF tables_wfD(1) [OF wf] there] not_le [symmetric])
  show ?thesis
  proof (cases "sum_overflows dr s amount t")
    case True
    with added raise assms(1) show ?thesis
      by (simp add: sqlite_admit_def s_def [symmetric] tx_drop_def)
  next
    case inside: False
    show ?thesis
  proof (cases "limit < committed_of s t + reserved_of s t + amount")
    case True
    with inside added raise assms(1) wf show ?thesis
      by (simp add: sqlite_admit_def s_def [symmetric] load_usage_wf commit_then_calm)
  next
    case fits: False
    have same: "insert_reservation_row dr s amount expires_at (key_text r) ?raised =
        (case insert_reservation_row dr s amount expires_at (key_text r) t of
           Inl m \<Rightarrow> Inl m | Inr _ \<Rightarrow> Inr (sequence_next dr t, t'))"
      by (auto simp: insert_reservation_row_def sequence_next_def t'_def admitted_tables_def Let_def on_counters_def)
    show ?thesis
    proof (cases "insert_reservation_row dr s amount expires_at (key_text r) t")
      case (Inl m)
      have "replayed s (key_text r) (tx_saved tx) =
          Ok (map_option (replay_row s (tx_saved tx)) (live_row s (key_text r) (tx_saved tx)))"
        by (rule replayed_wf [OF assms(3)])
      with fits inside added raise assms(1) Inl same show ?thesis
        by (simp add: sqlite_admit_def s_def [symmetric] key_text_def [symmetric] execute_simps
            insert_failed_calm split: option.splits)
    next
      case (Inr y)
      have "sequence_next dr t \<le> i64_max" and
        key: "key_text r = None \<or> \<not> list_ex (\<lambda>q. rw_slot q = s \<and> rw_idempotency_key q = key_text r) (tb_reservations t)"
        using Inr by (auto simp: insert_reservation_row_def split: if_splits)
      then have wf': "tables_wf t'"
        unfolding t'_def using fits assms(4,5) by (intro admitted_wf_level(1) [OF wf there, where limit = limit]) auto
      have "id_from_i64 (sequence_next dr t) = Ok (ReservationId (word_of_int (sequence_next dr t)))"
        using tables_wfD(5) [OF wf] by (simp add: id_from_i64_def u64_from_i64_def sequence_next_def)
      with fits inside added raise assms(1) Inr same wf' show ?thesis
        by (simp add: sqlite_admit_def s_def [symmetric] key_text_def [symmetric] execute_simps
            load_usage_wf commit_then_calm del: of_int_add)
    qed
  qed
  qed
qed

text \<open>The cases of a reservation on a working database.\<close>

definition fresh_tables :: "sql_driver \<Rightarrow> reserve_request \<Rightarrow> tables \<Rightarrow> tables" where
  "fresh_tables dr r t = expire_tables dr (rr_now r) t"

definition request_slot :: "sql_driver \<Rightarrow> reserve_request \<Rightarrow> slot" where
  "request_slot dr r = bind_slot dr (codec_key (rr_key r)) (rr_window r)"

text \<open>Requests the store does not refuse before it looks at the tables.\<close>

definition sql_valid :: "('tz, 'more) chrono_scheme \<Rightarrow> reserve_request \<Rightarrow> bool" where
  "sql_valid lib r \<longleftrightarrow> reserve_request_validate r = Ok ()
     \<and> uint (rr_amount r) \<le> i64_max \<and> uint (rr_effective_limit r) \<le> i64_max
     \<and> ch_add lib (rr_now r) (rr_reservation_ttl r) \<noteq> None"

lemma reserve_calm_cases [consumes 2, case_names refused overflow existing denied admitted conflict]:
  fixes lib :: "('tz, 'more) chrono_scheme" and dr :: sql_driver and r :: reserve_request and d :: database
  assumes "db_events d = []" "tables_wf (db_tables d)"
  defines "s \<equiv> request_slot dr r"
  defines "t \<equiv> fresh_tables dr r (db_tables d)"
  obtains (refused) out where "\<not> sql_valid lib r" "sqlite_reserve_if_allowed lib dr r d = (out, d)" "\<forall>x. out \<noteq> Ok x"
  | (overflow) m where "live_row s (key_text r) t = None" "dr_overflow dr = Some m"
      "i64_max < committed_of s t + reserved_of s t + uint (rr_amount r)" "sql_valid lib r"
      "sqlite_reserve_if_allowed lib dr r d = (Err (sql_error m), d)"
  | (existing) q where "live_row s (key_text r) t = Some q"
      "sqlite_reserve_if_allowed lib dr r d = (Ok (replay_row s t q), \<lparr>db_tables = t, db_events = []\<rparr>)"
  | (denied) "live_row s (key_text r) t = None" "uint (rr_effective_limit r) \<le> i64_max"
      "\<not> sum_overflows dr s (uint (rr_amount r)) t"
      "uint (rr_effective_limit r) < committed_of s t + reserved_of s t + uint (rr_amount r)"
      "sqlite_reserve_if_allowed lib dr r d =
        (Ok (srr_deny (usage_at s t)), \<lparr>db_tables = counter_added s t, db_events = []\<rparr>)"
  | (admitted) e t' where "live_row s (key_text r) t = None"
      "committed_of s t + reserved_of s t + uint (rr_amount r) \<le> uint (rr_effective_limit r)"
      "t' = admitted_tables dr s (uint (rr_amount r)) e (key_text r) (counter_added s t)"
      "ch_add lib (rr_now r) (rr_reservation_ttl r) = Some e"
      "tables_wf t'" "\<And>s'. tables_level t' s' = tables_level t s' + (if s' = s then unat (rr_amount r) else 0)"
      "sqlite_reserve_if_allowed lib dr r d =
        (Ok (srr_allow (store_reservation_new (ReservationId (word_of_int (sequence_next dr t))) e) (usage_at s t')),
         \<lparr>db_tables = t', db_events = []\<rparr>)"
  | (conflict) e m where "live_row s (key_text r) t = None"
      "committed_of s t + reserved_of s t + uint (rr_amount r) \<le> uint (rr_effective_limit r)"
      "insert_reservation_row dr s (uint (rr_amount r)) e (key_text r) (counter_added s t) = Inl m"
      "sqlite_reserve_if_allowed lib dr r d =
        (case live_row s (key_text r) (db_tables d) of
           Some q \<Rightarrow> Ok (replay_row s (db_tables d) q) | None \<Rightarrow> Err (sql_error m), d)"
proof (cases "reserve_request_validate r")
  case (Ok u)
  show ?thesis
  proof (cases "uint (rr_amount r) \<le> i64_max \<and> uint (rr_effective_limit r) \<le> i64_max")
    case False
    then have "\<not> sql_valid lib r" by (auto simp: sql_valid_def)
    moreover have "\<exists>out. sqlite_reserve_if_allowed lib dr r d = (out, d) \<and> (\<forall>x. out \<noteq> Ok x)"
      using Ok False by (cases "uint (rr_amount r) \<le> i64_max")
        (auto simp: sqlite_reserve_if_allowed_def Let_def to_i64_def simp del: reserve_request_validate_Ok)
    ultimately show ?thesis using refused by blast
  next
    case fit: True
    then have i64: "to_i64 (rr_amount r) ''amount'' = Outcome" if "Outcome = Ok (uint (rr_amount r))" for Outcome
      using that by simp
    have lim: "to_i64 (rr_effective_limit r) ''effective limit'' = Ok (uint (rr_effective_limit r))" using fit by simp
    note amt = i64 [OF refl]
    show ?thesis
    proof (cases "ch_add lib (rr_now r) (rr_reservation_ttl r)")
      case None
      with Ok amt lim have "sqlite_reserve_if_allowed lib dr r d = (Panic, d)"
        by (simp add: sqlite_reserve_if_allowed_def Let_def del: reserve_request_validate_Ok to_i64_Ok)
      moreover have "\<not> sql_valid lib r" using None by (simp add: sql_valid_def)
      ultimately show ?thesis using refused by blast
    next
      case (Some e)
      let ?tx = "(tx_open d)\<lparr>tx_tables := t\<rparr>"
      have wf: "tables_wf t" using assms(2) by (simp add: t_def fresh_tables_def expire_tables_wf_level)
      have ev: "tx_events ?tx = []" by simp
      have look: "(case rr_idempotency_key r of None \<Rightarrow> (Ok None, ?tx)
          | Some i \<Rightarrow> sqlite_existing_idempotent_reservation s (idempotency_as_str i) ?tx) =
          (Ok (map_option (replay_row s t) (live_row s (key_text r) t)), ?tx)"
      proof (cases "rr_idempotency_key r")
        case None
        then show ?thesis by (simp add: live_row_def key_text_def find_None_iff)
      next
        case (Some i)
        then show ?thesis by (simp add: existing_calm [OF ev] replayed_wf [OF wf] key_text_def)
      qed
      have step: "sqlite_reserve_if_allowed lib dr r d =
          (case live_row s (key_text r) t of
             Some q \<Rightarrow> (Ok (replay_row s t q), \<lparr>db_tables = t, db_events = []\<rparr>)
           | None \<Rightarrow> sqlite_admit dr (codec_key (rr_key r)) (uint (rr_amount r)) (uint (rr_effective_limit r)) e r ?tx)"
        using Ok amt lim Some look assms(1)
        by (simp add: sqlite_reserve_if_allowed_def Let_def tx_begin_calm cleanup_calm t_def [symmetric]
            fresh_tables_def [symmetric] s_def [symmetric] request_slot_def [symmetric] commit_then_calm
            del: reserve_request_validate_Ok to_i64_Ok split: option.splits)
      show ?thesis
      proof (cases "live_row s (key_text r) t")
        case (Some q)
        with step show ?thesis by (intro existing) simp_all
      next
        case None
        have pos: "0 < uint (rr_amount r)"
          using Ok uint_ge_0 [of "rr_amount r"] unsigned_eq_0_iff [where 'a = int and w = "rr_amount r"] by (auto simp: order_less_le)
        let ?t = "counter_added s t"
        have "tables_wf (tx_tables ?tx)" "tables_wf (tx_saved ?tx)" using wf assms(2) by simp_all
        note admit = admit_calm [OF ev this pos conjunct2 [OF fit], where dr = dr and store_key = "codec_key (rr_key r)" and r = r and expires_at = e,
            folded request_slot_def s_def, simplified]
        show ?thesis
        proof (cases "sum_overflows dr s (uint (rr_amount r)) t")
          case True
          have "\<lparr>db_tables = db_tables d, db_events = []\<rparr> = d" using assms(1) by simp
          with True show ?thesis
            using overflow [OF None] step admit fit Ok \<open>ch_add _ _ _ = Some e\<close> None by (auto simp: sql_valid_def sum_overflows_def)
        next
          case inside: False
          show ?thesis
        proof (cases "uint (rr_effective_limit r) < committed_of s t + reserved_of s t + uint (rr_amount r)")
          case True
          then show ?thesis using denied None step admit fit inside by simp
        next
          case fits: False
          show ?thesis
          proof (cases "insert_reservation_row dr s (uint (rr_amount r)) e (key_text r) ?t")
            case (Inl m)
            have "\<lparr>db_tables = db_tables d, db_events = []\<rparr> = d" using assms(1) by simp
            with Inl show ?thesis using conflict [of e m] None step admit fits inside
              by (cases "live_row s (key_text r) (db_tables d)") simp_all
          next
            case (Inr y)
            let ?t' = "admitted_tables dr s (uint (rr_amount r)) e (key_text r) ?t"
            have seq: "sequence_next dr ?t \<le> i64_max" and
              key: "key_text r = None \<or> \<not> list_ex (\<lambda>q. rw_slot q = s \<and> rw_idempotency_key q = key_text r) (tb_reservations ?t)"
              using Inr by (auto simp: insert_reservation_row_def split: if_splits)
            have there: "counter_find s ?t \<noteq> None" by (simp add: counter_find_added)
            have le: "committed_of s ?t + reserved_of s ?t + uint (rr_amount r) \<le> uint (rr_effective_limit r)"
              using fits by simp
            note new = admitted_wf_level [OF counter_added_wf [OF wf] there pos le conjunct2 [OF fit] seq key, where e = e]
            show ?thesis
              using admitted [of ?t' e] None step admit fits inside Inr new \<open>ch_add _ _ _ = Some e\<close>
              by (simp add: sequence_next_def)
          qed
        qed
        qed
      qed
    qed
  qed
next
  case (Err m)
  have "sqlite_reserve_if_allowed lib dr r d = (Err m, d)"
    using Err by (simp add: sqlite_reserve_if_allowed_def)
  moreover have "\<not> sql_valid lib r" using Err by (simp add: sql_valid_def del: reserve_request_validate_Ok)
  ultimately show ?thesis using refused by blast
next
  case Panic
  then show ?thesis by simp
qed

text \<open>A reservation that fits under its limit, under a key that some spent reservation holds.\<close>

lemma reserve_key_taken:
  assumes "db_events d = []" "tables_wf (db_tables d)" "sql_valid lib r" "sequence_next dr (db_tables d) \<le> i64_max"
    and "q \<in> set (tb_reservations (db_tables d))" "rw_slot q = request_slot dr r"
    and "rw_idempotency_key q = key_text r" "rw_idempotency_key q \<noteq> None"
    and "rw_status (expire_row dr (rr_now r) q) \<notin> {''active'', ''committed''}"
    and fits: "tables_level (fresh_tables dr r (db_tables d)) (request_slot dr r) + unat (rr_amount r)
        \<le> unat (rr_effective_limit r)"
  shows "sqlite_reserve_if_allowed lib dr r d =
    (if rw_status q = ''active'' then Ok (replay_row (request_slot dr r) (db_tables d) q)
     else Err (sql_error (dr_duplicate dr)), d)"
proof -
  let ?s = "request_slot dr r" and ?t = "fresh_tables dr r (db_tables d)"
  have wf: "tables_wf ?t" using assms(2) by (simp add: fresh_tables_def expire_tables_wf_level)
  have rows: "tb_reservations ?t = map (expire_row dr (rr_now r)) (tb_reservations (db_tables d))"
    using assms(2) by (simp add: fresh_tables_def expire_tables_reservations)
  have only: "p = q" if "p \<in> set (tb_reservations (db_tables d))" "rw_slot p = ?s"
      "rw_idempotency_key p = key_text r" for p
    using index_unique [OF tables_wfD(3) [OF assms(2)] that(1) assms(5)] that assms(6-8) by simp
  have none: "live_row ?s (key_text r) ?t = None"
    unfolding live_row_def rows find_None_iff
  proof (rule notI, elim exE conjE)
    fix p assume p: "p \<in> set (map (expire_row dr (rr_now r)) (tb_reservations (db_tables d)))"
      "rw_slot p = ?s" "rw_idempotency_key p = key_text r" "rw_status p \<in> {''active'', ''committed''}"
    then obtain p' where "p = expire_row dr (rr_now r) p'" "p' \<in> set (tb_reservations (db_tables d))" by auto
    with p(2-4) only [of p'] assms(9) show False by auto
  qed
  have taken: "list_ex (\<lambda>p. rw_slot p = ?s \<and> rw_idempotency_key p = key_text r) (tb_reservations ?t)"
    using assms(5-7) by (auto simp: rows list_ex_iff)
  from assms(1,2) show ?thesis
  proof (cases rule: reserve_calm_cases [where lib = lib and dr = dr and r = r])
    case denied
    have "int (tables_level ?t ?s + unat (rr_amount r)) \<le> int (unat (rr_effective_limit r))"
      using fits by (rule of_nat_mono)
    with denied(4) counters_nonneg [OF wf, of ?s] show ?thesis by (simp add: tables_level_def)
  next
    case (admitted e t')
    have key: "key_text r \<noteq> None" using assms(7,8) by simp
    then have "(?s, key_text r) \<in> set (index_entries (tb_reservations ?t))"
      using taken by (force simp: index_entries_def list_ex_iff)
    moreover have "index_entries (tb_reservations t') = index_entries (tb_reservations ?t) @ [(?s, key_text r)]"
      using key by (simp add: admitted(3) admitted_tables_def index_entries_def)
    ultimately have "\<not> distinct (index_entries (tb_reservations t'))" by simp
    with tables_wfD(3) [OF admitted(5)] show ?thesis by simp
  next
    case (conflict e m)
    have "m = dr_duplicate dr"
      using conflict(3) taken assms(4,7,8)
      by (auto simp: insert_reservation_row_def fresh_tables_def sequence_next_def split: if_splits)
    moreover have "live_row ?s (key_text r) (db_tables d) = (if rw_status q = ''active'' then Some q else None)"
    proof -
      have stat: "rw_status q \<noteq> ''committed''" using assms(9) by (auto simp: expire_row_def split: if_splits)
      have "find (\<lambda>p. rw_slot p = ?s \<and> key_text r \<noteq> None \<and> rw_idempotency_key p = key_text r \<and>
          rw_status p \<in> {''active'', ''committed''}) rows = (if q \<in> set rows \<and> rw_status q = ''active'' then Some q else None)"
        if "set rows \<subseteq> set (tb_reservations (db_tables d))" for rows
        using that
      proof (induction rows)
        case (Cons p rows)
        then show ?case using only [of p] stat assms(6-8) by auto
      qed simp
      then show ?thesis using assms(5) by (simp add: live_row_def)
    qed
    ultimately show ?thesis using conflict(4) by simp
  next
    case (refused out)
    with assms(3) show ?thesis by simp
  next
    case (overflow m)
    have "int (tables_level ?t ?s + unat (rr_amount r)) \<le> int (unat (rr_effective_limit r))"
      using fits by (rule of_nat_mono)
    with overflow(3,4) counters_nonneg [OF wf, of ?s] show ?thesis by (simp add: tables_level_def sql_valid_def)
  next
    case (existing p)
    with none show ?thesis by simp
  qed
qed

section \<open>The laws of the contract\<close>

definition sql_wf :: "database \<Rightarrow> bool" where
  "sql_wf d \<longleftrightarrow> tables_wf (db_tables d)"

definition sql_level :: "database \<Rightarrow> slot \<Rightarrow> nat" where
  "sql_level d s = tables_level (db_tables d) s"

definition sql_slot :: "sql_driver \<Rightarrow> store_key \<Rightarrow> window_bounds \<Rightarrow> slot" where
  "sql_slot dr k w = bind_slot dr (codec_key k) w"

lemma sqlite_ops_simps [simp]:
  "st_reserve_if_allowed (sqlite_ops lib dr) = sqlite_reserve_if_allowed lib dr"
  "st_commit (sqlite_ops lib dr) = sqlite_commit"
  "st_refund (sqlite_ops lib dr) = sqlite_refund"
  "st_usage (sqlite_ops lib dr) = sqlite_usage dr"
  by (simp_all add: sqlite_ops_def)

text \<open>Facts about the tables after a call, and about its answer, carry over from a working database.\<close>

lemma atomic_tables:
  "atomic_call f \<Longrightarrow> P (db_tables d) \<Longrightarrow> P (db_tables (snd (f (d\<lparr>db_events := []\<rparr>)))) \<Longrightarrow>
     P (db_tables (snd (f d)))"
  by (cases rule: atomic_call_cases [where d = d and f = f]) auto

lemma atomic_Ok:
  assumes "atomic_call f" "f d = (Ok x, d')"
  obtains dh where "f (d\<lparr>db_events := []\<rparr>) = (Ok x, dh)" "db_tables dh = db_tables d'"
  using assms(1) by (cases rule: atomic_call_cases [where d = d]) (use assms(2) in \<open>auto intro: that\<close>)

lemma sqlite_usage_wf_level:
  assumes "sql_wf d"
  shows "sql_wf (snd (sqlite_usage dr k w now d)) \<and> sql_level (snd (sqlite_usage dr k w now d)) c \<le> sql_level d c"
  unfolding sql_wf_def sql_level_def
  by (rule atomic_tables [OF atomic_sqlite_usage])
    (use assms in \<open>simp_all add: sql_wf_def usage_calm expire_tables_wf_level\<close>)

lemma sqlite_finish_wf_level:
  assumes "sql_wf d"
  shows "sql_wf (snd (sqlite_finish_reservation now action rid d)) \<and>
    sql_level (snd (sqlite_finish_reservation now action rid d)) c \<le> sql_level d c"
  unfolding sql_wf_def sql_level_def
  by (rule atomic_tables [OF atomic_sqlite_finish])
    (use assms finish_calm_wf_level [of "d\<lparr>db_events := []\<rparr>"] in \<open>simp_all add: sql_wf_def\<close>)

lemma sqlite_usage_reports:
  assumes "sql_wf d" "sqlite_usage dr k w now d = (Ok u, d')"
  shows "unat (cu_used u) = sql_level d' (sql_slot dr k w)"
proof -
  obtain dh where "sqlite_usage dr k w now (d\<lparr>db_events := []\<rparr>) = (Ok u, dh)" "db_tables dh = db_tables d'"
    by (rule atomic_Ok [OF atomic_sqlite_usage assms(2)])
  moreover have "sql_wf d'" using sqlite_usage_wf_level [OF assms(1), of dr k w now] assms(2) by simp
  ultimately show ?thesis
    using assms(1) by (auto simp: sql_wf_def sql_level_def sql_slot_def usage_calm used_at)
qed

lemma reserve_calm_wf_level:
  assumes "db_events d = []" "tables_wf (db_tables d)"
  shows "tables_wf (db_tables (snd (sqlite_reserve_if_allowed lib dr r d))) \<and>
    tables_level (db_tables (snd (sqlite_reserve_if_allowed lib dr r d))) c \<le>
      (if c = request_slot dr r then max (tables_level (db_tables d) c) (unat (rr_effective_limit r))
       else tables_level (db_tables d) c)"
proof -
  let ?t = "fresh_tables dr r (db_tables d)" and ?s = "request_slot dr r"
  have wf: "tables_wf ?t" and le: "tables_level ?t c \<le> tables_level (db_tables d) c"
    using assms(2) by (simp_all add: fresh_tables_def expire_tables_wf_level)
  show ?thesis
  using assms proof (cases rule: reserve_calm_cases [where lib = lib and dr = dr and r = r])
    case (admitted e t')
    have "tables_level t' ?s \<le> unat (rr_effective_limit r)"
    proof -
      have "tables_level t' ?s = nat (committed_of ?s ?t + reserved_of ?s ?t) + unat (rr_amount r)"
        using admitted(6) [of ?s] by (simp add: tables_level_def)
      also have "\<dots> = nat (committed_of ?s ?t + reserved_of ?s ?t + uint (rr_amount r))"
        using counters_nonneg [OF wf, of ?s] by (simp add: nat_add_distrib)
      also have "\<dots> \<le> unat (rr_effective_limit r)"
        using nat_mono [OF admitted(2)] by simp
      finally show ?thesis .
    qed
    with admitted(5,7) admitted(6) [of c] le show ?thesis
      by (cases "c = request_slot dr r") (simp_all add: le_max_iff_disj)
  next
    case (refused out)
    then show ?thesis using assms(2) by simp
  next
    case (overflow m)
    then show ?thesis using assms(2) by simp
  next
    case (existing q)
    then show ?thesis using wf le by (cases "c = request_slot dr r") (simp_all add: le_max_iff_disj)
  next
    case denied
    then show ?thesis using wf le
      by (cases "c = request_slot dr r") (simp_all add: counter_added_wf le_max_iff_disj)
  next
    case (conflict e m)
    then show ?thesis using assms(2) by simp
  qed
qed

lemma request_slot_sql: "request_slot dr r = sql_slot dr (rr_key r) (rr_window r)"
  by (simp add: request_slot_def sql_slot_def)

lemma sqlite_reserve_wf_level:
  assumes "sql_wf d"
  shows "sql_wf (snd (sqlite_reserve_if_allowed lib dr r d)) \<and>
    sql_level (snd (sqlite_reserve_if_allowed lib dr r d)) c \<le>
      (if c = sql_slot dr (rr_key r) (rr_window r)
       then max (sql_level d c) (unat (rr_effective_limit r)) else sql_level d c)"
  unfolding sql_wf_def sql_level_def request_slot_sql [symmetric]
  by (rule atomic_tables [OF atomic_sqlite_reserve])
    (use assms reserve_calm_wf_level [of "d\<lparr>db_events := []\<rparr>" lib dr r c] in \<open>auto simp: sql_wf_def split: if_splits\<close>)

lemma sqlite_reserve_reports:
  assumes "sql_wf d" "sqlite_reserve_if_allowed lib dr r d = (Ok x, d')"
  shows "unat (cu_used (srr_usage x)) = sql_level d' (sql_slot dr (rr_key r) (rr_window r))
    \<and> srr_allowed x = (srr_reservation x \<noteq> None)"
proof -
  let ?d = "d\<lparr>db_events := []\<rparr>"
  obtain dh where dh: "sqlite_reserve_if_allowed lib dr r ?d = (Ok x, dh)" "db_tables dh = db_tables d'"
    by (rule atomic_Ok [OF atomic_sqlite_reserve assms(2)])
  have 0: "db_events ?d = []" "tables_wf (db_tables ?d)" using assms(1) by (simp_all add: sql_wf_def)
  have wf: "tables_wf (fresh_tables dr r (db_tables d))"
    using 0 by (simp add: fresh_tables_def expire_tables_wf_level)
  have "unat (cu_used (srr_usage x)) = tables_level (db_tables dh) (request_slot dr r)
    \<and> srr_allowed x = (srr_reservation x \<noteq> None)"
  using 0 proof (cases rule: reserve_calm_cases [where lib = lib and dr = dr and r = r])
    case (refused out)
    then show ?thesis using dh by auto
  next
    case (overflow m)
    then show ?thesis using dh by simp
  next
    case (conflict e m)
    then show ?thesis using dh 0 by (auto simp: replay_row_def srr_allow_def used_at split: option.splits)
  qed (use dh(1) wf in \<open>auto simp: replay_row_def srr_allow_def srr_deny_def used_at\<close>)
  then show ?thesis using dh(2) by (simp add: sql_level_def request_slot_sql)
qed

lemma sqlite_reserve_within:
  assumes "sql_wf d" "sqlite_reserve_if_allowed lib dr r d = (Ok x, d')"
  shows "sql_level d' (sql_slot dr (rr_key r) (rr_window r)) \<le> unat (cu_used (srr_usage x))
    \<and> unat (cu_used (srr_usage x)) \<le>
        max (sql_level d (sql_slot dr (rr_key r) (rr_window r))) (unat (rr_effective_limit r))"
  using sqlite_reserve_reports [OF assms]
    sqlite_reserve_wf_level [OF assms(1), of lib dr r "sql_slot dr (rr_key r) (rr_window r)"] assms(2) by simp

lemma sqlite_reserve_admits:
  assumes "sql_wf d" "sqlite_usage dr (rr_key r) (rr_window r) (rr_now r) d = (Ok u, d1)"
    and "sat_add (cu_used u) (rr_amount r) \<le> rr_effective_limit r" "rr_idempotency_key r = None"
    and "sqlite_reserve_if_allowed lib dr r d1 = (Ok x, d')"
  shows "srr_allowed x"
proof -
  let ?d = "d1\<lparr>db_events := []\<rparr>" and ?s = "request_slot dr r"
  obtain dh where dh: "sqlite_reserve_if_allowed lib dr r ?d = (Ok x, dh)" "db_tables dh = db_tables d'"
    by (rule atomic_Ok [OF atomic_sqlite_reserve assms(5)])
  have wf1: "sql_wf d1" using sqlite_usage_wf_level [OF assms(1), of dr "rr_key r" "rr_window r" "rr_now r"] assms(2) by simp
  then have 0: "db_events ?d = []" "tables_wf (db_tables ?d)" by (simp_all add: sql_wf_def)
  have u: "unat (cu_used u) = tables_level (db_tables d1) ?s"
    using sqlite_usage_reports [OF assms(1,2)] by (simp add: sql_level_def request_slot_sql)
  have key: "live_row ?s (key_text r) t = None" for t
    using assms(4) by (simp add: live_row_def key_text_def find_None_iff)
  show ?thesis
  using 0 proof (cases rule: reserve_calm_cases [where lib = lib and dr = dr and r = r])
    case denied
    let ?t = "fresh_tables dr r (db_tables ?d)"
    have wf: "tables_wf ?t" and le: "tables_level ?t ?s \<le> tables_level (db_tables d1) ?s"
      using 0 by (simp_all add: fresh_tables_def expire_tables_wf_level)
    have "rr_effective_limit r < u64_max"
      using denied(2) by (simp add: word_less_def u64_max_def i64_max_def)
    then have "unat (cu_used u) + unat (rr_amount r) \<le> unat (rr_effective_limit r)"
      using assms(3) by (auto simp: word_le_nat_alt word_less_nat_alt unat_sat_add unat_u64_max min_le_iff_disj)
    then have "nat (committed_of ?s ?t + reserved_of ?s ?t) + unat (rr_amount r) \<le> unat (rr_effective_limit r)"
      using le u by (simp add: tables_level_def)
    then have "int (nat (committed_of ?s ?t + reserved_of ?s ?t) + unat (rr_amount r)) \<le> int (unat (rr_effective_limit r))"
      by (rule of_nat_mono)
    then have "committed_of ?s ?t + reserved_of ?s ?t + uint (rr_amount r) \<le> uint (rr_effective_limit r)"
      using counters_nonneg [OF wf, of ?s] by simp
    with denied show ?thesis by simp
  next
    case (refused out)
    then show ?thesis using dh by auto
  next
    case (overflow m)
    then show ?thesis using dh by simp
  next
    case (conflict e m)
    then show ?thesis using dh by (simp add: key)
  qed (use dh key in \<open>auto simp: replay_row_def srr_allow_def\<close>)
qed

end
