(* ===== verification/Sqlite_Runs.thy ===== *)
theory Sqlite_Runs
  imports Sqlite_Contract Broker_Runs
begin

text \<open>
  The SQLite store keeps the contract, settles reservations for good, and a broker over it keeps the
  invariant of runs: the interpretations the properties of this store rest on.
\<close>

section \<open>The contract\<close>

interpretation sqlite: budget_store "sqlite_ops lib dr" sql_wf "sql_slot dr" sql_level "\<lambda>_. True"
  for lib :: "('tz, 'more) chrono_scheme" and dr :: sql_driver
proof unfold_locales
  fix d d' :: database and r u x d1
  assume "sql_wf d" "st_usage (sqlite_ops lib dr) (rr_key r) (rr_window r) (rr_now r) d = (Ok u, d1)"
    "sat_add (cu_used u) (rr_amount r) \<le> rr_effective_limit r" "rr_idempotency_key r = None"
    "st_reserve_if_allowed (sqlite_ops lib dr) r d1 = (Ok x, d')"
  then show "srr_allowed x" using sqlite_reserve_admits by simp
qed (simp_all add: sqlite_usage_wf_level sqlite_commit_def sqlite_refund_def sqlite_finish_wf_level
    sqlite_usage_reports sqlite_reserve_reports [THEN conjunct2] sqlite_reserve_within sqlite_reserve_wf_level [THEN conjunct1]
    sqlite_reserve_wf_level [THEN conjunct2])

section \<open>Settling for good\<close>

text \<open>On a database that works; on another the second call may fail, as any call may.\<close>

definition sql_up :: "database \<Rightarrow> bool" where
  "sql_up d \<longleftrightarrow> sql_wf d \<and> db_events d = []"

lemma atomic_events: "atomic_call f \<Longrightarrow> db_events d = [] \<Longrightarrow> db_events (snd (f d)) = []"
  unfolding atomic_call_def Let_def by (metis (full_types) database.surjective database.update_convs(2))

lemma reservation_find_settle:
  "reservation_find i (settle_row st r t) =
     (if i = rw_id r then map_option (\<lambda>q. q\<lparr>rw_status := st\<rparr>) (reservation_find i t)
      else reservation_find i t)"
  by (simp add: reservation_find_def find_map_update [where key = rw_id])

lemma finish_settles:
  assumes "db_events d = []" "sqlite_finish_reservation t action rid d = (Ok (), d')"
  shows "fst (sqlite_finish_reservation t' action' rid d') = Ok ()"
proof -
  have ev: "db_events d' = []"
    using atomic_events [OF atomic_sqlite_finish assms(1), of t action rid] assms(2) by simp
  have fit: "\<not> i64_max < uint (as_u64 rid)"
    and row: "\<exists>row. reservation_find (uint (as_u64 rid)) (db_tables d) = Some row
      \<and> (rw_status row = ''committed'' \<or> rw_status row = ''refunded'' \<and> d' = d \<or>
         d' = d\<lparr>db_tables := settle_row (finish_status action) row (db_tables d)\<rparr>)
      \<and> (rw_status row = ''committed'' \<longrightarrow> d' = d)"
    using assms(2) unfolding finish_calm [OF assms(1)]
    by (auto split: if_splits option.splits)
  then obtain row where find: "reservation_find (uint (as_u64 rid)) (db_tables d) = Some row"
    and cases: "rw_status row = ''committed'' \<and> d' = d \<or> rw_status row = ''refunded'' \<and> d' = d \<or>
      d' = d\<lparr>db_tables := settle_row (finish_status action) row (db_tables d)\<rparr>" by blast
  have "rw_id row = uint (as_u64 rid)" using reservation_find_row [OF find] by simp
  moreover have "finish_status action = ''committed'' \<or> finish_status action = ''refunded''"
    by (cases action) simp_all
  ultimately show ?thesis
    using find cases fit ev unfolding finish_calm [OF ev]
    by (elim disjE) (simp_all add: reservation_find_settle)
qed

lemma sql_upD: "sql_up d \<Longrightarrow> sql_wf d" "sql_up d \<Longrightarrow> db_events d = []"
  by (simp_all add: sql_up_def)

lemma sql_up_keeps:
  assumes "sql_up d"
  shows "sql_up (snd (sqlite_usage dr k w now d))"
    and "sql_up (snd (sqlite_reserve_if_allowed lib dr r d))"
    and "sql_up (snd (sqlite_finish_reservation now action rid d))"
  using sql_upD [OF assms]
  by (simp_all add: sql_up_def sqlite_usage_wf_level sqlite_reserve_wf_level [THEN conjunct1] sqlite_finish_wf_level
      atomic_events atomic_sqlite_usage atomic_sqlite_finish atomic_sqlite_reserve)

lemmas sql_up_laws =
  sql_up_keeps sqlite_usage_wf_level [OF sql_upD(1)] sqlite_finish_wf_level [OF sql_upD(1)]
  sqlite_reserve_wf_level [OF sql_upD(1)] sqlite_usage_reports [OF sql_upD(1)]
  sqlite_reserve_reports [OF sql_upD(1), THEN conjunct2] sqlite_reserve_within [OF sql_upD(1)] finish_settles [OF sql_upD(2)]

interpretation sqlite_up: settling_store "sqlite_ops lib dr" sql_up "sql_slot dr" sql_level "\<lambda>_. True"
  for lib :: "('tz, 'more) chrono_scheme" and dr :: sql_driver
proof unfold_locales
  fix d d' :: database and r u x d1
  assume "sql_up d" "st_usage (sqlite_ops lib dr) (rr_key r) (rr_window r) (rr_now r) d = (Ok u, d1)"
    "sat_add (cu_used u) (rr_amount r) \<le> rr_effective_limit r" "rr_idempotency_key r = None"
    "st_reserve_if_allowed (sqlite_ops lib dr) r d1 = (Ok x, d')"
  then show "srr_allowed x"
    using sqlite_reserve_admits [of d dr r u d1 lib x d'] by (simp add: sql_up_def)
qed (simp_all add: sqlite_commit_def sqlite_refund_def sql_up_laws 
    sqlite_reserve_wf_level [OF sql_upD(1), THEN conjunct2])

section \<open>Runs of a broker\<close>

interpretation sqlite_runs: stepwise "broker_step lib wd"
    "run_ok (sqlite_ops lib dr) sql_wf (sql_slot dr) sql_level (\<lambda>_. True) wd"
  for lib :: "('tz, 'more) chrono_scheme" and dr :: sql_driver and wd :: "database budget_warden"
  by unfold_locales (rule sqlite.step_run_ok)

text \<open>
  The text of a store key starts with the policy's name and a colon, so policies whose names hold no
  colon have counters of their own, whatever their keys.
\<close>

lemma compact_policy_name:
  assumes "colon_free (bp_name p)" "colon_free (bp_name q)"
    and "compact (policy_store_key p k) = compact (policy_store_key q l)"
  shows "bp_name p = bp_name q"
  using assms colon_split [of "bp_name p" "bp_name q"]
  by (simp add: compact_def policy_store_key_def store_key_new_def Let_def del: colon_free.simps)

lemma sql_policies_apart:
  assumes "warden_wf wd" "list_all (\<lambda>p. colon_free (bp_name p)) (wd_policies wd)"
  shows "policies_apart (sql_slot dr) wd"
proof -
  have "p = q" if "p \<in> set (wd_policies wd)" "q \<in> set (wd_policies wd)"
    "sql_slot dr (policy_store_key p k) v = sql_slot dr (policy_store_key q l) w" for p q k l v w
  proof -
    have "compact (policy_store_key p k) = compact (policy_store_key q l)"
      using that(3) by (simp add: sql_slot_def bind_slot_def codec_key_def)
    then have "bp_name p = bp_name q"
      using assms(2) that(1,2) by (intro compact_policy_name) (auto simp: list_all_iff simp del: colon_free.simps)
    with assms(1) that(1,2) show ?thesis by (auto simp: warden_wf_def distinct_map dest: inj_onD)
  qed
  then show ?thesis unfolding policies_apart_def by blast
qed

definition empty_database :: "db_event list \<Rightarrow> database" where
  "empty_database events = \<lparr>db_tables = empty_tables, db_events = events\<rparr>"

lemma empty_database_simps [simp]:
  "sql_wf (empty_database events)" "sql_level (empty_database events) c = 0"
proof -
  show "sql_wf (empty_database events)" by (simp add: sql_wf_def empty_database_def tables_wf_empty)
  show "sql_level (empty_database events) c = 0"
    by (simp add: empty_database_def sql_level_def tables_level_def committed_of_def reserved_of_def
        counter_find_def empty_tables_def)
qed

lemma sqlite_run_start_ok:
  assumes "wd_store wd = sqlite_ops lib dr" "warden_wf wd"
    and "list_all (\<lambda>p. colon_free (bp_name p)) (wd_policies wd)"
  shows "run_ok (sqlite_ops lib dr) sql_wf (sql_slot dr) sql_level (\<lambda>_. True) wd (run_start (empty_database events))"
  using assms(1,2) sql_policies_apart [OF assms(2,3)]
  by (simp add: run_ok_def run_start_def within_limits_def requests_fit_def)

end
