(* ===== verification/Sqlite_Ledger.thy ===== *)
theory Sqlite_Ledger
  imports Sqlite_Runs Memory_Ledger
begin

text \<open>
  The SQLite store against the ledger of the in-memory store. A row of the table mirrors an entry of
  the ledger; the only difference between the two is when an expiry is written down: a commit or refund
  of the in-memory store expires every due reservation, one of SQLite only the reservation it is called
  for. So the table either mirrors the ledger or does once its due rows are expired.
\<close>

section \<open>Mirrored rows\<close>

text \<open>An exact driver keeps every instant as it is, compares instants as such and skips no number.\<close>

definition exact_driver :: "sql_driver \<Rightarrow> bool" where
  "exact_driver dr \<longleftrightarrow> dr_time dr = (\<lambda>t. t) \<and> dr_not_after dr = (\<lambda>t u. t \<le> u)
     \<and> dr_skipped dr = (\<lambda>_. 0) \<and> dr_overflow dr = None"

definition counter_slot :: "counter_key \<Rightarrow> slot" where
  "counter_slot k = (compact (ck_store_key k), ck_window_start k, ck_window_end k)"

fun status_text :: "reservation_status \<Rightarrow> string" where
  "status_text Active = ''active''"
| "status_text Committed = ''committed''"
| "status_text Refunded = ''refunded''"
| "status_text Expired = ''expired''"

definition mirrors :: "reservation_id \<times> reservation_record \<Rightarrow> reservation_row \<Rightarrow> bool" where
  "mirrors e q \<longleftrightarrow> (case e of (rid, v) \<Rightarrow>
     rid = ReservationId (word_of_int (rw_id q)) \<and> rw_slot q = counter_slot (rv_counter_key v)
     \<and> separable (ck_store_key (rv_counter_key v)) \<and> rw_amount q = uint (rv_amount v)
     \<and> rw_expires_at q = rv_expires_at v \<and> rw_status q = status_text (rv_status v))"

definition row_keyed :: "counter_key \<Rightarrow> idempotency_key \<Rightarrow> reservation_row \<Rightarrow> bool" where
  "row_keyed k i q \<longleftrightarrow> rw_slot q = counter_slot k \<and> rw_idempotency_key q = Some (idempotency_as_str i)"

definition keys_mirrored :: "ledger \<Rightarrow> tables \<Rightarrow> bool" where
  "keys_mirrored l t \<longleftrightarrow> (\<forall>k i. separable (ck_store_key k) \<longrightarrow>
     hm_get (lg_idempotency l) (k, i) =
       map_option (\<lambda>q. ReservationId (word_of_int (rw_id q))) (find (row_keyed k i) (tb_reservations t)))"

definition mirrored :: "ledger \<Rightarrow> tables \<Rightarrow> bool" where
  "mirrored l t \<longleftrightarrow> list_all2 mirrors (lg_reservations l) (tb_reservations t)
     \<and> int (lg_last_id l) = tb_sequence t \<and> \<not> lg_broken l \<and> keys_mirrored l t"

definition follows :: "sql_driver \<Rightarrow> datetime \<Rightarrow> ledger \<Rightarrow> tables \<Rightarrow> bool" where
  "follows dr now l t \<longleftrightarrow> mirrored l t \<or> mirrored l (expire_tables dr now t)"

lemma status_text_inject [simp]: "status_text a = status_text b \<longleftrightarrow> a = b"
  by (cases a; cases b) simp_all

lemma status_text_eq [simp]:
  "status_text a = ''active'' \<longleftrightarrow> a = Active" "status_text a = ''committed'' \<longleftrightarrow> a = Committed"
  "status_text a = ''refunded'' \<longleftrightarrow> a = Refunded" "status_text a = ''expired'' \<longleftrightarrow> a = Expired"
  by (cases a; simp)+

lemma counter_slot_inject:
  "separable (ck_store_key k) \<Longrightarrow> separable (ck_store_key k') \<Longrightarrow> counter_slot k = counter_slot k' \<longleftrightarrow> k = k'"
  by (auto simp: counter_slot_def intro: counter_key.equality compact_inject)

lemma bind_slot_exact:
  "exact_driver dr \<Longrightarrow> bind_slot dr (codec_key k) w = counter_slot (counter_key_new k w)"
  by (simp add: exact_driver_def bind_slot_def counter_slot_def counter_key_new_def codec_key_def
      codec_window_start_def codec_window_end_def)

lemma find_map_key: "(\<And>x. P (f x) = P x) \<Longrightarrow> find P (map f xs) = map_option f (find P xs)"
  by (induction xs) simp_all

section \<open>What mirrored tables agree on\<close>

text \<open>The reservation with an identifier.\<close>

lemma mirrored_get:
  assumes "list_all2 mirrors m rows" "\<forall>q \<in> set rows. 0 < rw_id q \<and> rw_id q \<le> i64_max"
  shows "rel_option (\<lambda>v. mirrors (ReservationId w, v)) (hm_get m (ReservationId w)) (find (\<lambda>q. rw_id q = uint w) rows)"
  using assms
proof (induction rule: list_all2_induct)
  case (Cons e m q rows)
  obtain v where e: "e = (ReservationId (word_of_int (rw_id q)), v)"
    using Cons.hyps(1) by (auto simp: mirrors_def)
  have "uint (word_of_int (rw_id q) :: u64) = rw_id q"
    using Cons.prems by (intro uint_word_of_i64) auto
  then have "word_of_int (rw_id q) = w \<longleftrightarrow> rw_id q = uint w" by auto
  with Cons e show ?case by auto
qed simp

text \<open>The units of a counter with a status.\<close>

lemma mirrored_units:
  assumes "mirrored l t" "separable (ck_store_key k)"
  shows "units_with (status_text st) (counter_slot k) t = int (ledger_units st k l)"
proof -
  have "sum_list (map (\<lambda>r. if rw_slot r = counter_slot k \<and> rw_status r = status_text st then rw_amount r else 0) rows)
      = int (\<Sum>(rid, r) \<leftarrow> m. if rv_counter_key r = k \<and> rv_status r = st then unat (rv_amount r) else 0)"
    if "list_all2 mirrors m rows" for m rows
    using that
  proof (induction rule: list_all2_induct)
    case (Cons e m q rows)
    then have "rw_slot q = counter_slot k \<longleftrightarrow> rv_counter_key (snd e) = k"
      using assms(2) by (auto simp: mirrors_def counter_slot_inject)
    with Cons show ?case by (auto simp: mirrors_def split: prod.splits)
  qed simp
  then show ?thesis using assms(1) by (simp add: mirrored_def units_with_def ledger_units_def)
qed

lemma mirrored_usage:
  assumes "mirrored l t" "tables_wf t" "separable (ck_store_key k)"
  shows "usage_at (counter_slot k) t = ledger_usage_at k l"
  using mirrored_units [OF assms(1,3), of Active] mirrored_units [OF assms(1,3), of Committed]
  by (simp add: usage_at_def ledger_usage_at_def tables_wfD(7,8) [OF assms(2)])


section \<open>Expiring\<close>

lemma mirrors_expire:
  "exact_driver dr \<Longrightarrow> mirrors (rid, v) q \<Longrightarrow> mirrors (rid, expire_record now v) (expire_row dr now q)"
  by (auto simp: mirrors_def exact_driver_def expire_record_def expire_row_def)

lemma mirrored_rows_expire:
  assumes "exact_driver dr" "list_all2 mirrors m rows"
  shows "list_all2 mirrors (expire_all now m) (map (expire_row dr now) rows)"
  using assms(2)
proof (induction rule: list_all2_induct)
  case (Cons e m q rows)
  then show ?case
    using mirrors_expire [OF assms(1)] by (cases e) (simp add: expire_all_def)
qed (simp add: expire_all_def)

lemma mirrored_cong:
  "tb_reservations t' = tb_reservations t \<Longrightarrow> tb_sequence t' = tb_sequence t \<Longrightarrow> mirrored l t' = mirrored l t"
  by (simp add: mirrored_def keys_mirrored_def)

lemma keys_mirrored_cong:
  assumes "tb_reservations t' = map f (tb_reservations t)" "lg_idempotency l' = lg_idempotency l"
    and "\<And>q. rw_id (f q) = rw_id q" "\<And>q. rw_slot (f q) = rw_slot q"
    and "\<And>q. rw_idempotency_key (f q) = rw_idempotency_key q"
  shows "keys_mirrored l' t' = keys_mirrored l t"
proof -
  have "find (row_keyed k i) (tb_reservations t') = map_option f (find (row_keyed k i) (tb_reservations t))" for k i
    unfolding assms(1) by (rule find_map_key) (simp add: row_keyed_def assms(4,5))
  then have "map_option (\<lambda>q. ReservationId (word_of_int (rw_id q))) (find (row_keyed k i) (tb_reservations t'))
      = map_option (\<lambda>q. ReservationId (word_of_int (rw_id q))) (find (row_keyed k i) (tb_reservations t))" for k i
    by (simp add: option.map_comp comp_def assms(3))
  then show ?thesis unfolding keys_mirrored_def assms(2) by simp
qed

lemma mirrored_expire:
  assumes "exact_driver dr" "tables_wf t" "mirrored l t"
  shows "mirrored (ledger_expire now l) (expire_tables dr now t)"
proof -
  have rows: "tb_reservations (expire_tables dr now t) = map (expire_row dr now) (tb_reservations t)"
    by (rule expire_tables_reservations [OF assms(2)])
  have "keys_mirrored (ledger_expire now l) (expire_tables dr now t) = keys_mirrored l t"
    by (rule keys_mirrored_cong [OF rows]) (simp_all add: ledger_expire_def)
  with assms(3) mirrored_rows_expire [OF assms(1)] show ?thesis
    by (simp add: mirrored_def rows ledger_expire_def)
qed

lemma expire_row_later:
  "exact_driver dr \<Longrightarrow> now \<le> later \<Longrightarrow> expire_row dr later (expire_row dr now q) = expire_row dr later q"
  by (auto simp: exact_driver_def expire_row_def)

text \<open>After a cleanup at a later instant the tables mirror the ledger cleaned up at that instant.\<close>

lemma follows_expire:
  assumes "exact_driver dr" "tables_wf t" "follows dr now l t" "now \<le> later"
  shows "mirrored (ledger_expire later l) (expire_tables dr later t)"
  using assms(3) unfolding follows_def
proof
  assume "mirrored l t"
  then show ?thesis by (rule mirrored_expire [OF assms(1,2)])
next
  assume m: "mirrored l (expire_tables dr now t)"
  have wf: "tables_wf (expire_tables dr now t)" using assms(2) by (simp add: expire_tables_wf_level)
  have rows: "tb_reservations (expire_tables dr later (expire_tables dr now t)) = tb_reservations (expire_tables dr later t)"
    using expire_row_later [OF assms(1,4)]
    by (simp add: expire_tables_reservations [OF assms(2)] expire_tables_reservations [OF wf])
  have "mirrored (ledger_expire later l) (expire_tables dr later (expire_tables dr now t))"
    by (rule mirrored_expire [OF assms(1) wf m])
  then show ?thesis using mirrored_cong [OF rows] by simp
qed

section \<open>Settling\<close>

lemma mirrors_status: "mirrors (rid, v) q \<Longrightarrow> mirrors (rid, v\<lparr>rv_status := st\<rparr>) (q\<lparr>rw_status := status_text st\<rparr>)"
  by (simp add: mirrors_def)

lemma mirrored_rows_status:
  assumes "list_all2 mirrors m rows" "\<forall>q \<in> set rows. 0 < rw_id q \<and> rw_id q \<le> i64_max"
  shows "list_all2 mirrors (set_status (ReservationId w) st m)
    (map (\<lambda>q. if rw_id q = uint w then q\<lparr>rw_status := status_text st\<rparr> else q) rows)"
  using assms
proof (induction rule: list_all2_induct)
  case (Cons e m q rows)
  obtain v where e: "e = (ReservationId (word_of_int (rw_id q)), v)"
    using Cons.hyps(1) by (auto simp: mirrors_def)
  have "uint (word_of_int (rw_id q) :: u64) = rw_id q"
    using Cons.prems by (intro uint_word_of_i64) auto
  then have "word_of_int (rw_id q) = w \<longleftrightarrow> rw_id q = uint w" by auto
  with Cons.IH Cons.prems Cons.hyps(1) e show ?case
    by (cases "rw_id q = uint w") (simp_all add: set_status_def mirrors_status)
qed (simp add: set_status_def)

lemma mirrored_settle:
  assumes "exact_driver dr" "tables_wf t" "mirrored l (expire_tables dr now t)"
    and "row \<in> set (tb_reservations t)" "rw_status row = ''active''" "rw_id row = uint w" "st \<noteq> Active"
  shows "mirrored (l\<lparr>lg_reservations := set_status (ReservationId w) st (lg_reservations l)\<rparr>)
    (expire_tables dr now (settle_row (status_text st) row t))"
proof -
  let ?t = "expire_tables dr now t" and ?u = "expire_tables dr now (settle_row (status_text st) row t)"
  let ?f = "\<lambda>q. if rw_id q = uint w then q\<lparr>rw_status := status_text st\<rparr> else q"
  have st: "settled_status (status_text st)" using assms(7) by (cases st) (simp_all add: settled_status_def)
  have wf: "tables_wf ?t" "tables_wf (settle_row (status_text st) row t)"
    using assms(2) settle_row_wf [OF assms(2,4,5) st] by (simp_all add: expire_tables_wf_level)
  have "expire_row dr now (?f q) = ?f (expire_row dr now q)" for q
    using assms(7) by (simp add: expire_row_def)
  then have rows: "tb_reservations ?u = map ?f (tb_reservations ?t)"
    using assms(6) by (simp add: expire_tables_reservations [OF assms(2)] expire_tables_reservations [OF wf(2)])
  have "\<forall>q \<in> set (tb_reservations ?t). 0 < rw_id q \<and> rw_id q \<le> i64_max"
    using tables_wfD(4,6) [OF wf(1)] by (fastforce simp: row_wf_def)
  with assms(3) have "list_all2 mirrors (set_status (ReservationId w) st (lg_reservations l)) (tb_reservations ?u)"
    unfolding rows by (intro mirrored_rows_status) (simp_all add: mirrored_def)
  moreover have "keys_mirrored (l\<lparr>lg_reservations := set_status (ReservationId w) st (lg_reservations l)\<rparr>) ?u
      = keys_mirrored l ?t"
    by (rule keys_mirrored_cong [OF rows]) auto
  ultimately show ?thesis using assms(3) by (simp add: mirrored_def)
qed

text \<open>Expiring one due row first changes nothing of what a cleanup leaves.\<close>

lemma settle_due_rows:
  assumes "exact_driver dr" "tables_wf t" "row \<in> set (tb_reservations t)" "rw_status row = ''active''"
    and "rw_expires_at row \<le> now"
  shows "tb_reservations (expire_tables dr now (settle_row ''expired'' row t)) = tb_reservations (expire_tables dr now t)"
proof -
  have wf: "tables_wf (settle_row ''expired'' row t)"
    using settle_row_wf [OF assms(2-4), of "''expired''"] by (simp add: settled_status_def)
  have "q = row" if "q \<in> set (tb_reservations t)" "rw_id q = rw_id row" for q
    using that assms(3) tables_wfD(2) [OF assms(2)] by (auto simp: distinct_map dest: inj_onD)
  then show ?thesis
    using assms(1,4,5) by (auto simp: expire_tables_reservations [OF assms(2)] expire_tables_reservations [OF wf]
        expire_row_def exact_driver_def)
qed

section \<open>The operations\<close>

fun action_status :: "finish_action \<Rightarrow> reservation_status" where
  "action_status FinishCommit = Committed"
| "action_status FinishRefund = Refunded"

lemma action_status_simps [simp]:
  "finish_status action = status_text (action_status action)" "action_status action \<noteq> Active"
  by (cases action; simp)+

lemma row_ids_fit: "tables_wf t \<Longrightarrow> \<forall>q \<in> set (tb_reservations t). 0 < rw_id q \<and> rw_id q \<le> i64_max"
  using tables_wfD(4,6) by (fastforce simp: row_wf_def)

lemma mirrored_find:
  assumes "exact_driver dr" "tables_wf t" "mirrored l (expire_tables dr now t)"
  shows "rel_option (\<lambda>v q. mirrors (ReservationId w, v) (expire_row dr now q))
    (hm_get (lg_reservations l) (ReservationId w)) (reservation_find (uint w) t)"
proof -
  let ?rows = "tb_reservations (expire_tables dr now t)"
  have "\<forall>q \<in> set ?rows. 0 < rw_id q \<and> rw_id q \<le> i64_max"
    by (rule row_ids_fit) (simp add: expire_tables_wf_level assms(2))
  moreover have "find (\<lambda>q. rw_id q = uint w) ?rows = map_option (expire_row dr now) (reservation_find (uint w) t)"
    unfolding expire_tables_reservations [OF assms(2)] reservation_find_def by (rule find_map_key) simp
  ultimately show ?thesis
    using mirrored_get [of "lg_reservations l" ?rows w] assms(3)
    by (simp add: mirrored_def option.rel_map)
qed

lemma finish_follows:
  assumes "exact_driver dr" "tables_wf (db_tables d)" "db_events d = []"
    and "follows dr past l (db_tables d)" "past \<le> now" "uint (as_u64 rid) \<le> i64_max"
  shows "fst (sqlite_finish_reservation now action rid d) = fst (ledger_guard (ledger_settle (action_status action) now rid) l)"
    and "follows dr now (snd (ledger_guard (ledger_settle (action_status action) now rid) l))
      (db_tables (snd (sqlite_finish_reservation now action rid d)))"
proof -
  let ?l = "ledger_expire now l" and ?t = "db_tables d"
  have m: "mirrored ?l (expire_tables dr now ?t)" by (rule follows_expire [OF assms(1,2,4,5)])
  have sound: "\<not> lg_broken l" using assms(4) by (auto simp: follows_def mirrored_def)
  have guard: "ledger_guard f l = f l" if "fst (f l) \<noteq> Panic" "\<not> lg_broken (snd (f l))" for f :: "ledger \<Rightarrow> (unit, ledger) store_effect"
    using that sound by (cases "f l") (simp add: ledger_guard_def)
  have settle: "ledger_settle st now rid l = (case hm_get (lg_reservations ?l) rid of
        None \<Rightarrow> (Err StReservationNotFound, ?l)
      | Some r \<Rightarrow>
          (if rv_status r = Active
           then (Ok (), ?l\<lparr>lg_reservations := set_status rid st (lg_reservations ?l)\<rparr>)
           else if rv_status r = Expired then (Err StReservationExpired, ?l) else (Ok (), ?l)))" for st
    by (simp add: ledger_settle_def Let_def)
  have broken: "lg_broken ?l = lg_broken l" by (simp add: ledger_expire_def)
  have get: "rel_option (\<lambda>v q. mirrors (rid, v) (expire_row dr now q))
      (hm_get (lg_reservations ?l) rid) (reservation_find (uint (as_u64 rid)) ?t)"
    using mirrored_find [OF assms(1,2) m, of "as_u64 rid"] by simp
  have "fst (sqlite_finish_reservation now action rid d) = fst (ledger_settle (action_status action) now rid l)
    \<and> follows dr now (snd (ledger_settle (action_status action) now rid l))
      (db_tables (snd (sqlite_finish_reservation now action rid d)))"
  proof (cases "reservation_find (uint (as_u64 rid)) ?t")
    case None
    with get have "hm_get (lg_reservations ?l) rid = None" by simp
    with None assms(6) m show ?thesis by (simp add: settle finish_calm [OF assms(3)] follows_def)
  next
    case (Some row)
    with get obtain v where v: "hm_get (lg_reservations ?l) rid = Some v" "mirrors (rid, v) (expire_row dr now row)"
      by (auto simp: option_rel_Some2)
    have row: "row \<in> set (tb_reservations ?t)" "rw_id row = uint (as_u64 rid)"
      using reservation_find_row [OF Some] by simp_all
    have status: "rw_status (expire_row dr now row) = status_text (rv_status v)" using v(2) by (simp add: mirrors_def)
    note calm = settle finish_calm [OF assms(3)] Some v(1)
    show ?thesis
    proof (cases "rv_status v")
      case Active
      then have active: "rw_status row = ''active''" "\<not> rw_expires_at row \<le> now"
        using status assms(1) by (auto simp: expire_row_def exact_driver_def split: if_splits)
      have "mirrored (?l\<lparr>lg_reservations := set_status rid (action_status action) (lg_reservations ?l)\<rparr>)
          (expire_tables dr now (settle_row (status_text (action_status action)) row ?t))"
        using mirrored_settle [OF assms(1,2) m row(1) active(1) row(2), of "action_status action"] by simp
      with Active active assms(6) show ?thesis by (simp add: calm follows_def)
    next
      case Expired
      then consider "rw_status row = ''expired''" | "rw_status row = ''active''" "rw_expires_at row \<le> now"
        using status assms(1) by (auto simp: expire_row_def exact_driver_def split: if_splits)
      then show ?thesis
      proof cases
        case 1
        with Expired assms(6) m show ?thesis by (simp add: calm follows_def)
      next
        case 2
        have "mirrored ?l (expire_tables dr now (settle_row ''expired'' row ?t))"
          using m mirrored_cong [OF settle_due_rows [OF assms(1,2) row(1) 2]] by simp
        with 2 Expired assms(6) show ?thesis by (simp add: calm follows_def)
      qed
    qed (use status assms(1,6) m in \<open>auto simp: calm follows_def expire_row_def split: if_splits\<close>)
  qed
  moreover have "fst (ledger_settle (action_status action) now rid l) \<noteq> Panic"
    "\<not> lg_broken (snd (ledger_settle (action_status action) now rid l))"
    using sound by (auto simp: settle broken split: option.splits)
  ultimately show "fst (sqlite_finish_reservation now action rid d) = fst (ledger_guard (ledger_settle (action_status action) now rid) l)"
    and "follows dr now (snd (ledger_guard (ledger_settle (action_status action) now rid) l))
      (db_tables (snd (sqlite_finish_reservation now action rid d)))"
    by (simp_all add: guard)
qed

lemma usage_follows:
  assumes "exact_driver dr" "tables_wf (db_tables d)" "db_events d = []"
    and "follows dr past l (db_tables d)" "past \<le> now" "separable k"
  shows "st_usage (ledger_ops lib) k w now l =
    (fst (sqlite_usage dr k w now d), ledger_expire now l)"
    and "follows dr now (ledger_expire now l) (db_tables (snd (sqlite_usage dr k w now d)))"
proof -
  have m: "mirrored (ledger_expire now l) (expire_tables dr now (db_tables d))"
    by (rule follows_expire [OF assms(1,2,4,5)])
  have wf: "tables_wf (expire_tables dr now (db_tables d))" using assms(2) by (simp add: expire_tables_wf_level)
  have "\<not> lg_broken l" "\<not> lg_broken (ledger_expire now l)"
    using assms(4) m by (auto simp: follows_def mirrored_def)
  moreover have "usage_at (bind_slot dr (codec_key k) w) (expire_tables dr now (db_tables d))
      = ledger_usage_at (counter_key_new k w) (ledger_expire now l)"
    unfolding bind_slot_exact [OF assms(1)]
    by (rule mirrored_usage [OF m wf]) (simp add: counter_key_new_def assms(6))
  ultimately show "st_usage (ledger_ops lib) k w now l = (fst (sqlite_usage dr k w now d), ledger_expire now l)"
    by (simp add: ledger_ops_def ledger_guard_def usage_calm [OF assms(3,2)])
  show "follows dr now (ledger_expire now l) (db_tables (snd (sqlite_usage dr k w now d)))"
    using m by (simp add: usage_calm [OF assms(3,2)] follows_def)
qed

text \<open>
  Requests with a key of a refunded or expired reservation are left out: there the stores differ, the
  in-memory store denies and SQLite fails on the unique index or gives the expired reservation back.
\<close>

definition key_usable :: "reserve_request \<Rightarrow> ledger \<Rightarrow> bool" where
  "key_usable r l \<longleftrightarrow>
     (case Option.bind (rr_idempotency_key r)
        (\<lambda>i. hm_get (lg_idempotency l) (counter_key_new (rr_key r) (rr_window r), i)) of
        None \<Rightarrow> True
      | Some rid \<Rightarrow>
          (case hm_get (lg_reservations (ledger_expire (rr_now r) l)) rid of
             None \<Rightarrow> False
           | Some v \<Rightarrow> rv_status v = Active \<or> rv_status v = Committed))"

definition keyed_row :: "reserve_request \<Rightarrow> tables \<Rightarrow> reservation_row option" where
  "keyed_row r t = Option.bind (rr_idempotency_key r)
     (\<lambda>i. find (row_keyed (counter_key_new (rr_key r) (rr_window r)) i) (tb_reservations t))"

lemma find_refine: "find P xs = Some x \<Longrightarrow> Q x \<Longrightarrow> find (\<lambda>y. P y \<and> Q y) xs = Some x"
  by (induction xs) (auto split: if_splits)

lemma find_refine_None: "find P xs = None \<Longrightarrow> find (\<lambda>y. P y \<and> Q y) xs = None"
  by (auto simp: find_None_iff)

lemma request_slot_exact:
  "exact_driver dr \<Longrightarrow> request_slot dr r = counter_slot (counter_key_new (rr_key r) (rr_window r))"
  by (simp add: request_slot_def bind_slot_exact)

lemma mirrored_key:
  assumes "mirrored l t" "separable (rr_key r)"
  shows "Option.bind (rr_idempotency_key r) (\<lambda>i. hm_get (lg_idempotency l) (counter_key_new (rr_key r) (rr_window r), i))
    = map_option (\<lambda>q. ReservationId (word_of_int (rw_id q))) (keyed_row r t)"
  using assms
  by (cases "rr_idempotency_key r") (simp_all add: keyed_row_def mirrored_def keys_mirrored_def counter_key_new_def)

lemma keyed_row_live:
  assumes "exact_driver dr" "tables_wf t" "mirrored l t" "separable (rr_key r)"
    and "l = ledger_expire (rr_now r) l0" "key_usable r l0"
  shows "live_row (request_slot dr r) (key_text r) t = keyed_row r t"
    and "keyed_row r t = Some q \<Longrightarrow> \<exists>v. hm_get (lg_reservations l) (ReservationId (word_of_int (rw_id q))) = Some v
      \<and> mirrors (ReservationId (word_of_int (rw_id q)), v) q \<and> (rv_status v = Active \<or> rv_status v = Committed)"
proof -
  let ?k = "counter_key_new (rr_key r) (rr_window r)"
  have *: "\<exists>v. hm_get (lg_reservations l) (ReservationId (word_of_int (rw_id q))) = Some v
      \<and> mirrors (ReservationId (word_of_int (rw_id q)), v) q \<and> (rv_status v = Active \<or> rv_status v = Committed)"
    if q: "keyed_row r t = Some q" for q
  proof -
    have "lg_idempotency l0 = lg_idempotency l" by (simp add: assms(5) ledger_expire_def)
    then obtain v where v: "hm_get (lg_reservations l) (ReservationId (word_of_int (rw_id q))) = Some v"
      "rv_status v = Active \<or> rv_status v = Committed"
      using assms(6) mirrored_key [OF assms(3,4)] q assms(5) by (auto simp: key_usable_def split: option.splits)
    have in_t: "q \<in> set (tb_reservations t)" using q by (auto simp: keyed_row_def bind_eq_Some_conv dest: find_SomeD)
    have id: "uint (word_of_int (rw_id q) :: u64) = rw_id q"
      using row_ids_fit [OF assms(2)] in_t by (intro uint_word_of_i64) auto
    have "find (\<lambda>p. rw_id p = rw_id q) (tb_reservations t) = Some q"
      using find_distinct [OF tables_wfD(2) [OF assms(2)]] in_t by simp
    with mirrored_get [OF _ row_ids_fit [OF assms(2)], of "lg_reservations l" "word_of_int (rw_id q)"] assms(3) v
    have "mirrors (ReservationId (word_of_int (rw_id q)), v) q" by (simp add: mirrored_def id)
    with v show ?thesis by blast
  qed
  then show "keyed_row r t = Some q \<Longrightarrow> \<exists>v. hm_get (lg_reservations l) (ReservationId (word_of_int (rw_id q))) = Some v
      \<and> mirrors (ReservationId (word_of_int (rw_id q)), v) q \<and> (rv_status v = Active \<or> rv_status v = Committed)" .
  show "live_row (request_slot dr r) (key_text r) t = keyed_row r t"
  proof (cases "rr_idempotency_key r")
    case None
    then show ?thesis by (simp add: live_row_def key_text_def keyed_row_def find_None_iff)
  next
    case (Some i)
    let ?Q = "\<lambda>q. rw_status q \<in> {''active'', ''committed''}"
    have row: "keyed_row r t = find (row_keyed ?k i) (tb_reservations t)" using Some by (simp add: keyed_row_def)
    have live: "live_row (request_slot dr r) (key_text r) t = find (\<lambda>q. row_keyed ?k i q \<and> ?Q q) (tb_reservations t)"
      using Some by (simp add: live_row_def key_text_def row_keyed_def request_slot_exact [OF assms(1)] conj_assoc)
    show ?thesis
    proof (cases "keyed_row r t")
      case None
      then show ?thesis unfolding live using row find_refine_None [of "row_keyed ?k i" _ ?Q] by simp
    next
      case (Some q)
      with * have "?Q q" by (auto simp: mirrors_def)
      then show ?thesis unfolding live using Some row find_refine [of "row_keyed ?k i" _ q ?Q] by simp
    qed
  qed
qed

lemma mirrored_admit:
  assumes "exact_driver dr" "mirrored l t" "separable (rr_key r)" "keyed_row r t = None" "tb_sequence t < i64_max"
  defines "k \<equiv> counter_key_new (rr_key r) (rr_window r)"
    and "rid \<equiv> ReservationId (word_of_nat (lg_last_id l + 1))"
  shows "mirrored (l\<lparr>lg_last_id := lg_last_id l + 1,
       lg_reservations := lg_reservations l @ [(rid, active_record k (rr_amount r) e)],
       lg_idempotency := (case rr_idempotency_key r of None \<Rightarrow> lg_idempotency l
         | Some i \<Rightarrow> lg_idempotency l @ [((k, i), rid)])\<rparr>)
    (admitted_tables dr (counter_slot k) (uint (rr_amount r)) e (key_text r) t)" (is "mirrored ?l ?t")
proof -
  have seq: "sequence_next dr t = int (lg_last_id l + 1)"
    using assms(1,2) by (simp add: sequence_next_def exact_driver_def mirrored_def)
  let ?new = "\<lparr>rw_id = int (lg_last_id l + 1), rw_slot = counter_slot k, rw_amount = uint (rr_amount r),
    rw_status = ''active'', rw_expires_at = e, rw_idempotency_key = key_text r\<rparr>"
  have t: "tb_reservations ?t = tb_reservations t @ [?new]" "tb_sequence ?t = int (lg_last_id l + 1)"
    using assms(1) by (simp_all add: admitted_tables_def seq exact_driver_def)
  have sep: "separable (ck_store_key k)" using assms(3) by (simp add: k_def counter_key_new_def)
  have "mirrors (rid, active_record k (rr_amount r) e) ?new"
    using sep by (simp add: mirrors_def rid_def active_record_def)
  then have rows: "list_all2 mirrors (lg_reservations ?l) (tb_reservations ?t)"
    using assms(2) by (simp add: t mirrored_def list_all2_appendI)
  have "hm_get (lg_idempotency ?l) (k', i') = map_option (\<lambda>q. ReservationId (word_of_int (rw_id q)))
      (find (row_keyed k' i') (tb_reservations ?t))" if k': "separable (ck_store_key k')" for k' i'
  proof -
    have old: "hm_get (lg_idempotency l) (k', i') = map_option (\<lambda>q. ReservationId (word_of_int (rw_id q)))
        (find (row_keyed k' i') (tb_reservations t))"
      using assms(2) k' by (simp add: mirrored_def keys_mirrored_def)
    have new: "row_keyed k' i' ?new \<longleftrightarrow> k' = k \<and> rr_idempotency_key r = Some i'"
      using counter_slot_inject [OF sep k'] by (auto simp: row_keyed_def key_text_def idempotency_key.expand)
    show ?thesis
      unfolding t find_append
      by (cases "find (row_keyed k' i') (tb_reservations t)"; cases "rr_idempotency_key r")
        (use old new in \<open>auto simp: map_add_def rid_def\<close>)
  qed
  then show ?thesis using rows assms(2) by (simp add: mirrored_def keys_mirrored_def t(2))
qed

lemma reserve_follows_valid:
  assumes "exact_driver dr" "tables_wf (db_tables d)" "db_events d = []"
    and "follows dr past l (db_tables d)" "past \<le> rr_now r" "separable (rr_key r)"
    and "sql_valid lib r" "key_usable r l" "tb_sequence (db_tables d) < i64_max"
  shows "fst (sqlite_reserve_if_allowed lib dr r d) = fst (ledger_guard (ledger_reserve lib r) l)
    \<and> mirrored (snd (ledger_guard (ledger_reserve lib r) l)) (db_tables (snd (sqlite_reserve_if_allowed lib dr r d)))
    \<and> tb_sequence (db_tables (snd (sqlite_reserve_if_allowed lib dr r d))) \<le> tb_sequence (db_tables d) + 1"
proof -
  define l1 where "l1 = ledger_expire (rr_now r) l"
  define t where "t = fresh_tables dr r (db_tables d)"
  let ?k = "counter_key_new (rr_key r) (rr_window r)"
  let ?ans = "sqlite_reserve_if_allowed lib dr r d"
  have m: "mirrored l1 t" unfolding l1_def t_def fresh_tables_def by (rule follows_expire [OF assms(1,2,4,5)])
  have wf: "tables_wf t" using assms(2) by (simp add: t_def fresh_tables_def expire_tables_wf_level)
  have seq: "tb_sequence t = tb_sequence (db_tables d)" by (simp add: t_def fresh_tables_def)
  have sep: "separable (ck_store_key ?k)" using assms(6) by (simp add: counter_key_new_def)
  have slot: "request_slot dr r = counter_slot ?k" by (rule request_slot_exact [OF assms(1)])
  note live = keyed_row_live [OF assms(1) wf m assms(6) l1_def assms(8)]
  have sound: "\<not> lg_broken l" using assms(4) by (auto simp: follows_def mirrored_def)
  have guard: "ledger_guard f l = f l" if "fst (f l) \<noteq> Panic" "\<not> lg_broken (snd (f l))"
    for f :: "ledger \<Rightarrow> (store_reservation_result, ledger) store_effect"
    using that sound by (cases "f l") (simp add: ledger_guard_def)
  note units = mirrored_units [OF m sep, of Active, simplified] mirrored_units [OF m sep, of Committed, simplified]
    tables_wfD(7,8) [OF wf]
  note usage = mirrored_usage [OF m wf sep]
  have reserve: "ledger_reserve lib r l =
      (case map_option (\<lambda>q. ReservationId (word_of_int (rw_id q))) (keyed_row r t) of
        Some rid \<Rightarrow>
          (case hm_get (lg_reservations l1) rid of
             None \<Rightarrow> (Ok (srr_deny (ledger_usage_at ?k l1)), l1)
           | Some v \<Rightarrow>
               (if rv_status v = Active \<or> rv_status v = Committed
                then (Ok (srr_allow (store_reservation_new rid (rv_expires_at v)) (ledger_usage_at ?k l1)), l1)
                else (Ok (srr_deny (ledger_usage_at ?k l1)), l1)))
      | None \<Rightarrow>
          (if ledger_units Committed ?k l1 + ledger_units Active ?k l1 + unat (rr_amount r) \<le> unat (rr_effective_limit r)
           then ledger_admit lib r ?k l1 else (Ok (srr_deny (ledger_usage_at ?k l1)), l1)))"
    unfolding ledger_reserve_def Let_def mirrored_key [OF m assms(6), symmetric] l1_def ..
  have fits: "committed_of (counter_slot ?k) t + reserved_of (counter_slot ?k) t + uint (rr_amount r) \<le> uint (rr_effective_limit r) \<longleftrightarrow>
      ledger_units Committed ?k l1 + ledger_units Active ?k l1 + unat (rr_amount r) \<le> unat (rr_effective_limit r)"
    unfolding units uint_nat of_nat_add [symmetric] of_nat_le_iff ..
  have "fst ?ans = fst (ledger_reserve lib r l) \<and> mirrored (snd (ledger_reserve lib r l)) (db_tables (snd ?ans))
    \<and> tb_sequence (db_tables (snd ?ans)) \<le> tb_sequence (db_tables d) + 1 \<and> fst (ledger_reserve lib r l) \<noteq> Panic"
    using assms(3,2)
  proof (cases rule: reserve_calm_cases [where lib = lib and dr = dr and r = r])
    case (refused out)
    with assms(7) show ?thesis by simp
  next
    case (overflow msg)
    with assms(1) show ?thesis by (simp add: exact_driver_def)
  next
    case (existing q)
    then have "keyed_row r t = Some q" using live(1) by (simp add: t_def)
    with live(2) [OF this] existing(2) m seq show ?thesis
      by (auto simp: reserve replay_row_def slot usage mirrors_def t_def [symmetric])
  next
    case denied
    then have none: "keyed_row r t = None" using live(1) by (simp add: t_def)
    have "mirrored l1 (counter_added (request_slot dr r) t)"
      using m mirrored_cong [of "counter_added (request_slot dr r) t" t l1] by simp
    with denied none fits seq show ?thesis
      by (simp add: reserve slot usage t_def [symmetric] not_le [symmetric])
  next
    case (admitted e t')
    then have none: "keyed_row r t = None" using live(1) by (simp add: t_def)
    let ?t = "counter_added (request_slot dr r) t" and ?rid = "ReservationId (word_of_nat (lg_last_id l1 + 1))"
    let ?l = "l1\<lparr>lg_last_id := lg_last_id l1 + 1,
       lg_reservations := lg_reservations l1 @ [(?rid, active_record ?k (rr_amount r) e)],
       lg_idempotency := (case rr_idempotency_key r of None \<Rightarrow> lg_idempotency l1
         | Some i \<Rightarrow> lg_idempotency l1 @ [((?k, i), ?rid)])\<rparr>"
    have "mirrored l1 ?t" using m mirrored_cong [of ?t t l1] by simp
    moreover have "keyed_row r ?t = None" using none by (simp add: keyed_row_def)
    ultimately have new: "mirrored ?l t'"
      using mirrored_admit [OF assms(1) _ assms(6), of l1 ?t e] assms(9) seq admitted(3)
      by (simp add: slot t_def [symmetric])
    have "sequence_next dr t = int (lg_last_id l1 + 1)"
      using assms(1) m by (simp add: sequence_next_def exact_driver_def mirrored_def)
    then have rid: "ReservationId (word_of_int (sequence_next dr t)) = ?rid" by simp
    have small: "\<not> 18446744073709551615 < lg_last_id l1 + 1"
      using assms(9) m seq by (simp add: mirrored_def i64_max_def)
    have admit: "ledger_admit lib r ?k l1 = (Ok (srr_allow (store_reservation_new ?rid e) (ledger_usage_at ?k ?l)), ?l)"
      unfolding ledger_admit_def Let_def if_not_P [OF small] admitted(4) option.case ..
    have "int (lg_last_id ?l) = tb_sequence t'" using new by (simp only: mirrored_def)
    moreover have "int (lg_last_id l1) = tb_sequence t" using m by (simp only: mirrored_def)
    ultimately have step: "tb_sequence t' = tb_sequence (db_tables d) + 1" using seq by simp
    have "ledger_reserve lib r l = ledger_admit lib r ?k l1"
      using none admitted(2) fits by (simp add: reserve slot t_def [symmetric])
    moreover have "?ans = (Ok (srr_allow (store_reservation_new ?rid e) (ledger_usage_at ?k ?l)), \<lparr>db_tables = t', db_events = []\<rparr>)"
      using admitted(7) rid mirrored_usage [OF new admitted(5) sep] by (simp only: slot t_def [symmetric])
    ultimately show ?thesis using admit new step by simp
  next
    case (conflict e msg)
    then have none: "keyed_row r t = None" using live(1) by (simp add: t_def)
    have "sequence_next dr (counter_added (request_slot dr r) t) \<le> i64_max"
      using assms(1,9) seq by (simp add: sequence_next_def exact_driver_def)
    moreover have "\<not> (key_text r \<noteq> None \<and> list_ex (\<lambda>q. rw_slot q = request_slot dr r \<and> rw_idempotency_key q = key_text r)
        (tb_reservations t))"
      using none by (auto simp: keyed_row_def key_text_def find_None_iff row_keyed_def slot list_ex_iff)
    ultimately show ?thesis
      using conflict(3) by (simp add: insert_reservation_row_def t_def [symmetric] Let_def split: if_splits)
  qed
  then show ?thesis by (simp add: guard mirrored_def)
qed

section \<open>Sequences of calls\<close>

fun call_time :: "store_call \<Rightarrow> datetime" where
  "call_time (ReserveCall r) = rr_now r"
| "call_time (CommitCall t rid) = t"
| "call_time (RefundCall t rid) = t"
| "call_time (UsageCall k w t) = t"

text \<open>The calls within the range of the tables: numbers a \<open>BIGINT\<close> holds, keys their text determines.\<close>

fun sql_exact_call :: "('tz, 'more) chrono_scheme \<Rightarrow> store_call \<Rightarrow> bool" where
  "sql_exact_call lib (ReserveCall r) \<longleftrightarrow> separable (rr_key r) \<and> uint (rr_amount r) \<le> i64_max
     \<and> uint (rr_effective_limit r) \<le> i64_max \<and> ch_add lib (rr_now r) (rr_reservation_ttl r) \<noteq> None"
| "sql_exact_call lib (CommitCall t rid) \<longleftrightarrow> uint (as_u64 rid) \<le> i64_max"
| "sql_exact_call lib (RefundCall t rid) \<longleftrightarrow> uint (as_u64 rid) \<le> i64_max"
| "sql_exact_call lib (UsageCall k w t) \<longleftrightarrow> separable k"

fun ledger_keys_usable :: "('tz, 'more) chrono_scheme \<Rightarrow> store_call list \<Rightarrow> ledger \<Rightarrow> bool" where
  "ledger_keys_usable lib [] l \<longleftrightarrow> True"
| "ledger_keys_usable lib (c # cs) l \<longleftrightarrow>
     (case c of ReserveCall r \<Rightarrow> key_usable r l | _ \<Rightarrow> True) \<and> ledger_keys_usable lib cs (store_after (ledger_ops lib) c l)"

text \<open>The same over the in-memory store.\<close>

fun keys_usable :: "('tz, 'more) chrono_scheme \<Rightarrow> store_call list \<Rightarrow> memory_store \<Rightarrow> bool" where
  "keys_usable lib [] m \<longleftrightarrow> True"
| "keys_usable lib (c # cs) m \<longleftrightarrow>
     (case c of ReserveCall r \<Rightarrow> key_usable r (abs_store m) | _ \<Rightarrow> True)
     \<and> keys_usable lib cs (store_after (memory_ops lib) c m)"

lemma ledger_keys_usable_abs:
  assumes "mem_wf m" "list_all exact_call cs"
  shows "ledger_keys_usable lib cs (abs_store m) = keys_usable lib cs m"
  using assms
proof (induction cs arbitrary: m)
  case (Cons c cs)
  then have "mem_wf (store_after (memory_ops lib) c m)" by (auto intro: memory.after_wf)
  with Cons show ?case using ledger_call_abs [of m c lib] by simp
qed simp

text \<open>Only a reservation takes a number of the sequence.\<close>

fun ids_used :: "store_call \<Rightarrow> nat" where
  "ids_used (ReserveCall r) = 1"
| "ids_used c = 0"

lemma finish_sequence:
  "db_events d = [] \<Longrightarrow> tb_sequence (db_tables (snd (sqlite_finish_reservation now action rid d))) = tb_sequence (db_tables d)"
  by (simp add: finish_calm split: option.splits)

lemma call_follows:
  assumes "exact_driver dr" "sql_up d" "follows dr past l (db_tables d)" "past \<le> call_time c"
    and "sql_exact_call lib c" "ledger_keys_usable lib [c] l" "tb_sequence (db_tables d) + int (ids_used c) \<le> i64_max"
  shows "store_reply_to (sqlite_ops lib dr) c d = store_reply_to (ledger_ops lib) c l \<and>
    (\<exists>now \<le> call_time c. follows dr now (store_after (ledger_ops lib) c l) (db_tables (store_after (sqlite_ops lib dr) c d)))
    \<and> tb_sequence (db_tables (store_after (sqlite_ops lib dr) c d)) \<le> tb_sequence (db_tables d) + int (ids_used c)"
proof -
  have wf: "tables_wf (db_tables d)" "db_events d = []" using assms(2) by (simp_all add: sql_up_def sql_wf_def)
  show ?thesis
  proof (cases c)
    case (ReserveCall r)
    show ?thesis
    proof (cases "reserve_request_validate r")
      case (Ok u)
      then have "sql_valid lib r" using assms(5) ReserveCall by (simp add: sql_valid_def)
      then have "fst (sqlite_reserve_if_allowed lib dr r d) = fst (ledger_guard (ledger_reserve lib r) l)
          \<and> mirrored (snd (ledger_guard (ledger_reserve lib r) l)) (db_tables (snd (sqlite_reserve_if_allowed lib dr r d)))
          \<and> tb_sequence (db_tables (snd (sqlite_reserve_if_allowed lib dr r d))) \<le> tb_sequence (db_tables d) + 1"
        using assms ReserveCall by (intro reserve_follows_valid [OF assms(1) wf]) simp_all
      then show ?thesis
        using ReserveCall Ok by (auto simp: ledger_ops_def follows_def simp del: reserve_request_validate_Ok)
    next
      case (Err e)
      then show ?thesis
        using ReserveCall assms(3,4) by (auto simp: ledger_ops_def sqlite_reserve_if_allowed_def)
    qed simp
  next
    case (CommitCall t rid)
    have fit: "uint (as_u64 rid) \<le> i64_max" and time: "past \<le> t" using assms(4,5) CommitCall by simp_all
    note finish = finish_follows [OF assms(1) wf assms(3) time fit, of FinishCommit]
    then show ?thesis
      using CommitCall finish_sequence [OF wf(2)] by (auto simp: ledger_ops_def sqlite_commit_def)
  next
    case (RefundCall t rid)
    have fit: "uint (as_u64 rid) \<le> i64_max" and time: "past \<le> t" using assms(4,5) RefundCall by simp_all
    note finish = finish_follows [OF assms(1) wf assms(3) time fit, of FinishRefund]
    then show ?thesis
      using RefundCall finish_sequence [OF wf(2)] by (auto simp: ledger_ops_def sqlite_refund_def)
  next
    case (UsageCall k w t)
    have sep: "separable k" and time: "past \<le> t" using assms(4,5) UsageCall by simp_all
    note usage = usage_follows(1) [OF assms(1) wf assms(3) time sep, of lib w]
      usage_follows(2) [OF assms(1) wf assms(3) time sep, of w]
    have "tb_sequence (db_tables (snd (sqlite_usage dr k w t d))) = tb_sequence (db_tables d)"
      by (simp add: usage_calm [OF wf(2,1)])
    then show ?thesis using UsageCall usage by auto
  qed
qed

lemma sqlite_ledger_replies:
  assumes "exact_driver dr" "sql_up d" "follows dr past l (db_tables d)" "list_all (\<lambda>c. past \<le> call_time c) cs"
    and "sorted (map call_time cs)" "list_all (sql_exact_call lib) cs" "ledger_keys_usable lib cs l"
    and "tb_sequence (db_tables d) + int (length cs) \<le> i64_max"
  shows "store_replies (sqlite_ops lib dr) cs d = store_replies (ledger_ops lib) cs l"
  using assms(2-8)
proof (induction cs arbitrary: d l past)
  case (Cons c cs)
  let ?d = "store_after (sqlite_ops lib dr) c d" and ?l = "store_after (ledger_ops lib) c l"
  have one: "ids_used c \<le> 1" by (cases c) simp_all
  have "store_reply_to (sqlite_ops lib dr) c d = store_reply_to (ledger_ops lib) c l \<and>
    (\<exists>now \<le> call_time c. follows dr now ?l (db_tables ?d)) \<and> tb_sequence (db_tables ?d) \<le> tb_sequence (db_tables d) + int (ids_used c)"
    using Cons.prems one by (intro call_follows [OF assms(1), where past = past]) simp_all
  then obtain now where reply: "store_reply_to (sqlite_ops lib dr) c d = store_reply_to (ledger_ops lib) c l"
    and now: "now \<le> call_time c" "follows dr now ?l (db_tables ?d)"
    and seq: "tb_sequence (db_tables ?d) \<le> tb_sequence (db_tables d) + int (ids_used c)" by blast
  have "sql_up ?d" using Cons.prems(1) by (cases c) (simp_all add: sql_up_keeps sqlite_commit_def sqlite_refund_def)
  moreover have "list_all (\<lambda>c. now \<le> call_time c) cs"
    using Cons.prems(4) now(1) by (fastforce simp: list_all_iff)
  ultimately have "store_replies (sqlite_ops lib dr) cs ?d = store_replies (ledger_ops lib) cs ?l"
    using Cons.prems seq now(2) one by (intro Cons.IH) simp_all
  with reply show ?case by simp
qed simp

lemma follows_empty: "follows dr now ledger_new (db_tables (empty_database []))"
  by (simp add: follows_def mirrored_def keys_mirrored_def ledger_new_def empty_database_def empty_tables_def)

section \<open>A warden over SQLite\<close>

definition sql_memory_related :: "sql_driver \<Rightarrow> nat \<Rightarrow> datetime \<Rightarrow> database \<Rightarrow> memory_store \<Rightarrow> bool" where
  "sql_memory_related dr n past d m \<longleftrightarrow> exact_driver dr \<and> sql_up d \<and> mem_wf m
     \<and> (\<exists>now \<le> past. follows dr now (abs_store m) (db_tables d)) \<and> tb_sequence (db_tables d) + int n \<le> i64_max"

definition sql_exact_request :: "('tz, 'more) chrono_scheme \<Rightarrow> reserve_request \<Rightarrow> bool" where
  "sql_exact_request lib r \<longleftrightarrow> sql_exact_call lib (ReserveCall r) \<and> rr_idempotency_key r = None"

lemma sql_exact_is_exact: "sql_exact_call lib c \<Longrightarrow> exact_call c"
proof (cases c)
  case (ReserveCall r)
  assume "sql_exact_call lib c"
  then have "uint (rr_effective_limit r) < uint u64_max" using ReserveCall by (simp add: i64_max_def u64_max_def)
  then show ?thesis using ReserveCall by (simp add: exact_request_def word_less_def)
qed simp_all

lemma related_call:
  assumes "sql_memory_related dr (n + ids_used c) past d m" "past \<le> call_time c" "sql_exact_call lib c"
    and "keys_usable lib [c] m"
  shows "store_reply_to (sqlite_ops lib dr) c d = store_reply_to (memory_ops lib) c m \<and>
    sql_memory_related dr n (call_time c) (store_after (sqlite_ops lib dr) c d) (store_after (memory_ops lib) c m)"
proof -
  obtain now where rel: "exact_driver dr" "sql_up d" "mem_wf m" "now \<le> past" "follows dr now (abs_store m) (db_tables d)"
    using assms(1) by (auto simp: sql_memory_related_def)
  have ids: "tb_sequence (db_tables d) + int (ids_used c) + int n \<le> i64_max"
    using assms(1) by (simp add: sql_memory_related_def)
  have exact: "exact_call c" by (rule sql_exact_is_exact [OF assms(3)])
  have "now \<le> call_time c" using rel(4) assms(2) by (rule order_trans)
  note agree = call_follows [OF rel(1,2,5) this assms(3)]
  have "ledger_keys_usable lib [c] (abs_store m)"
    using assms(4) ledger_keys_usable_abs [OF rel(3), of "[c]" lib] exact by simp
  moreover have "tb_sequence (db_tables d) + int (ids_used c) \<le> i64_max" using ids by simp
  ultimately have agree: "store_reply_to (sqlite_ops lib dr) c d = store_reply_to (ledger_ops lib) c (abs_store m) \<and>
    (\<exists>now \<le> call_time c. follows dr now (store_after (ledger_ops lib) c (abs_store m)) (db_tables (store_after (sqlite_ops lib dr) c d)))
    \<and> tb_sequence (db_tables (store_after (sqlite_ops lib dr) c d)) \<le> tb_sequence (db_tables d) + int (ids_used c)"
    by (rule agree)
  have "sql_up (store_after (sqlite_ops lib dr) c d)"
    using rel(2) by (cases c) (simp_all add: sql_up_keeps sqlite_commit_def sqlite_refund_def)
  moreover have "mem_wf (store_after (memory_ops lib) c m)" using memory.after_wf [OF exact rel(3)] .
  ultimately show ?thesis
    using agree ledger_call_abs [OF rel(3) exact, of lib] rel(1) ids by (auto simp: sql_memory_related_def)
qed

lemma no_key_usable: "rr_idempotency_key r = None \<Longrightarrow> keys_usable lib [ReserveCall r] m"
  by (simp add: key_usable_def)

interpretation sqlite_memory: agreeing_stores "sqlite_ops lib dr" "memory_ops lib" "sql_memory_related dr"
    separable "\<lambda>rid. uint (as_u64 rid) \<le> i64_max" "sql_exact_request lib"
  for lib :: "('tz, 'more) chrono_scheme" and dr :: sql_driver
proof
  fix n past now k w r rid d m
  show "sql_memory_related dr n past d m \<Longrightarrow> past \<le> now \<Longrightarrow> separable k \<Longrightarrow>
      fst (st_usage (sqlite_ops lib dr) k w now d) = fst (st_usage (memory_ops lib) k w now m) \<and>
      sql_memory_related dr n now (snd (st_usage (sqlite_ops lib dr) k w now d)) (snd (st_usage (memory_ops lib) k w now m))"
    using related_call [of dr n "UsageCall k w now" past d m lib] by simp
  show "sql_memory_related dr (Suc n) past d m \<Longrightarrow> past \<le> rr_now r \<Longrightarrow> sql_exact_request lib r \<Longrightarrow>
      fst (st_reserve_if_allowed (sqlite_ops lib dr) r d) = fst (st_reserve_if_allowed (memory_ops lib) r m) \<and>
      sql_memory_related dr n (rr_now r) (snd (st_reserve_if_allowed (sqlite_ops lib dr) r d))
        (snd (st_reserve_if_allowed (memory_ops lib) r m))"
    using related_call [of dr n "ReserveCall r" past d m lib] no_key_usable [of r lib m]
    by (simp add: sql_exact_request_def)
  show "sql_memory_related dr n past d m \<Longrightarrow> past \<le> now \<Longrightarrow> uint (as_u64 rid) \<le> i64_max \<Longrightarrow>
      fst (st_commit (sqlite_ops lib dr) now rid d) = fst (st_commit (memory_ops lib) now rid m) \<and>
      sql_memory_related dr n now (snd (st_commit (sqlite_ops lib dr) now rid d)) (snd (st_commit (memory_ops lib) now rid m))"
    using related_call [of dr n "CommitCall now rid" past d m lib] by simp
  show "sql_memory_related dr n past d m \<Longrightarrow> past \<le> now \<Longrightarrow> uint (as_u64 rid) \<le> i64_max \<Longrightarrow>
      fst (st_refund (sqlite_ops lib dr) now rid d) = fst (st_refund (memory_ops lib) now rid m) \<and>
      sql_memory_related dr n now (snd (st_refund (sqlite_ops lib dr) now rid d)) (snd (st_refund (memory_ops lib) now rid m))"
    using related_call [of dr n "RefundCall now rid" past d m lib] by simp
  show "sql_memory_related dr (Suc n) past d m \<Longrightarrow> sql_memory_related dr n past d m"
    by (simp add: sql_memory_related_def)
  show "sql_memory_related dr n past d m \<Longrightarrow> past \<le> now \<Longrightarrow> sql_memory_related dr n now d m"
    unfolding sql_memory_related_def by (blast intro: order_trans)
qed

text \<open>The operations whose calls are within the range of the tables.\<close>

fun sql_exact_op :: "('tz, 'more) chrono_scheme \<Rightarrow> 's budget_warden \<Rightarrow> broker_op \<Rightarrow> bool" where
  "sql_exact_op lib wd (DoAuthorize t r) \<longleftrightarrow> key_fits wd separable (rq_key r)"
| "sql_exact_op lib wd (DoReserve t r) \<longleftrightarrow> key_fits wd separable (rq_key r)
     \<and> uint (rq_amount r) \<le> i64_max \<and> rq_idempotency_key r = None
     \<and> (case registry_find (wd_policies wd) (rq_key r) of None \<Rightarrow> True | Some p \<Rightarrow> uint (bp_hard_limit p) \<le> i64_max)
     \<and> ch_add lib (wd_clock wd t) (wd_reservation_ttl wd) \<noteq> None"
| "sql_exact_op lib wd (DoCommit t v) \<longleftrightarrow> uint (as_u64 (rs_id v)) \<le> i64_max"
| "sql_exact_op lib wd (DoRefund t v) \<longleftrightarrow> uint (as_u64 (rs_id v)) \<le> i64_max"
| "sql_exact_op lib wd (DoUsage t q) \<longleftrightarrow> key_fits wd separable (uq_key q)"
| "sql_exact_op lib wd (DoReport t) \<longleftrightarrow>
     list_all (\<lambda>p. separable (policy_store_key p (report_key (bp_key p)))) (wd_policies wd)"

lemma sql_exact_op_fits:
  assumes "sql_exact_op lib wd x"
  shows "op_fits wd separable (\<lambda>rid. uint (as_u64 rid) \<le> i64_max) (sql_exact_request lib) x"
proof (cases x)
  case (DoReserve t r)
  have "sql_exact_request lib (store_request wd p t r w limit)"
    if "registry_find (wd_policies wd) (rq_key r) = Some p" "limit \<le> bp_hard_limit p" for p w limit
  proof -
    have "uint limit \<le> uint (bp_hard_limit p)" using that(2) by (simp add: word_le_def)
    with assms DoReserve that(1) show ?thesis
      by (simp add: sql_exact_request_def store_request_def key_fits_def)
  qed
  with assms DoReserve show ?thesis by simp
qed (use assms in simp_all)

lemma sql_memory_start:
  "exact_driver dr \<Longrightarrow> int n \<le> i64_max \<Longrightarrow> sql_memory_related dr n past (empty_database []) memory_store_new"
  using follows_empty [of dr past] empty_database_simps(1) [of "[]"]
  by (auto simp: sql_memory_related_def sql_up_def, simp_all add: empty_database_def empty_tables_def)

end
