(* ===== verification/Postgres_Store.thy ===== *)
theory Postgres_Store
  imports Sqlite_Store
begin

text \<open>
  \<open>store/postgres.rs\<close>: the PostgreSQL store, statement by statement like the SQLite store in the other
  dialect (\<open>GREATEST\<close> for the two-argument \<open>MAX\<close>, \<open>ON CONFLICT DO NOTHING\<close> for \<open>INSERT OR IGNORE\<close>). Each
  operation is one step here too; Postgres\_Sessions interleaves their statements. What the databases do differently is in the driver
  (\<open>dr_time\<close>, \<open>dr_skipped\<close>, \<open>dr_overflow\<close>), and both stores are the same function of it.
\<close>

section \<open>Setting up the schema\<close>

definition postgres_setup_schema :: "string \<Rightarrow> unit db_call" where
  "postgres_setup_schema migration d = execute_all (schema_statements migration) d"

section \<open>Shared steps of a transaction\<close>

definition postgres_load_usage :: "slot \<Rightarrow> counter_usage tx_step" where
  "postgres_load_usage s tx =
     tx_then (execute (select_counter s) tx) (\<lambda>row tx.
     (case row of
        None \<Rightarrow> Ok default_counter_usage
      | Some c \<Rightarrow> usage_from_i64 (ct_committed c) (ct_reserved c), tx))"

fun postgres_expire_rows :: "reservation_row list \<Rightarrow> unit tx_step" where
  "postgres_expire_rows [] tx = (Ok (), tx)"
| "postgres_expire_rows (row # rows) tx =
     tx_then (execute (release_reserved (rw_amount row) (rw_slot row)) tx) (\<lambda>_ tx.
     tx_then (execute (update_status (rw_id row) ''expired'') tx) (\<lambda>_ tx.
     postgres_expire_rows rows tx))"

definition postgres_cleanup_expired :: "sql_driver \<Rightarrow> datetime \<Rightarrow> unit tx_step" where
  "postgres_cleanup_expired dr now tx =
     tx_then (execute (select_active_expired dr now) tx) (\<lambda>expired tx. postgres_expire_rows expired tx)"

definition postgres_existing_idempotent_reservation ::
    "slot \<Rightarrow> string \<Rightarrow> store_reservation_result option tx_step" where
  "postgres_existing_idempotent_reservation s i tx =
     tx_then (execute (select_idempotent s i) tx) (\<lambda>row tx.
     case row of
       None \<Rightarrow> (Ok None, tx)
     | Some r \<Rightarrow>
         tx_then (postgres_load_usage s tx) (\<lambda>usage tx.
         (and_then (id_from_i64 (rw_id r)) (\<lambda>rid.
            Ok (Some (srr_allow (store_reservation_new rid (rw_expires_at r)) usage))), tx)))"

definition postgres_existing_from_pool ::
    "sql_driver \<Rightarrow> string \<Rightarrow> reserve_request \<Rightarrow> store_reservation_result option db_call" where
  "postgres_existing_from_pool dr store_key r d =
     (case rr_idempotency_key r of
        None \<Rightarrow> (Ok None, d)
      | Some i \<Rightarrow>
          db_then (tx_begin d) (\<lambda>tx _.
          or_drop (postgres_existing_idempotent_reservation (bind_slot dr store_key (rr_window r))
                     (idempotency_as_str i) tx) (\<lambda>result tx.
          commit_then (Ok result) tx)))"

section \<open>Reserving\<close>

text \<open>The answer to a failed insert: with an idempotency key, roll back and look again.\<close>

definition postgres_insert_failed ::
    "sql_driver \<Rightarrow> string \<Rightarrow> reserve_request \<Rightarrow> store_error \<Rightarrow> transaction \<Rightarrow>
     (store_reservation_result, store_error) outcome \<times> database" where
  "postgres_insert_failed dr store_key r e tx =
     (if rr_idempotency_key r \<noteq> None
      then
        db_then (tx_rollback tx) (\<lambda>_ d.
        db_then (postgres_existing_from_pool dr store_key r d) (\<lambda>found d.
        case found of Some result \<Rightarrow> (Ok result, d) | None \<Rightarrow> (Err e, d)))
      else (Err e, tx_drop tx))"

definition postgres_admit ::
    "sql_driver \<Rightarrow> string \<Rightarrow> int \<Rightarrow> int \<Rightarrow> datetime \<Rightarrow> reserve_request \<Rightarrow> transaction \<Rightarrow>
     (store_reservation_result, store_error) outcome \<times> database" where
  "postgres_admit dr store_key amount effective_limit expires_at r tx =
     (let s = bind_slot dr store_key (rr_window r) in
      or_drop (execute (insert_counter_if_absent s) tx) (\<lambda>_ tx.
      or_drop (execute (raise_reserved dr amount effective_limit s) tx) (\<lambda>rows_affected tx.
      if rows_affected = 0
      then or_drop (postgres_load_usage s tx) (\<lambda>usage tx. commit_then (Ok (srr_deny usage)) tx)
      else
        case execute (insert_reservation_row dr s amount expires_at
               (map_option idempotency_as_str (rr_idempotency_key r))) tx of
          (Ok row_id, tx) \<Rightarrow>
            or_drop (postgres_load_usage s tx) (\<lambda>usage tx.
            commit_then (and_then (id_from_i64 row_id) (\<lambda>rid.
              Ok (srr_allow (store_reservation_new rid expires_at) usage))) tx)
        | (Err e, tx) \<Rightarrow> postgres_insert_failed dr store_key r e tx
        | (Panic, tx) \<Rightarrow> (Panic, tx_drop tx))))"

definition postgres_reserve_if_allowed ::
    "('tz, 'more) chrono_scheme \<Rightarrow> sql_driver \<Rightarrow> reserve_request \<Rightarrow> store_reservation_result db_call" where
  "postgres_reserve_if_allowed lib dr r =
     attempt (reserve_request_validate r) (\<lambda>_.
     let store_key = codec_key (rr_key r) in
     attempt (to_i64 (rr_amount r) ''amount'') (\<lambda>amount.
     attempt (to_i64 (rr_effective_limit r) ''effective limit'') (\<lambda>effective_limit.
     attempt (or_panic (ch_add lib (rr_now r) (rr_reservation_ttl r))) (\<lambda>expires_at d.
     db_then (tx_begin d) (\<lambda>tx _.
     or_drop (postgres_cleanup_expired dr (rr_now r) tx) (\<lambda>_ tx.
     or_drop (case rr_idempotency_key r of
                None \<Rightarrow> (Ok None, tx)
              | Some i \<Rightarrow> postgres_existing_idempotent_reservation (bind_slot dr store_key (rr_window r))
                           (idempotency_as_str i) tx) (\<lambda>existing tx.
     case existing of
       Some result \<Rightarrow> commit_then (Ok result) tx
     | None \<Rightarrow> postgres_admit dr store_key amount effective_limit expires_at r tx)))))))"

section \<open>Committing, refunding, usage\<close>

datatype pg_finish_action = PgCommit | PgRefund

fun pg_finish_delta :: "pg_finish_action \<Rightarrow> int \<Rightarrow> int \<times> string" where
  "pg_finish_delta PgCommit amount = (amount, ''committed'')"
| "pg_finish_delta PgRefund amount = (0, ''refunded'')"

definition postgres_finish_active ::
    "int \<Rightarrow> pg_finish_action \<Rightarrow> datetime \<Rightarrow> reservation_row \<Rightarrow> transaction \<Rightarrow>
     (unit, store_error) outcome \<times> database" where
  "postgres_finish_active i action utc_now row tx =
     (if rw_expires_at row \<le> utc_now
      then
        or_drop (execute (release_reserved (rw_amount row) (rw_slot row)) tx) (\<lambda>_ tx.
        or_drop (execute (update_status i ''expired'') tx) (\<lambda>_ tx.
        commit_then (Err StReservationExpired) tx))
      else
        case pg_finish_delta action (rw_amount row) of (committed_delta, status) \<Rightarrow>
        or_drop (execute (settle_counter (rw_amount row) committed_delta (rw_slot row)) tx) (\<lambda>_ tx.
        or_drop (execute (update_status i status) tx) (\<lambda>_ tx.
        commit_then (Ok ()) tx)))"

definition postgres_finish_reservation ::
    "datetime \<Rightarrow> pg_finish_action \<Rightarrow> reservation_id \<Rightarrow> unit db_call" where
  "postgres_finish_reservation utc_now action rid =
     attempt (to_i64 (as_u64 rid) ''reservation id'') (\<lambda>i d.
     db_then (tx_begin d) (\<lambda>tx _.
     or_drop (execute (select_reservation i) tx) (\<lambda>found tx.
     case found of
       None \<Rightarrow> (Err StReservationNotFound, tx_drop tx)
     | Some row \<Rightarrow>
         if rw_status row = ''committed'' \<or> rw_status row = ''refunded''
         then commit_then (Ok ()) tx
         else if rw_status row = ''expired''
         then commit_then (Err StReservationExpired) tx
         else if rw_status row = ''active''
         then postgres_finish_active i action utc_now row tx
         else (Err (StOther ''unknown reservation status''), tx_drop tx))))"

definition postgres_commit :: "datetime \<Rightarrow> reservation_id \<Rightarrow> unit db_call" where
  "postgres_commit utc_now rid = postgres_finish_reservation utc_now PgCommit rid"

definition postgres_refund :: "datetime \<Rightarrow> reservation_id \<Rightarrow> unit db_call" where
  "postgres_refund utc_now rid = postgres_finish_reservation utc_now PgRefund rid"

definition postgres_usage ::
    "sql_driver \<Rightarrow> store_key \<Rightarrow> window_bounds \<Rightarrow> datetime \<Rightarrow> counter_usage db_call" where
  "postgres_usage dr k w now d =
     db_then (tx_begin d) (\<lambda>tx _.
     or_drop (postgres_cleanup_expired dr now tx) (\<lambda>_ tx.
     or_drop (postgres_load_usage (bind_slot dr (codec_key k) w) tx) (\<lambda>usage tx.
     commit_then (Ok usage) tx)))"

definition postgres_ops :: "('tz, 'more) chrono_scheme \<Rightarrow> sql_driver \<Rightarrow> database store_ops" where
  "postgres_ops lib dr =
     \<lparr>st_reserve_if_allowed = postgres_reserve_if_allowed lib dr, st_commit = postgres_commit,
      st_refund = postgres_refund, st_usage = postgres_usage dr\<rparr>"

section \<open>The same function of the driver\<close>

fun as_pg_action :: "finish_action \<Rightarrow> pg_finish_action" where
  "as_pg_action FinishCommit = PgCommit"
| "as_pg_action FinishRefund = PgRefund"

lemma pg_finish_delta_same: "pg_finish_delta (as_pg_action action) amount = finish_delta action amount"
  by (cases action) simp_all

lemma postgres_steps_same:
  "postgres_load_usage = sqlite_load_usage"
  "postgres_expire_rows = sqlite_expire_rows"
  "postgres_cleanup_expired = sqlite_cleanup_expired"
  "postgres_existing_idempotent_reservation = sqlite_existing_idempotent_reservation"
  "postgres_existing_from_pool = sqlite_existing_from_pool"
  "postgres_insert_failed = sqlite_insert_failed"
  "postgres_admit = sqlite_admit"
proof -
  show load: "postgres_load_usage = sqlite_load_usage"
    by (simp add: fun_eq_iff postgres_load_usage_def sqlite_load_usage_def)
  have "postgres_expire_rows rows = sqlite_expire_rows rows" for rows
  proof (induction rows)
    case (Cons row rows)
    show ?case by (rule ext) (simp only: postgres_expire_rows.simps sqlite_expire_rows.simps Cons.IH)
  qed (simp add: fun_eq_iff)
  then show rows: "postgres_expire_rows = sqlite_expire_rows" ..
  show "postgres_cleanup_expired = sqlite_cleanup_expired"
    by (simp add: fun_eq_iff postgres_cleanup_expired_def sqlite_cleanup_expired_def rows)
  show existing: "postgres_existing_idempotent_reservation = sqlite_existing_idempotent_reservation"
    unfolding fun_eq_iff postgres_existing_idempotent_reservation_def
      sqlite_existing_idempotent_reservation_def load by simp
  show pool: "postgres_existing_from_pool = sqlite_existing_from_pool"
    unfolding fun_eq_iff postgres_existing_from_pool_def sqlite_existing_from_pool_def existing by simp
  show failed: "postgres_insert_failed = sqlite_insert_failed"
    unfolding fun_eq_iff postgres_insert_failed_def sqlite_insert_failed_def pool by simp
  show "postgres_admit = sqlite_admit"
    unfolding fun_eq_iff postgres_admit_def sqlite_admit_def load failed by simp
qed

lemma postgres_finish_same:
  "postgres_finish_reservation utc_now (as_pg_action action) = sqlite_finish_reservation utc_now action"
proof -
  have active: "postgres_finish_active i (as_pg_action action) = sqlite_finish_active i action" for i
    by (simp add: fun_eq_iff postgres_finish_active_def sqlite_finish_active_def pg_finish_delta_same)
  show ?thesis
    by (rule ext)+ (simp only: postgres_finish_reservation_def sqlite_finish_reservation_def active)
qed

lemma postgres_reserve_same: "postgres_reserve_if_allowed = sqlite_reserve_if_allowed"
  unfolding fun_eq_iff postgres_reserve_if_allowed_def sqlite_reserve_if_allowed_def postgres_steps_same by simp

lemma postgres_ops_same: "postgres_ops lib dr = sqlite_ops lib dr"
proof -
  have "postgres_usage dr = sqlite_usage dr"
    unfolding fun_eq_iff postgres_usage_def sqlite_usage_def postgres_steps_same by simp
  moreover have "postgres_commit = sqlite_commit" "postgres_refund = sqlite_refund"
    using postgres_finish_same [of _ FinishCommit] postgres_finish_same [of _ FinishRefund]
    by (simp_all add: fun_eq_iff postgres_commit_def postgres_refund_def sqlite_commit_def sqlite_refund_def)
  ultimately show ?thesis by (simp add: postgres_ops_def sqlite_ops_def postgres_reserve_same)
qed

end
