(* ===== verification/Postgres_Sessions.thy ===== *)
theory Postgres_Sessions
  imports Postgres_Store Sql_Invariant
begin

text \<open>
  Many PostgreSQL sessions at once. \<open>store/postgres.rs\<close> runs its transactions at the default isolation
  level READ COMMITTED: a statement sees the rows committed so far and the writes of its own
  transaction; a row a transaction wrote or selected \<open>FOR UPDATE\<close> is locked until the transaction ends,
  and a statement that needs a locked row waits, then reads its newest version. Here every statement is a
  step of its own, and the statements of any number of sessions interleave in any order; a session may
  also stop at any point, as an error, a lost connection or a dropped future makes it do.
\<close>

section \<open>Writes\<close>

text \<open>
  A transaction is kept as the list of its writes; its view is the committed tables with these writes on
  top, which is what the locks make it: no other transaction commits a change to a row it wrote.
\<close>

datatype pg_write =
    WRelease int slot
  | WSettle int int slot
  | WStatus reservation_row string
  | WCounter slot
  | WRaise int slot
  | WInsert reservation_row

fun write_slot :: "pg_write \<Rightarrow> slot" where
  "write_slot (WRelease a s) = s"
| "write_slot (WSettle a d s) = s"
| "write_slot (WStatus r st) = rw_slot r"
| "write_slot (WCounter s) = s"
| "write_slot (WRaise a s) = s"
| "write_slot (WInsert r) = rw_slot r"

fun apply_write :: "pg_write \<Rightarrow> tables \<Rightarrow> tables" where
  "apply_write (WRelease a s) t = on_counters (\<lambda>c. c\<lparr>ct_reserved := max (ct_reserved c - a) 0\<rparr>) s t"
| "apply_write (WSettle a d s) t =
     on_counters (\<lambda>c. c\<lparr>ct_reserved := max (ct_reserved c - a) 0, ct_committed := ct_committed c + d\<rparr>) s t"
| "apply_write (WStatus q st) t =
     t\<lparr>tb_reservations :=
       map (\<lambda>r. if rw_id r = rw_id q \<and> rw_slot r = rw_slot q then r\<lparr>rw_status := st\<rparr> else r) (tb_reservations t)\<rparr>"
| "apply_write (WCounter s) t = t\<lparr>tb_counters := tb_counters t @ [\<lparr>ct_slot = s, ct_committed = 0, ct_reserved = 0\<rparr>]\<rparr>"
| "apply_write (WRaise a s) t = on_counters (\<lambda>c. c\<lparr>ct_reserved := ct_reserved c + a\<rparr>) s t"
| "apply_write (WInsert r) t = t\<lparr>tb_reservations := tb_reservations t @ [r]\<rparr>"

definition pg_view :: "tables \<Rightarrow> pg_write list \<Rightarrow> tables" where
  "pg_view t log = fold apply_write log t"

section \<open>Sessions\<close>

text \<open>What a transaction does after its cleanup, and the statement it issues next, with its local variables.\<close>

datatype pg_goal = ForReserve reserve_request datetime | ForUsage

datatype pg_phase =
    Idle
  | Selecting datetime pg_goal "reservation_row list"
  | Expiring "reservation_row list" pg_goal
  | Marking reservation_row "reservation_row list" pg_goal
  | LookingUp reserve_request datetime
  | Counting reserve_request datetime
  | Raising reserve_request datetime
  | Inserting reserve_request datetime
  | Fetching pg_finish_action datetime int
  | Releasing reservation_row
  | Settling pg_finish_action reservation_row
  | Ending reservation_row string
  | Closing

record pg_session =
  ss_phase :: pg_phase
  ss_log :: "pg_write list"
  ss_rows :: "int list"

definition idle_session :: pg_session where
  "idle_session = \<lparr>ss_phase = Idle, ss_log = [], ss_rows = []\<rparr>"

record pg =
  pg_tables :: tables
  pg_sessions :: "pg_session list"

text \<open>The locks of a session: the counters it wrote, and the reservations it selected for update.\<close>

definition locks_slot :: "pg_session \<Rightarrow> slot \<Rightarrow> bool" where
  "locks_slot ss s \<longleftrightarrow> list_ex (\<lambda>w. write_slot w = s) (ss_log ss)"

definition slot_free :: "pg_session list \<Rightarrow> slot \<Rightarrow> bool" where
  "slot_free others s \<longleftrightarrow> \<not> list_ex (\<lambda>ss. locks_slot ss s) others"

definition row_free :: "pg_session list \<Rightarrow> int \<Rightarrow> bool" where
  "row_free others i \<longleftrightarrow> \<not> list_ex (\<lambda>ss. i \<in> set (ss_rows ss)) others"

definition written :: "pg_write \<Rightarrow> pg_phase \<Rightarrow> pg_session \<Rightarrow> pg_session" where
  "written w phase ss = ss\<lparr>ss_phase := phase, ss_log := ss_log ss @ [w]\<rparr>"

definition key_of :: "reserve_request \<Rightarrow> string option" where
  "key_of r = map_option idempotency_as_str (rr_idempotency_key r)"

definition slot_of :: "sql_driver \<Rightarrow> reserve_request \<Rightarrow> slot" where
  "slot_of dr r = bind_slot dr (codec_key (rr_key r)) (rr_window r)"

section \<open>Statements\<close>

text \<open>
  One statement of a session, \<open>None\<close> while it waits for a lock. The cleanup: the rows found expired are
  locked one by one, in any order and each in its newest version, then expired one by one.
\<close>

definition pg_lock_expired :: "sql_driver \<Rightarrow> pg_session list \<Rightarrow> tables \<Rightarrow> int \<Rightarrow> pg_session \<Rightarrow> pg_session option" where
  "pg_lock_expired dr others t i ss =
     (case (ss_phase ss, reservation_find i t) of
        (Selecting now goal rows, Some r) \<Rightarrow>
          if rw_status r = ''active'' \<and> dr_not_after dr (rw_expires_at r) (dr_time dr now)
             \<and> row_free others i \<and> i \<notin> set (ss_rows ss)
          then Some (ss\<lparr>ss_phase := Selecting now goal (rows @ [r]), ss_rows := i # ss_rows ss\<rparr>) else None
      | _ \<Rightarrow> None)"

definition pg_cleanup_statement :: "pg_session list \<Rightarrow> pg_session \<Rightarrow> pg_session option" where
  "pg_cleanup_statement others ss =
     (case ss_phase ss of
        Selecting now goal rows \<Rightarrow> Some (ss\<lparr>ss_phase := Expiring rows goal\<rparr>)
      | Expiring (row # rows) goal \<Rightarrow>
          if slot_free others (rw_slot row)
          then Some (written (WRelease (rw_amount row) (rw_slot row)) (Marking row rows goal) ss) else None
      | Marking row rows goal \<Rightarrow> Some (written (WStatus row ''expired'') (Expiring rows goal) ss)
      | Expiring [] ForUsage \<Rightarrow> Some (ss\<lparr>ss_phase := Closing\<rparr>)
      | Expiring [] (ForReserve r expires_at) \<Rightarrow>
          Some (ss\<lparr>ss_phase := if rr_idempotency_key r = None then Counting r expires_at else LookingUp r expires_at\<rparr>)
      | _ \<Rightarrow> None)"

text \<open>
  The rest of a reserve. The sequence is not part of the transaction. A failed insert, and a sum outside
  the range of a \<open>BIGINT\<close>, roll back; what follows only reads.
\<close>

definition pg_reserve_statement ::
    "sql_driver \<Rightarrow> pg_session list \<Rightarrow> tables \<Rightarrow> pg_session \<Rightarrow> (tables \<times> pg_session) option" where
  "pg_reserve_statement dr others t ss =
     (let view = pg_view t (ss_log ss) in
      case ss_phase ss of
        LookingUp r expires_at \<Rightarrow>
          (case rr_idempotency_key r of
             None \<Rightarrow> Some (t, ss\<lparr>ss_phase := Counting r expires_at\<rparr>)
           | Some i \<Rightarrow>
               (case select_idempotent (slot_of dr r) (idempotency_as_str i) view of
                  Inr (Some row, _) \<Rightarrow> Some (t, ss\<lparr>ss_phase := Closing\<rparr>)
                | _ \<Rightarrow> Some (t, ss\<lparr>ss_phase := Counting r expires_at\<rparr>)))
      | Counting r expires_at \<Rightarrow>
          if counter_find (slot_of dr r) view \<noteq> None then Some (t, ss\<lparr>ss_phase := Raising r expires_at\<rparr>)
          else if slot_free others (slot_of dr r)
          then Some (t, written (WCounter (slot_of dr r)) (Raising r expires_at) ss) else None
      | Raising r expires_at \<Rightarrow>
          (case counter_find (slot_of dr r) view of
             None \<Rightarrow> Some (t, ss\<lparr>ss_phase := Closing\<rparr>)
           | Some c \<Rightarrow>
               if i64_max < ct_committed c + ct_reserved c + uint (rr_amount r) \<and> dr_overflow dr \<noteq> None
               then Some (t, idle_session\<lparr>ss_phase := Closing\<rparr>)
               else if ct_committed c + ct_reserved c + uint (rr_amount r) \<le> uint (rr_effective_limit r)
               then if slot_free others (slot_of dr r)
                 then Some (t, written (WRaise (uint (rr_amount r)) (slot_of dr r)) (Inserting r expires_at) ss)
                 else None
               else Some (t, ss\<lparr>ss_phase := Closing\<rparr>))
      | Inserting r expires_at \<Rightarrow>
          if i64_max < sequence_next dr t
             \<or> key_of r \<noteq> None \<and> list_ex (\<lambda>q. rw_slot q = slot_of dr r \<and> rw_idempotency_key q = key_of r) (tb_reservations view)
          then Some (t, idle_session\<lparr>ss_phase := Closing\<rparr>)
          else
            let n = sequence_next dr t;
                row = \<lparr>rw_id = n, rw_slot = slot_of dr r, rw_amount = uint (rr_amount r), rw_status = ''active'',
                       rw_expires_at = dr_time dr expires_at, rw_idempotency_key = key_of r\<rparr>
            in Some (t\<lparr>tb_sequence := n\<rparr>, written (WInsert row) Closing ss)
      | _ \<Rightarrow> None)"

text \<open>Commit and refund: the row is selected for update, so its status is the newest.\<close>

definition pg_finish_statement :: "pg_session list \<Rightarrow> tables \<Rightarrow> pg_session \<Rightarrow> pg_session option" where
  "pg_finish_statement others t ss =
     (case ss_phase ss of
        Fetching action utc_now i \<Rightarrow>
          (case reservation_find i t of
             None \<Rightarrow> Some idle_session
           | Some row \<Rightarrow>
               if row_free others i
               then Some (ss\<lparr>ss_rows := [i],
                 ss_phase := if rw_status row \<noteq> ''active'' then Closing
                   else if rw_expires_at row \<le> utc_now then Releasing row else Settling action row\<rparr>)
               else None)
      | Releasing row \<Rightarrow>
          if slot_free others (rw_slot row)
          then Some (written (WRelease (rw_amount row) (rw_slot row)) (Ending row ''expired'') ss) else None
      | Settling action row \<Rightarrow>
          (case pg_finish_delta action (rw_amount row) of (committed_delta, status) \<Rightarrow>
             if slot_free others (rw_slot row)
             then Some (written (WSettle (rw_amount row) committed_delta (rw_slot row)) (Ending row status) ss) else None)
      | Ending row status \<Rightarrow> Some (written (WStatus row status) Closing ss)
      | _ \<Rightarrow> None)"

section \<open>Moves\<close>

text \<open>An idle session begins an operation; a session issues its next statement, commits, or is aborted.\<close>

datatype pg_choice =
    BeginReserve reserve_request
  | BeginUsage datetime
  | BeginFinish pg_finish_action datetime reservation_id
  | LockRow int
  | Proceed
  | Abort

definition pg_begin :: "('tz, 'more) chrono_scheme \<Rightarrow> pg_choice \<Rightarrow> pg_session option" where
  "pg_begin lib choice =
     (case choice of
        BeginReserve r \<Rightarrow>
          (case (reserve_request_validate r, to_i64 (rr_amount r) ''amount'', to_i64 (rr_effective_limit r) ''effective limit'',
                 ch_add lib (rr_now r) (rr_reservation_ttl r)) of
             (Ok _, Ok _, Ok _, Some expires_at) \<Rightarrow> Some (idle_session\<lparr>ss_phase := Selecting (rr_now r) (ForReserve r expires_at) []\<rparr>)
           | _ \<Rightarrow> None)
      | BeginUsage now \<Rightarrow> Some (idle_session\<lparr>ss_phase := Selecting now ForUsage []\<rparr>)
      | BeginFinish action utc_now rid \<Rightarrow>
          (case to_i64 (as_u64 rid) ''reservation id'' of
             Ok i \<Rightarrow> Some (idle_session\<lparr>ss_phase := Fetching action utc_now i\<rparr>) | _ \<Rightarrow> None)
      | _ \<Rightarrow> None)"

definition pg_statement ::
    "sql_driver \<Rightarrow> pg_session list \<Rightarrow> tables \<Rightarrow> pg_session \<Rightarrow> (tables \<times> pg_session) option" where
  "pg_statement dr others t ss =
     (if ss_phase ss = Closing then Some (pg_view t (ss_log ss), idle_session)
      else
        case pg_cleanup_statement others ss of
          Some ss' \<Rightarrow> Some (t, ss')
        | None \<Rightarrow>
            case pg_finish_statement others t ss of
              Some ss' \<Rightarrow> Some (t, ss')
            | None \<Rightarrow> pg_reserve_statement dr others t ss)"

definition pg_move ::
    "('tz, 'more) chrono_scheme \<Rightarrow> sql_driver \<Rightarrow> nat \<times> pg_choice \<Rightarrow> pg \<Rightarrow> pg option" where
  "pg_move lib dr m g =
     (case m of (k, choice) \<Rightarrow>
      if length (pg_sessions g) \<le> k then None
      else
        let ss = pg_sessions g ! k;
            others = take k (pg_sessions g) @ drop (Suc k) (pg_sessions g);
            next = (\<lambda>t ss'. g\<lparr>pg_tables := t, pg_sessions := (pg_sessions g)[k := ss']\<rparr>)
        in case choice of
             Abort \<Rightarrow> Some (next (pg_tables g) idle_session)
           | LockRow i \<Rightarrow> map_option (next (pg_tables g)) (pg_lock_expired dr others (pg_tables g) i ss)
           | Proceed \<Rightarrow> map_option (\<lambda>(t, ss'). next t ss') (pg_statement dr others (pg_tables g) ss)
           | _ \<Rightarrow> if ss_phase ss = Idle then map_option (next (pg_tables g)) (pg_begin lib choice) else None)"

fun pg_moves :: "('tz, 'more) chrono_scheme \<Rightarrow> sql_driver \<Rightarrow> (nat \<times> pg_choice) list \<Rightarrow> pg \<Rightarrow> pg option" where
  "pg_moves lib dr [] g = Some g"
| "pg_moves lib dr (m # ms) g =
     (case pg_move lib dr m g of None \<Rightarrow> None | Some g' \<Rightarrow> pg_moves lib dr ms g')"

definition pg_start :: "nat \<Rightarrow> pg" where
  "pg_start n = \<lparr>pg_tables = empty_tables, pg_sessions = replicate n idle_session\<rparr>"

end
