(* ===== verification/Postgres_Interleaving.thy ===== *)
theory Postgres_Interleaving
  imports Postgres_Sessions
begin

text \<open>
  Every interleaving of the statements keeps the counters within their limits and equal to the units of
  their reservations. The proof goes slot by slot: the locks make a slot the business of one session at a
  time, so what another session commits never touches the rows a session is in the middle of changing.
\<close>

section \<open>Slices\<close>

text \<open>The rows of one counter: all that the writes to a slot read or change.\<close>

definition slice :: "slot \<Rightarrow> tables \<Rightarrow> counter_row list \<times> reservation_row list" where
  "slice s t = (filter (\<lambda>c. ct_slot c = s) (tb_counters t), filter (\<lambda>r. rw_slot r = s) (tb_reservations t))"

lemma filter_map_inside: "(\<And>x. P (g x) = P x) \<Longrightarrow> filter P (map g xs) = map g (filter P xs)"
  by (induction xs) simp_all

lemma filter_map_outside: "(\<And>x. P (g x) = P x) \<Longrightarrow> (\<And>x. P x \<Longrightarrow> g x = x) \<Longrightarrow> filter P (map g xs) = filter P xs"
  by (induction xs) simp_all

lemma slice_other: "write_slot w \<noteq> s \<Longrightarrow> slice s (apply_write w t) = slice s t"
  by (cases w) (auto simp: slice_def on_counters_def intro!: filter_map_outside)

lemma slice_cong:
  assumes "slice s t = slice s t'"
  shows "slice s (apply_write w t) = slice s (apply_write w t')"
proof -
  have counters: "filter (\<lambda>c. ct_slot c = s) (map (\<lambda>c. if ct_slot c = s' then f c else c) xs) =
      map (\<lambda>c. if ct_slot c = s' then f c else c) (filter (\<lambda>c. ct_slot c = s) xs)"
    if "\<And>c. ct_slot (f c) = ct_slot c" for f :: "counter_row \<Rightarrow> counter_row" and s' xs
    by (rule filter_map_inside) (simp add: that)
  have rows: "filter (\<lambda>r. rw_slot r = s) (map (\<lambda>r. if rw_id r = rw_id q \<and> rw_slot r = rw_slot q then r\<lparr>rw_status := st\<rparr> else r) xs) =
      map (\<lambda>r. if rw_id r = rw_id q \<and> rw_slot r = rw_slot q then r\<lparr>rw_status := st\<rparr> else r) (filter (\<lambda>r. rw_slot r = s) xs)"
    for q st and xs :: "reservation_row list"
    by (rule filter_map_inside) simp
  have "filter (\<lambda>c. ct_slot c = s) (tb_counters t) = filter (\<lambda>c. ct_slot c = s) (tb_counters t')"
    "filter (\<lambda>r. rw_slot r = s) (tb_reservations t) = filter (\<lambda>r. rw_slot r = s) (tb_reservations t')"
    using assms by (simp_all add: slice_def)
  then show ?thesis
    by (cases w) (simp_all add: slice_def on_counters_def counters rows del: filter.simps)
qed

lemma slice_view_cong: "slice s t = slice s t' \<Longrightarrow> slice s (pg_view t log) = slice s (pg_view t' log)"
proof (induction log arbitrary: t t')
  case (Cons w log)
  from Cons.IH [OF slice_cong [OF Cons.prems]] show ?case by (simp only: pg_view_def fold_simps)
qed (simp only: pg_view_def fold_simps)

lemma slice_view_other: "\<not> list_ex (\<lambda>w. write_slot w = s) log \<Longrightarrow> slice s (pg_view t log) = slice s t"
  by (induction log arbitrary: t) (simp_all add: pg_view_def slice_other)

lemma slice_sequence [simp]: "slice s (t\<lparr>tb_sequence := n\<rparr>) = slice s t"
  by (simp add: slice_def)

lemma pg_view_append: "pg_view t (log @ [w]) = apply_write w (pg_view t log)"
  by (simp add: pg_view_def)

lemma pg_view_Nil [simp]: "pg_view t [] = t"
  by (simp add: pg_view_def)

section \<open>What a slot holds\<close>

text \<open>
  A counter holds the units of its active and of its committed reservations up to what a transaction has
  pending, and no more than its limit.
\<close>

definition slot_held :: "int \<Rightarrow> int \<Rightarrow> int \<Rightarrow> slot \<Rightarrow> tables \<Rightarrow> bool" where
  "slot_held limit pending pending_committed s t \<longleftrightarrow>
     length (filter (\<lambda>c. ct_slot c = s) (tb_counters t)) \<le> 1
   \<and> distinct (map rw_id (filter (\<lambda>r. rw_slot r = s) (tb_reservations t)))
   \<and> list_all (\<lambda>r. rw_slot r = s \<longrightarrow> 0 < rw_amount r) (tb_reservations t)
   \<and> reserved_of s t = units_with ''active'' s t + pending
   \<and> committed_of s t = units_with ''committed'' s t + pending_committed
   \<and> committed_of s t + reserved_of s t \<le> limit"

lemma find_filter: "find P xs = (case filter P xs of [] \<Rightarrow> None | x # _ \<Rightarrow> Some x)"
  by (induction xs) simp_all

lemma units_slice:
  "units_with st s t = sum_list (map (\<lambda>r. if rw_status r = st then rw_amount r else 0) (snd (slice s t)))"
proof -
  have "sum_list (map (\<lambda>r. if rw_slot r = s \<and> rw_status r = st then rw_amount r else 0) rows)
      = sum_list (map (\<lambda>r. if rw_status r = st then rw_amount r else 0) (filter (\<lambda>r. rw_slot r = s) rows))" for rows
    by (induction rows) simp_all
  then show ?thesis by (simp add: units_with_def slice_def)
qed

lemma slice_reads:
  assumes "slice s t = slice s t'"
  shows "counter_find s t = counter_find s t'" "reserved_of s t = reserved_of s t'"
    "committed_of s t = committed_of s t'" "units_with st s t = units_with st s t'"
proof -
  show find: "counter_find s t = counter_find s t'"
    using assms by (simp add: counter_find_def find_filter slice_def)
  then show "reserved_of s t = reserved_of s t'" "committed_of s t = committed_of s t'"
    by (simp_all add: reserved_of_def committed_of_def)
  show "units_with st s t = units_with st s t'" using assms by (simp add: units_slice)
qed

lemma slot_held_slice: "slice s t = slice s t' \<Longrightarrow> slot_held l p c s t = slot_held l p c s t'"
proof -
  assume same: "slice s t = slice s t'"
  have "list_all (\<lambda>r. rw_slot r = s \<longrightarrow> 0 < rw_amount r) rows
      = list_all (\<lambda>r. 0 < rw_amount r) (filter (\<lambda>r. rw_slot r = s) rows)" for rows :: "reservation_row list"
    by (induction rows) auto
  with same slice_reads [OF same] show ?thesis
    by (simp add: slot_held_def) (simp add: slice_def)
qed

section \<open>Effects of the writes\<close>

lemma held_on_counters:
  assumes "slot_held l p d s t" "\<And>c. ct_slot (f c) = ct_slot c" "counter_find s t = Some c"
    and "ct_reserved (f c) = ct_reserved c + x" "ct_committed (f c) = ct_committed c + y"
    and "committed_of s t + reserved_of s t + x + y \<le> l"
  shows "slot_held l (p + x) (d + y) s (on_counters f s t)"
proof -
  have "filter (\<lambda>c. ct_slot c = s) (tb_counters (on_counters f s t)) =
      map (\<lambda>c. if ct_slot c = s then f c else c) (filter (\<lambda>c. ct_slot c = s) (tb_counters t))"
    unfolding on_counters_def by (simp add: filter_map_inside assms(2))
  moreover have "reserved_of s (on_counters f s t) = reserved_of s t + x"
    "committed_of s (on_counters f s t) = committed_of s t + y"
    using assms(2-5) by (simp_all add: reserved_of_def committed_of_def counter_find_on_counters)
  ultimately show ?thesis using assms(1,6) by (simp add: slot_held_def)
qed

lemma held_amount_le:
  assumes "slot_held l p d s t" "q \<in> set (tb_reservations t)" "rw_slot q = s"
  shows "0 < rw_amount q \<and> rw_amount q \<le> units_with (rw_status q) s t"
proof -
  have pos: "\<forall>r \<in> set (tb_reservations t). rw_slot r = s \<longrightarrow> 0 < rw_amount r"
    using assms(1) by (simp add: slot_held_def list_all_iff)
  have "rw_amount q \<le> sum_list (map (\<lambda>r. if rw_slot r = s \<and> rw_status r = rw_status q then rw_amount r else 0) rows)"
    if "q \<in> set rows" "\<forall>r \<in> set rows. rw_slot r = s \<longrightarrow> 0 < rw_amount r" for rows
    using that
  proof (induction rows)
    case (Cons r rows)
    then have "0 \<le> sum_list (map (\<lambda>r. if rw_slot r = s \<and> rw_status r = rw_status q then rw_amount r else 0) rows)"
      by (intro sum_list_nonneg) auto
    with Cons assms(3) show ?case by fastforce
  qed simp
  with pos assms(2,3) show ?thesis by (simp add: units_with_def)
qed

lemma held_settle:
  assumes "slot_held l 0 0 s t" "q \<in> set (tb_reservations t)" "rw_slot q = s" "rw_status q = ''active''"
    and "d = 0 \<or> d = rw_amount q"
  shows "slot_held l (- rw_amount q) d s (apply_write (WSettle (rw_amount q) d s) t)"
    and "d = 0 \<Longrightarrow> slot_held l (- rw_amount q) 0 s (apply_write (WRelease (rw_amount q) s) t)"
proof -
  have a: "0 < rw_amount q" "rw_amount q \<le> reserved_of s t"
    using held_amount_le [OF assms(1-3)] assms(1,4) by (simp_all add: slot_held_def)
  then obtain c where c: "counter_find s t = Some c" "rw_amount q \<le> ct_reserved c"
    by (auto simp: reserved_of_def split: option.splits)
  have l: "committed_of s t + reserved_of s t \<le> l" using assms(1) by (simp add: slot_held_def)
  show "slot_held l (- rw_amount q) d s (apply_write (WSettle (rw_amount q) d s) t)"
    using held_on_counters [OF assms(1) _ c(1), of
        "\<lambda>c. c\<lparr>ct_reserved := max (ct_reserved c - rw_amount q) 0, ct_committed := ct_committed c + d\<rparr>" "- rw_amount q" d]
      assms(5) a c(2) l by auto
  show "slot_held l (- rw_amount q) 0 s (apply_write (WRelease (rw_amount q) s) t)"
    using held_on_counters [OF assms(1) _ c(1), of "\<lambda>c. c\<lparr>ct_reserved := max (ct_reserved c - rw_amount q) 0\<rparr>" "- rw_amount q" 0]
      a c(2) l by simp
qed

lemma units_status:
  assumes "distinct (map rw_id (filter (\<lambda>r. rw_slot r = s) rows))" "q \<in> set rows" "rw_slot q = s"
  shows "sum_list (map (\<lambda>r. if rw_slot r = s \<and> rw_status r = x then rw_amount r else 0)
      (map (\<lambda>r. if rw_id r = rw_id q \<and> rw_slot r = rw_slot q then r\<lparr>rw_status := st\<rparr> else r) rows))
    = sum_list (map (\<lambda>r. if rw_slot r = s \<and> rw_status r = x then rw_amount r else 0) rows)
      - (if rw_status q = x then rw_amount q else 0) + (if st = x then rw_amount q else (0 :: int))"
  using assms
proof (induction rows)
  case (Cons r rows)
  show ?case
  proof (cases "r = q")
    case True
    have "map (\<lambda>r. if rw_id r = rw_id q \<and> rw_slot r = rw_slot q then r\<lparr>rw_status := st\<rparr> else r) rows = rows"
      using Cons.prems True by (intro map_idI) (force simp: image_iff)
    with True Cons.prems show ?thesis by simp
  next
    case False
    then have "\<not> (rw_id r = rw_id q \<and> rw_slot r = rw_slot q)" using Cons.prems by (auto simp: image_iff)
    moreover have "distinct (map rw_id (filter (\<lambda>r. rw_slot r = s) rows))" using Cons.prems(1) by (simp split: if_splits)
    ultimately show ?thesis using Cons False by simp blast
  qed
qed simp

lemma held_status:
  assumes "slot_held l (- rw_amount q) (if st = ''committed'' then rw_amount q else 0) s t"
    and "q \<in> set (tb_reservations t)" "rw_slot q = s" "rw_status q = ''active''" "st \<noteq> ''active''"
  shows "slot_held l 0 0 s (apply_write (WStatus q st) t)"
proof -
  let ?f = "\<lambda>r. if rw_id r = rw_id q \<and> rw_slot r = rw_slot q then r\<lparr>rw_status := st\<rparr> else r"
  have d: "distinct (map rw_id (filter (\<lambda>r. rw_slot r = s) (tb_reservations t)))" using assms(1) by (simp add: slot_held_def)
  have rows: "filter (\<lambda>r. rw_slot r = s) (map ?f (tb_reservations t)) = map ?f (filter (\<lambda>r. rw_slot r = s) (tb_reservations t))"
    by (rule filter_map_inside) simp
  have ids: "map rw_id (map ?f xs) = map rw_id xs" for xs by (induction xs) simp_all
  have changed: "tb_reservations (apply_write (WStatus q st) t) = map ?f (tb_reservations t)" by simp
  have reads: "reserved_of s (apply_write (WStatus q st) t) = reserved_of s t"
    "committed_of s (apply_write (WStatus q st) t) = committed_of s t"
    by (simp_all add: reserved_of_def committed_of_def counter_find_def)
  have "units_with x s (apply_write (WStatus q st) t) =
      units_with x s t - (if rw_status q = x then rw_amount q else 0) + (if st = x then rw_amount q else 0)" for x
    using units_status [OF d assms(2,3), of x st] by (simp add: units_with_def)
  note units = this
  show ?thesis
    unfolding slot_held_def
  proof (intro conjI)
    show "distinct (map rw_id (filter (\<lambda>r. rw_slot r = s) (tb_reservations (apply_write (WStatus q st) t))))"
      unfolding changed rows ids by (rule d)
    show "list_all (\<lambda>r. rw_slot r = s \<longrightarrow> 0 < rw_amount r) (tb_reservations (apply_write (WStatus q st) t))"
      using assms(1) by (auto simp: slot_held_def list_all_iff)
  qed (use assms reads units in \<open>simp_all add: slot_held_def\<close>)
qed

lemma held_counter:
  assumes "slot_held l 0 0 s t" "counter_find s t = None"
  shows "slot_held l 0 0 s (apply_write (WCounter s) t)"
proof -
  have "filter (\<lambda>c. ct_slot c = s) (tb_counters t) = []"
    using assms(2) by (simp add: counter_find_def find_None_iff filter_empty_conv)
  moreover have "reserved_of s (apply_write (WCounter s) t) = reserved_of s t"
    "committed_of s (apply_write (WCounter s) t) = committed_of s t"
    using assms(2) by (simp_all add: reserved_of_def committed_of_def counter_find_def find_append)
  ultimately show ?thesis using assms(1) by (simp add: slot_held_def units_with_def)
qed

lemma held_raise:
  assumes "slot_held l 0 0 s t" "counter_find s t = Some c" "ct_committed c + ct_reserved c + a \<le> l"
  shows "slot_held l a 0 s (apply_write (WRaise a s) t)"
  using held_on_counters [OF assms(1) _ assms(2), of "\<lambda>c. c\<lparr>ct_reserved := ct_reserved c + a\<rparr>" a 0] assms(2,3)
  by (simp add: reserved_of_def committed_of_def)

lemma slot_held_insert:
  assumes "slot_held l (rw_amount r) 0 s t" "rw_slot r = s" "rw_status r = ''active''" "0 < rw_amount r"
    and "rw_id r \<notin> rw_id ` set (tb_reservations t)"
  shows "slot_held l 0 0 s (apply_write (WInsert r) t)"
  using assms
  by (auto simp: slot_held_def reserved_of_def committed_of_def counter_find_def units_with_def)

section \<open>Writes and rows\<close>

fun status_rows :: "pg_write list \<Rightarrow> (int \<times> slot) set" where
  "status_rows [] = {}"
| "status_rows (WStatus q st # ws) = insert (rw_id q, rw_slot q) (status_rows ws)"
| "status_rows (_ # ws) = status_rows ws"

lemma status_rows_append [simp]: "status_rows (xs @ ys) = status_rows xs \<union> status_rows ys"
  by (induction xs rule: status_rows.induct) auto

text \<open>A row stays as it is under writes that do not set its status, and identifiers stay below the sequence.\<close>

lemma row_kept:
  assumes "q \<in> set (tb_reservations t)" "(rw_id q, rw_slot q) \<notin> status_rows log"
  shows "q \<in> set (tb_reservations (pg_view t log))"
  using assms
proof (induction log arbitrary: t)
  case (Cons w log)
  have "(rw_id q, rw_slot q) \<notin> status_rows log" using Cons.prems(2) by (cases w) auto
  moreover have "q \<in> set (tb_reservations (apply_write w t))"
    using Cons.prems by (cases w) (auto simp: image_iff)
  ultimately show ?case using Cons.IH [of "apply_write w t"] by (simp add: pg_view_def)
qed simp

fun inserted_below :: "int \<Rightarrow> pg_write \<Rightarrow> bool" where
  "inserted_below n (WInsert r) \<longleftrightarrow> rw_id r \<le> n"
| "inserted_below n _ \<longleftrightarrow> True"

definition rows_below :: "int \<Rightarrow> tables \<Rightarrow> bool" where
  "rows_below n t \<longleftrightarrow> list_all (\<lambda>r. rw_id r \<le> n) (tb_reservations t)"

lemma view_below:
  "rows_below n t \<Longrightarrow> list_all (inserted_below n) log \<Longrightarrow> rows_below n (pg_view t log)"
proof (induction log arbitrary: t)
  case (Cons w log)
  then have "rows_below n (apply_write w t)" by (cases w) (auto simp: rows_below_def list_all_iff)
  with Cons show ?case by (simp add: pg_view_def)
qed simp

lemma view_sequence [simp]: "tb_sequence (pg_view t log) = tb_sequence t"
proof (induction log arbitrary: t)
  case (Cons w log)
  have "tb_sequence (apply_write w t) = tb_sequence t" by (cases w) simp_all
  with Cons [of "apply_write w t"] show ?case by (simp add: pg_view_def)
qed simp

section \<open>The invariant of a session\<close>

text \<open>What a transaction has released or taken from a counter before the rows say so.\<close>

fun pending :: "sql_driver \<Rightarrow> pg_phase \<Rightarrow> slot \<Rightarrow> int \<times> int" where
  "pending dr (Marking q qs goal) s = (if rw_slot q = s then (- rw_amount q, 0) else (0, 0))"
| "pending dr (Ending q st) s =
     (if rw_slot q = s then (- rw_amount q, if st = ''committed'' then rw_amount q else 0) else (0, 0))"
| "pending dr (Inserting r e) s = (if slot_of dr r = s then (uint (rr_amount r), 0) else (0, 0))"
| "pending dr _ s = (0, 0)"

text \<open>The rows a transaction has selected and not yet dealt with, and the request it serves.\<close>

fun due_rows :: "pg_phase \<Rightarrow> reservation_row list" where
  "due_rows (Selecting now goal qs) = qs"
| "due_rows (Expiring qs goal) = qs"
| "due_rows (Marking q qs goal) = q # qs"
| "due_rows (Releasing q) = [q]"
| "due_rows (Settling action q) = [q]"
| "due_rows (Ending q st) = [q]"
| "due_rows _ = []"

fun goal_request :: "pg_goal \<Rightarrow> reserve_request option" where
  "goal_request (ForReserve r e) = Some r"
| "goal_request ForUsage = None"

fun phase_request :: "pg_phase \<Rightarrow> reserve_request option" where
  "phase_request (Selecting now goal qs) = goal_request goal"
| "phase_request (Expiring qs goal) = goal_request goal"
| "phase_request (Marking q qs goal) = goal_request goal"
| "phase_request (LookingUp r e) = Some r"
| "phase_request (Counting r e) = Some r"
| "phase_request (Raising r e) = Some r"
| "phase_request (Inserting r e) = Some r"
| "phase_request _ = None"

fun before_writes :: "pg_phase \<Rightarrow> bool" where
  "before_writes Idle \<longleftrightarrow> True"
| "before_writes (Selecting now goal qs) \<longleftrightarrow> True"
| "before_writes (Fetching action now i) \<longleftrightarrow> True"
| "before_writes _ \<longleftrightarrow> False"

fun ending_ok :: "pg_phase \<Rightarrow> bool" where
  "ending_ok (Ending q st) \<longleftrightarrow> st \<noteq> ''active''"
| "ending_ok _ \<longleftrightarrow> True"

definition request_within :: "(slot \<Rightarrow> int) \<Rightarrow> sql_driver \<Rightarrow> reserve_request \<Rightarrow> bool" where
  "request_within limit dr r \<longleftrightarrow> uint (rr_effective_limit r) \<le> limit (slot_of dr r)"

definition session_ok :: "(slot \<Rightarrow> int) \<Rightarrow> sql_driver \<Rightarrow> tables \<Rightarrow> pg_session \<Rightarrow> bool" where
  "session_ok limit dr t ss \<longleftrightarrow>
     (\<forall>s. slot_held (limit s) (fst (pending dr (ss_phase ss) s)) (snd (pending dr (ss_phase ss) s)) s (pg_view t (ss_log ss)))
   \<and> (\<forall>s. pending dr (ss_phase ss) s \<noteq> (0, 0) \<longrightarrow> locks_slot ss s)
   \<and> (\<forall>q \<in> set (due_rows (ss_phase ss)). q \<in> set (tb_reservations t) \<and> rw_status q = ''active''
        \<and> rw_id q \<in> set (ss_rows ss) \<and> (rw_id q, rw_slot q) \<notin> status_rows (ss_log ss))
   \<and> distinct (map (\<lambda>q. (rw_id q, rw_slot q)) (due_rows (ss_phase ss)))
   \<and> fst ` status_rows (ss_log ss) \<subseteq> set (ss_rows ss)
   \<and> (\<forall>r. phase_request (ss_phase ss) = Some r \<longrightarrow> request_within limit dr r \<and> rr_amount r \<noteq> 0)
   \<and> (before_writes (ss_phase ss) \<longrightarrow> ss_log ss = [])
   \<and> ending_ok (ss_phase ss)
   \<and> list_all (inserted_below (tb_sequence t)) (ss_log ss)"

lemma session_okD:
  assumes "session_ok limit dr t ss"
  shows "slot_held (limit s) (fst (pending dr (ss_phase ss) s)) (snd (pending dr (ss_phase ss) s)) s (pg_view t (ss_log ss))"
    and "pending dr (ss_phase ss) s \<noteq> (0, 0) \<Longrightarrow> locks_slot ss s"
    and "q \<in> set (due_rows (ss_phase ss)) \<Longrightarrow> q \<in> set (tb_reservations t) \<and> rw_status q = ''active''
        \<and> rw_id q \<in> set (ss_rows ss) \<and> (rw_id q, rw_slot q) \<notin> status_rows (ss_log ss)"
    and "distinct (map (\<lambda>q. (rw_id q, rw_slot q)) (due_rows (ss_phase ss)))"
    and "fst ` status_rows (ss_log ss) \<subseteq> set (ss_rows ss)"
    and "phase_request (ss_phase ss) = Some r \<Longrightarrow> request_within limit dr r \<and> rr_amount r \<noteq> 0"
    and "before_writes (ss_phase ss) \<Longrightarrow> ss_log ss = []" "ending_ok (ss_phase ss)"
    and "list_all (inserted_below (tb_sequence t)) (ss_log ss)"
  using assms unfolding session_ok_def by blast+

lemma session_ok_idle: "(\<And>s. slot_held (limit s) 0 0 s t) \<Longrightarrow> session_ok limit dr t idle_session"
  by (simp add: session_ok_def idle_session_def)

lemma session_ok_sequence:
  assumes "session_ok limit dr t ss" "tb_sequence t \<le> n"
  shows "session_ok limit dr (t\<lparr>tb_sequence := n\<rparr>) ss"
proof -
  have "slice s (pg_view (t\<lparr>tb_sequence := n\<rparr>) log) = slice s (pg_view t log)" for s log
    by (rule slice_view_cong) simp
  note same = slot_held_slice [OF this]
  have "list_all (inserted_below n) (ss_log ss)"
    using session_okD(9) [OF assms(1)] assms(2)
    by (auto simp: list_all_iff elim!: inserted_below.elims intro: order_trans)
  then show ?thesis using session_okD [OF assms(1)] by (simp add: session_ok_def same)
qed

text \<open>What another session commits leaves a session as it was.\<close>

lemma session_ok_commit:
  assumes "session_ok limit dr t ss" "\<And>s. slot_held (limit s) 0 0 s (pg_view t log)"
    and "\<And>s. locks_slot ss s \<Longrightarrow> \<not> list_ex (\<lambda>w. write_slot w = s) log"
    and "fst ` status_rows log \<inter> set (ss_rows ss) = {}"
  shows "session_ok limit dr (pg_view t log) ss"
proof -
  note ok = session_okD [OF assms(1)]
  have "slot_held (limit s) (fst (pending dr (ss_phase ss) s)) (snd (pending dr (ss_phase ss) s)) s (pg_view (pg_view t log) (ss_log ss))" for s
  proof (cases "locks_slot ss s")
    case True
    then have same: "slice s (pg_view (pg_view t log) (ss_log ss)) = slice s (pg_view t (ss_log ss))"
      by (intro slice_view_cong slice_view_other assms(3))
    show ?thesis unfolding slot_held_slice [OF same] by (rule ok(1))
  next
    case False
    then have same: "slice s (pg_view (pg_view t log) (ss_log ss)) = slice s (pg_view t log)"
      by (intro slice_view_other) (simp add: locks_slot_def)
    have "pending dr (ss_phase ss) s = (0, 0)" using ok(2) False by blast
    then show ?thesis unfolding slot_held_slice [OF same] using assms(2) [of s] by simp
  qed
  moreover have "q \<in> set (tb_reservations (pg_view t log))" if "q \<in> set (due_rows (ss_phase ss))" for q
  proof (rule row_kept)
    show "(rw_id q, rw_slot q) \<notin> status_rows log"
    proof
      assume "(rw_id q, rw_slot q) \<in> status_rows log"
      then have "rw_id q \<in> fst ` status_rows log" by force
      with ok(3) [OF that] assms(4) show False by blast
    qed
  qed (use ok(3) [OF that] in blast)
  ultimately show ?thesis
    unfolding session_ok_def view_sequence using ok by blast
qed

section \<open>Statements keep the invariant\<close>

definition advances ::
    "(slot \<Rightarrow> int) \<Rightarrow> sql_driver \<Rightarrow> pg_session list \<Rightarrow> tables \<Rightarrow> pg_session \<Rightarrow> pg_session \<Rightarrow> bool" where
  "advances limit dr others t ss ss' \<longleftrightarrow>
     session_ok limit dr t ss'
   \<and> (\<forall>s. locks_slot ss' s \<longrightarrow> locks_slot ss s \<or> slot_free others s)
   \<and> (\<forall>i \<in> set (ss_rows ss'). i \<in> set (ss_rows ss) \<or> row_free others i)"

lemma locks_written [simp]: "locks_slot (written w phase ss) s \<longleftrightarrow> locks_slot ss s \<or> write_slot w = s"
  by (auto simp: locks_slot_def written_def)

lemma written_simps [simp]:
  "ss_phase (written w phase ss) = phase" "ss_log (written w phase ss) = ss_log ss @ [w]"
  "ss_rows (written w phase ss) = ss_rows ss"
  by (simp_all add: written_def)

text \<open>A statement that writes: only the slot it writes to changes.\<close>

lemma write_held:
  assumes "\<And>s. slot_held (limit s) (fst (p s)) (snd (p s)) s v"
    and "slot_held (limit (write_slot w)) (fst (p' (write_slot w))) (snd (p' (write_slot w))) (write_slot w) (apply_write w v)"
    and "\<And>s. s \<noteq> write_slot w \<Longrightarrow> p' s = p s"
  shows "slot_held (limit s) (fst (p' s)) (snd (p' s)) s (apply_write w v)"
proof (cases "s = write_slot w")
  case False
  then show ?thesis
    using assms(1) [of s] assms(3) [OF False] slot_held_slice [OF slice_other, of w s] by simp
qed (use assms(2) in simp)

lemma due_in_view:
  "session_ok limit dr t ss \<Longrightarrow> q \<in> set (due_rows (ss_phase ss)) \<Longrightarrow>
     q \<in> set (tb_reservations (pg_view t (ss_log ss))) \<and> rw_status q = ''active''"
  using session_okD(3) row_kept by blast

text \<open>A statement that only reads or locks rows.\<close>

lemma advances_quiet:
  assumes "session_ok limit dr t ss" "ss_log ss' = ss_log ss" "set (ss_rows ss) \<subseteq> set (ss_rows ss')"
    and "\<And>i. i \<in> set (ss_rows ss') \<Longrightarrow> i \<in> set (ss_rows ss) \<or> row_free others i"
    and "\<And>s. pending dr (ss_phase ss') s = pending dr (ss_phase ss) s"
    and "\<And>q. q \<in> set (due_rows (ss_phase ss')) \<Longrightarrow> q \<in> set (tb_reservations t) \<and> rw_status q = ''active''
        \<and> rw_id q \<in> set (ss_rows ss') \<and> (rw_id q, rw_slot q) \<notin> status_rows (ss_log ss)"
    and "distinct (map (\<lambda>q. (rw_id q, rw_slot q)) (due_rows (ss_phase ss')))"
    and "\<And>r. phase_request (ss_phase ss') = Some r \<Longrightarrow> phase_request (ss_phase ss) = Some r"
    and "before_writes (ss_phase ss') \<Longrightarrow> ss_log ss = []" "ending_ok (ss_phase ss')"
  shows "advances limit dr others t ss ss'"
proof -
  note ok = session_okD [OF assms(1)]
  have "session_ok limit dr t ss'"
    unfolding session_ok_def assms(2,5)
    using ok assms(3,6-10) by (auto simp: locks_slot_def assms(2))
  with assms(2,4) show ?thesis by (auto simp: advances_def locks_slot_def)
qed

text \<open>A statement that writes.\<close>

lemma advances_write:
  assumes "session_ok limit dr t ss" "slot_free others (write_slot w) \<or> locks_slot ss (write_slot w)"
    and "slot_held (limit (write_slot w)) (fst (pending dr phase (write_slot w))) (snd (pending dr phase (write_slot w)))
        (write_slot w) (apply_write w (pg_view t (ss_log ss)))"
    and "\<And>s. s \<noteq> write_slot w \<Longrightarrow> pending dr phase s = pending dr (ss_phase ss) s"
    and "\<And>q. q \<in> set (due_rows phase) \<Longrightarrow> q \<in> set (due_rows (ss_phase ss)) \<and> (rw_id q, rw_slot q) \<notin> status_rows [w]"
    and "distinct (map (\<lambda>q. (rw_id q, rw_slot q)) (due_rows phase))"
    and "\<And>r. phase_request phase = Some r \<Longrightarrow> phase_request (ss_phase ss) = Some r"
    and "\<not> before_writes phase" "ending_ok phase" "fst ` status_rows [w] \<subseteq> set (ss_rows ss)"
    and "inserted_below (tb_sequence t) w"
  shows "advances limit dr others t ss (written w phase ss)"
proof -
  note ok = session_okD [OF assms(1)]
  have "slot_held (limit s) (fst (pending dr phase s)) (snd (pending dr phase s)) s (pg_view t (ss_log ss @ [w]))" for s
    unfolding pg_view_append by (rule write_held [OF ok(1) assms(3,4)])
  moreover have "locks_slot (written w phase ss) s" if "pending dr phase s \<noteq> (0, 0)" for s
    using that assms(4) ok(2) by (cases "s = write_slot w") auto
  moreover have "q \<in> set (tb_reservations t) \<and> rw_status q = ''active'' \<and> rw_id q \<in> set (ss_rows ss)
      \<and> (rw_id q, rw_slot q) \<notin> status_rows (ss_log ss @ [w])" if "q \<in> set (due_rows phase)" for q
    using ok(3) assms(5) [OF that] by (auto simp del: status_rows.simps)
  ultimately have "session_ok limit dr t (written w phase ss)"
    using ok assms(6-11) unfolding session_ok_def by (simp del: status_rows.simps) blast
  with assms(2) show ?thesis by (auto simp: advances_def)
qed

lemma lock_expired_advances:
  assumes "pg_lock_expired dr others t i ss = Some ss'" "session_ok limit dr t ss"
  shows "advances limit dr others t ss ss'"
proof -
  obtain now goal rows r where sel: "ss_phase ss = Selecting now goal rows" "reservation_find i t = Some r"
    and ss': "ss' = ss\<lparr>ss_phase := Selecting now goal (rows @ [r]), ss_rows := i # ss_rows ss\<rparr>" "row_free others i"
    and r: "rw_status r = ''active''" "i \<notin> set (ss_rows ss)"
    using assms(1) by (auto simp: pg_lock_expired_def split: pg_phase.splits option.splits if_splits)
  have "r \<in> set (tb_reservations t)" "rw_id r = i" using find_SomeD [OF sel(2) [unfolded reservation_find_def]] by simp_all
  moreover have "ss_log ss = []" using session_okD(7) [OF assms(2)] by (simp add: sel(1))
  ultimately show ?thesis
    using session_okD(3,4,6) [OF assms(2)] r ss'(2)
    by (intro advances_quiet [OF assms(2)]) (auto simp: sel(1) ss'(1))
qed

lemma cleanup_statement_advances:
  assumes "pg_cleanup_statement others ss = Some ss'" "session_ok limit dr t ss"
    and "\<And>s. slot_held (limit s) 0 0 s t"
  shows "advances limit dr others t ss ss'"
proof (cases "ss_phase ss")
  case (Selecting now goal rows)
  have "ss' = ss\<lparr>ss_phase := Expiring rows goal\<rparr>" using assms(1) Selecting by (simp add: pg_cleanup_statement_def)
  then show ?thesis
    using Selecting session_okD(3,4,6,7) [OF assms(2)]
    by (intro advances_quiet [OF assms(2)]) auto
next
  case (Expiring rows goal)
  show ?thesis
  proof (cases rows)
    case Nil
    then show ?thesis
      using assms(1) Expiring session_okD(6) [OF assms(2)]
      by (cases goal; cases "phase_request (ss_phase ss') = None")
        (auto simp: pg_cleanup_statement_def intro!: advances_quiet [OF assms(2)] split: if_splits)
  next
    case (Cons q qs)
    have "q \<in> set (due_rows (ss_phase ss))" by (simp add: Expiring Cons)
    note q = due_in_view [OF assms(2) this]
    have "slot_held (limit (rw_slot q)) 0 0 (rw_slot q) (pg_view t (ss_log ss))"
      using session_okD(1) [OF assms(2), of "rw_slot q"] by (simp add: Expiring)
    note held = held_settle(2) [OF this conjunct1 [OF q] refl conjunct2 [OF q], of 0]
    have ss': "ss' = written (WRelease (rw_amount q) (rw_slot q)) (Marking q qs goal) ss" "slot_free others (rw_slot q)"
      using assms(1) by (simp_all add: pg_cleanup_statement_def Expiring Cons split: if_splits)
    show ?thesis
      unfolding ss'(1)
      using held ss'(2) session_okD(4,6) [OF assms(2)]
      by (intro advances_write [OF assms(2)]) (simp_all add: Expiring Cons)
  qed
next
  case (Marking q qs goal)
  have "q \<in> set (due_rows (ss_phase ss))" by (simp add: Marking)
  note q = due_in_view [OF assms(2) this] session_okD(3) [OF assms(2) this]
  have "slot_held (limit (rw_slot q)) (- rw_amount q) 0 (rw_slot q) (pg_view t (ss_log ss))"
    using session_okD(1) [OF assms(2), of "rw_slot q"] by (simp add: Marking)
  then have held: "slot_held (limit (rw_slot q)) 0 0 (rw_slot q) (apply_write (WStatus q ''expired'') (pg_view t (ss_log ss)))"
    using q by (intro held_status) simp_all
  have "0 < rw_amount q"
    using held_amount_le [OF session_okD(1) [OF assms(2), of "rw_slot q"] conjunct1 [OF q(1)] refl] by simp
  then have lock: "locks_slot ss (rw_slot q)"
    using session_okD(2) [OF assms(2), of "rw_slot q"] by (simp add: Marking)
  have apart: "(rw_id p, rw_slot p) \<noteq> (rw_id q, rw_slot q)" if "p \<in> set qs" for p
    using session_okD(4) [OF assms(2)] that by (force simp: Marking image_iff)
  have ss': "ss' = written (WStatus q ''expired'') (Expiring qs goal) ss"
    using assms(1) by (simp add: pg_cleanup_statement_def Marking)
  show ?thesis
    unfolding ss'
    using held lock q apart session_okD(4,6) [OF assms(2)]
    by (intro advances_write [OF assms(2)]) (auto simp: Marking simp del: apply_write.simps)
qed (use assms(1) in \<open>simp_all add: pg_cleanup_statement_def\<close>)

text \<open>The last write of a settled reservation, and what settling one row needs.\<close>

lemma due_held:
  assumes "session_ok limit dr t ss" "q \<in> set (due_rows (ss_phase ss))" "pending dr (ss_phase ss) (rw_slot q) = (0, 0)"
    and "d = 0 \<or> d = rw_amount q"
  shows "slot_held (limit (rw_slot q)) (- rw_amount q) d (rw_slot q)
      (apply_write (WSettle (rw_amount q) d (rw_slot q)) (pg_view t (ss_log ss)))"
    and "slot_held (limit (rw_slot q)) (- rw_amount q) 0 (rw_slot q)
      (apply_write (WRelease (rw_amount q) (rw_slot q)) (pg_view t (ss_log ss)))"
proof -
  note q = due_in_view [OF assms(1,2)]
  have "slot_held (limit (rw_slot q)) 0 0 (rw_slot q) (pg_view t (ss_log ss))"
    using session_okD(1) [OF assms(1), of "rw_slot q"] assms(3) by simp
  note settle = held_settle [OF this conjunct1 [OF q] refl conjunct2 [OF q]]
  show "slot_held (limit (rw_slot q)) (- rw_amount q) d (rw_slot q)
      (apply_write (WSettle (rw_amount q) d (rw_slot q)) (pg_view t (ss_log ss)))" by (rule settle(1) [OF assms(4)])
  show "slot_held (limit (rw_slot q)) (- rw_amount q) 0 (rw_slot q)
      (apply_write (WRelease (rw_amount q) (rw_slot q)) (pg_view t (ss_log ss)))" by (rule settle(2) [of 0]) simp_all
qed

lemma finish_statement_advances:
  assumes "pg_finish_statement others t ss = Some ss'" "session_ok limit dr t ss"
    and "\<And>s. slot_held (limit s) 0 0 s t"
  shows "advances limit dr others t ss ss'"
proof (cases "ss_phase ss")
  case (Fetching action now i)
  have nolog: "ss_log ss = []" using session_okD(7) [OF assms(2)] by (simp add: Fetching)
  show ?thesis
  proof (cases "reservation_find i t")
    case None
    then have "ss' = idle_session" using assms(1) by (simp add: pg_finish_statement_def Fetching)
    then show ?thesis
      using session_ok_idle [of limit t dr, OF assms(3)] by (simp add: advances_def idle_session_def locks_slot_def)
  next
    case (Some row)
    let ?phase = "if rw_status row \<noteq> ''active'' then Closing
        else if rw_expires_at row \<le> now then Releasing row else Settling action row"
    have ss': "ss' = ss\<lparr>ss_rows := [i], ss_phase := ?phase\<rparr>" "row_free others i"
      using assms(1) Some by (simp_all add: pg_finish_statement_def Fetching split: if_splits)
    have row: "row \<in> set (tb_reservations t)" "rw_id row = i"
      using find_SomeD [OF Some [unfolded reservation_find_def]] by simp_all
    have "session_ok limit dr t ss'"
      using assms(3) row by (simp add: session_ok_def ss'(1) nolog)
    with ss'(2) show ?thesis by (simp add: advances_def ss'(1) locks_slot_def)
  qed
next
  case (Releasing q)
  have ss': "ss' = written (WRelease (rw_amount q) (rw_slot q)) (Ending q ''expired'') ss" "slot_free others (rw_slot q)"
    using assms(1) by (simp_all add: pg_finish_statement_def Releasing split: if_splits)
  show ?thesis
    unfolding ss'(1)
    using due_held(2) [OF assms(2), of q 0] ss'(2)
    by (intro advances_write [OF assms(2)]) (simp_all add: Releasing)
next
  case (Settling action q)
  obtain d st where d: "pg_finish_delta action (rw_amount q) = (d, st)" by fastforce
  then have "st \<noteq> ''active''" "d = (if st = ''committed'' then rw_amount q else 0)" by (cases action; auto)+
  moreover have ss': "ss' = written (WSettle (rw_amount q) d (rw_slot q)) (Ending q st) ss" "slot_free others (rw_slot q)"
    using assms(1) by (simp_all add: pg_finish_statement_def Settling d split: if_splits)
  ultimately show ?thesis
    unfolding ss'(1)
    using due_held(1) [OF assms(2), of q d] ss'(2)
    by (intro advances_write [OF assms(2)]) (simp_all add: Settling)
next
  case (Ending q st)
  have "q \<in> set (due_rows (ss_phase ss))" by (simp add: Ending)
  note q = due_in_view [OF assms(2) this] session_okD(3) [OF assms(2) this]
  note before = session_okD(1) [OF assms(2), of "rw_slot q", unfolded Ending, simplified]
  have held: "slot_held (limit (rw_slot q)) 0 0 (rw_slot q) (apply_write (WStatus q st) (pg_view t (ss_log ss)))"
    using before q session_okD(8) [OF assms(2)] by (intro held_status) (simp_all add: Ending)
  have "0 < rw_amount q" using held_amount_le [OF before conjunct1 [OF q(1)] refl] by simp
  then have lock: "locks_slot ss (rw_slot q)"
    using session_okD(2) [OF assms(2), of "rw_slot q"] by (simp add: Ending)
  have ss': "ss' = written (WStatus q st) Closing ss"
    using assms(1) by (simp add: pg_finish_statement_def Ending)
  show ?thesis
    unfolding ss'
    using held lock q by (intro advances_write [OF assms(2)]) (auto simp: Ending simp del: apply_write.simps)
qed (use assms(1) in \<open>simp_all add: pg_finish_statement_def\<close>)

lemma rolled_back_advances:
  assumes "\<And>s. slot_held (limit s) 0 0 s t"
  shows "advances limit dr others t ss (idle_session\<lparr>ss_phase := Closing\<rparr>)"
proof -
  have "session_ok limit dr t (idle_session\<lparr>ss_phase := Closing\<rparr>)"
    using assms by (simp add: session_ok_def idle_session_def)
  then show ?thesis by (simp add: advances_def idle_session_def locks_slot_def)
qed

lemma reserve_statement_advances:
  assumes "pg_reserve_statement dr others t ss = Some (t', ss')" "session_ok limit dr t ss"
    and "\<And>s. slot_held (limit s) 0 0 s t" "rows_below (tb_sequence t) t"
  shows "advances limit dr others t' ss ss' \<and> (t' = t \<or> (\<exists>n > tb_sequence t. t' = t\<lparr>tb_sequence := n\<rparr>))"
proof (cases "ss_phase ss")
  case (LookingUp r e)
  then have "t' = t" "ss' = ss\<lparr>ss_phase := Closing\<rparr> \<or> ss' = ss\<lparr>ss_phase := Counting r e\<rparr>"
    using assms(1) by (auto simp: pg_reserve_statement_def Let_def split: option.splits sum.splits prod.splits)
  then show ?thesis
    using session_okD(6) [OF assms(2)] LookingUp by (auto intro!: advances_quiet [OF assms(2)])
next
  case (Counting r e)
  let ?s = "slot_of dr r"
  show ?thesis
  proof (cases "counter_find ?s (pg_view t (ss_log ss)) = None")
    case True
    then have ss': "t' = t" "ss' = written (WCounter ?s) (Raising r e) ss" "slot_free others ?s"
      using assms(1) Counting by (simp_all add: pg_reserve_statement_def Let_def split: if_splits)
    have "slot_held (limit ?s) 0 0 ?s (apply_write (WCounter ?s) (pg_view t (ss_log ss)))"
      using session_okD(1) [OF assms(2), of ?s] True by (intro held_counter) (simp_all add: Counting)
    then show ?thesis
      unfolding ss'(1,2) using ss'(3)
      by (intro conjI disjI1 advances_write [OF assms(2)] refl) (simp_all add: Counting del: apply_write.simps)
  next
    case False
    then have "t' = t" "ss' = ss\<lparr>ss_phase := Raising r e\<rparr>"
      using assms(1) Counting by (simp_all add: pg_reserve_statement_def Let_def)
    then show ?thesis using Counting by (auto intro!: advances_quiet [OF assms(2)])
  qed
next
  case (Raising r e)
  let ?s = "slot_of dr r" and ?a = "uint (rr_amount r)"
  consider (overflow) "t' = t" "ss' = idle_session\<lparr>ss_phase := Closing\<rparr>"
    | (deny) "t' = t" "ss' = ss\<lparr>ss_phase := Closing\<rparr>"
    | (raise) c where "t' = t" "ss' = written (WRaise ?a ?s) (Inserting r e) ss" "slot_free others ?s"
        "counter_find ?s (pg_view t (ss_log ss)) = Some c" "ct_committed c + ct_reserved c + ?a \<le> uint (rr_effective_limit r)"
    using assms(1) Raising by (auto simp: pg_reserve_statement_def Let_def split: option.splits if_splits)
  then show ?thesis
  proof cases
    case overflow
    then show ?thesis using rolled_back_advances [OF assms(3)] by simp
  next
    case deny
    then show ?thesis using Raising by (auto intro!: advances_quiet [OF assms(2)])
  next
    case (raise c)
    have "ct_committed c + ct_reserved c + ?a \<le> limit ?s"
      using raise(5) session_okD(6) [OF assms(2), of r] by (simp add: Raising request_within_def)
    then have "slot_held (limit ?s) ?a 0 ?s (apply_write (WRaise ?a ?s) (pg_view t (ss_log ss)))"
      using session_okD(1) [OF assms(2), of ?s] raise(4) by (intro held_raise) (simp_all add: Raising)
    then show ?thesis
      unfolding raise(1,2) using raise(3)
      by (intro conjI disjI1 advances_write [OF assms(2)] refl) (simp_all add: Raising del: apply_write.simps)
  qed
next
  case (Inserting r e)
  let ?s = "slot_of dr r" and ?n = "sequence_next dr t"
  define row where "row = \<lparr>rw_id = ?n, rw_slot = ?s, rw_amount = uint (rr_amount r), rw_status = ''active'',
      rw_expires_at = dr_time dr e, rw_idempotency_key = key_of r\<rparr>"
  define t1 where "t1 = t\<lparr>tb_sequence := ?n\<rparr>"
  consider (failed) "t' = t" "ss' = idle_session\<lparr>ss_phase := Closing\<rparr>"
    | (inserted) "t' = t1" "ss' = written (WInsert row) Closing ss"
    using assms(1) Inserting by (auto simp: pg_reserve_statement_def Let_def row_def t1_def split: if_splits)
  then show ?thesis
  proof cases
    case failed
    then show ?thesis using rolled_back_advances [OF assms(3)] by simp
  next
    case inserted
    have n: "tb_sequence t < ?n" by (simp add: sequence_next_def)
    have ok: "session_ok limit dr t1 ss" unfolding t1_def by (rule session_ok_sequence [OF assms(2)]) (use n in simp)
    have "rows_below (tb_sequence t) (pg_view t1 (ss_log ss))"
      using assms(4) session_okD(9) [OF assms(2)] by (intro view_below) (simp_all add: t1_def rows_below_def)
    then have "rw_id row \<notin> rw_id ` set (tb_reservations (pg_view t1 (ss_log ss)))"
      using n by (auto simp: rows_below_def list_all_iff row_def)
    moreover have "0 < uint (rr_amount r)"
      using session_okD(6) [OF assms(2), of r] uint_ge_0 [of "rr_amount r"] unsigned_eq_0_iff [where 'a = int and w = "rr_amount r"]
      by (auto simp: Inserting order_less_le)
    moreover have "slot_held (limit ?s) (uint (rr_amount r)) 0 ?s (pg_view t1 (ss_log ss))"
      using session_okD(1) [OF ok, of ?s] by (simp add: Inserting)
    ultimately have "slot_held (limit ?s) 0 0 ?s (apply_write (WInsert row) (pg_view t1 (ss_log ss)))"
      by (intro slot_held_insert) (simp_all add: row_def)
    moreover have "locks_slot ss ?s"
      using session_okD(2) [OF assms(2), of ?s] \<open>0 < uint (rr_amount r)\<close> by (simp add: Inserting)
    ultimately have "advances limit dr others t1 ss (written (WInsert row) Closing ss)"
      by (intro advances_write [OF ok]) (simp_all add: Inserting row_def t1_def del: apply_write.simps)
    then show ?thesis using inserted n by (auto simp: t1_def)
  qed
qed (use assms(1) in \<open>simp_all add: pg_reserve_statement_def Let_def\<close>)

section \<open>The invariant of all sessions\<close>

definition apart :: "pg_session \<Rightarrow> pg_session \<Rightarrow> bool" where
  "apart a b \<longleftrightarrow> (\<forall>s. \<not> (locks_slot a s \<and> locks_slot b s)) \<and> set (ss_rows a) \<inter> set (ss_rows b) = {}"

definition pg_ok :: "(slot \<Rightarrow> int) \<Rightarrow> sql_driver \<Rightarrow> pg \<Rightarrow> bool" where
  "pg_ok limit dr g \<longleftrightarrow>
     (\<forall>s. slot_held (limit s) 0 0 s (pg_tables g))
   \<and> rows_below (tb_sequence (pg_tables g)) (pg_tables g)
   \<and> (\<forall>k < length (pg_sessions g). session_ok limit dr (pg_tables g) (pg_sessions g ! k))
   \<and> (\<forall>k < length (pg_sessions g). \<forall>l < length (pg_sessions g). k \<noteq> l \<longrightarrow>
        apart (pg_sessions g ! k) (pg_sessions g ! l))"

lemma apart_sym: "apart a b = apart b a"
  by (auto simp: apart_def)

lemma apart_idle [simp]: "apart idle_session b"
  by (simp add: apart_def idle_session_def locks_slot_def)

lemma pg_okD:
  assumes "pg_ok limit dr g"
  shows "slot_held (limit s) 0 0 s (pg_tables g)" "rows_below (tb_sequence (pg_tables g)) (pg_tables g)"
    and "k < length (pg_sessions g) \<Longrightarrow> session_ok limit dr (pg_tables g) (pg_sessions g ! k)"
    and "k < length (pg_sessions g) \<Longrightarrow> l < length (pg_sessions g) \<Longrightarrow> k \<noteq> l \<Longrightarrow>
      apart (pg_sessions g ! k) (pg_sessions g ! l)"
  using assms unfolding pg_ok_def by blast+

lemma other_member: "l < length xs \<Longrightarrow> l \<noteq> k \<Longrightarrow> xs ! l \<in> set (take k xs @ drop (Suc k) xs)"
proof (cases "l < k")
  case True
  assume "l < length xs"
  with True have "xs ! l = take k xs ! l" "l < length (take k xs)" by simp_all
  then show ?thesis by (metis nth_mem Un_iff set_append)
next
  case False
  assume "l < length xs" "l \<noteq> k"
  with False have "xs ! l = drop (Suc k) xs ! (l - Suc k)" "l - Suc k < length (drop (Suc k) xs)" by simp_all
  then show ?thesis by (metis nth_mem Un_iff set_append)
qed

text \<open>One session replaced: all that is left to check is that session, the tables and the others.\<close>

lemma pg_ok_replace:
  assumes "pg_ok limit dr g" "k < length (pg_sessions g)" "session_ok limit dr t' ss'"
    and "\<And>s. slot_held (limit s) 0 0 s t'" "rows_below (tb_sequence t') t'"
    and "\<And>l. l < length (pg_sessions g) \<Longrightarrow> l \<noteq> k \<Longrightarrow>
      session_ok limit dr t' (pg_sessions g ! l) \<and> apart ss' (pg_sessions g ! l)"
  shows "pg_ok limit dr (g\<lparr>pg_tables := t', pg_sessions := (pg_sessions g)[k := ss']\<rparr>)"
  unfolding pg_ok_def
  using assms(2-6) pg_okD(4) [OF assms(1)] apart_sym
  by (auto simp: nth_list_update)

lemma pg_ok_advances:
  fixes g :: pg and k :: nat
  defines "ss \<equiv> pg_sessions g ! k" and "others \<equiv> take k (pg_sessions g) @ drop (Suc k) (pg_sessions g)"
  assumes "pg_ok limit dr g" "k < length (pg_sessions g)" "advances limit dr others t' ss ss'"
    and "t' = pg_tables g \<or> (\<exists>n > tb_sequence (pg_tables g). t' = (pg_tables g)\<lparr>tb_sequence := n\<rparr>)"
  shows "pg_ok limit dr (g\<lparr>pg_tables := t', pg_sessions := (pg_sessions g)[k := ss']\<rparr>)"
proof (rule pg_ok_replace [OF assms(3,4)])
  note ok = pg_okD [OF assms(3)]
  have same: "slice s t' = slice s (pg_tables g)" for s using assms(6) by auto
  show "slot_held (limit s) 0 0 s t'" for s unfolding slot_held_slice [OF same] by (rule ok(1))
  show "rows_below (tb_sequence t') t'" using ok(2) assms(6) by (fastforce simp: rows_below_def list_all_iff)
  show "session_ok limit dr t' ss'" using assms(5) by (simp add: advances_def)
  fix l assume l: "l < length (pg_sessions g)" "l \<noteq> k"
  have "session_ok limit dr t' (pg_sessions g ! l)"
    using ok(3) [OF l(1)] assms(6) session_ok_sequence by auto
  moreover have "\<not> (slot_free others s \<and> locks_slot (pg_sessions g ! l) s)"
    "\<not> (row_free others i \<and> i \<in> set (ss_rows (pg_sessions g ! l)))" for s i
    using other_member [OF l] by (auto simp: others_def slot_free_def row_free_def list_ex_iff)
  moreover have "apart ss (pg_sessions g ! l)" unfolding ss_def using ok(4) assms(4) l by blast
  ultimately show "session_ok limit dr t' (pg_sessions g ! l) \<and> apart ss' (pg_sessions g ! l)"
    using assms(5) unfolding advances_def apart_def by blast
qed

lemma pg_ok_idle:
  assumes "pg_ok limit dr g" "k < length (pg_sessions g)" "ss_log ss' = []" "ss_rows ss' = []"
    and "session_ok limit dr (pg_tables g) ss'"
  shows "pg_ok limit dr (g\<lparr>pg_tables := pg_tables g, pg_sessions := (pg_sessions g)[k := ss']\<rparr>)"
  using pg_okD [OF assms(1)] assms
  by (intro pg_ok_replace) (auto simp: apart_def locks_slot_def)

lemma pg_ok_commit:
  fixes g :: pg and k :: nat
  defines "ss \<equiv> pg_sessions g ! k"
  assumes "pg_ok limit dr g" "k < length (pg_sessions g)" "ss_phase ss = Closing"
  shows "pg_ok limit dr (g\<lparr>pg_tables := pg_view (pg_tables g) (ss_log ss), pg_sessions := (pg_sessions g)[k := idle_session]\<rparr>)"
proof (rule pg_ok_replace [OF assms(2,3)])
  note ok = pg_okD [OF assms(2)]
  note own = session_okD [OF ok(3) [OF assms(3)], folded ss_def]
  show held: "slot_held (limit s) 0 0 s (pg_view (pg_tables g) (ss_log ss))" for s
    using own(1) [of s] by (simp add: assms(4))
  show "rows_below (tb_sequence (pg_view (pg_tables g) (ss_log ss))) (pg_view (pg_tables g) (ss_log ss))"
    using view_below [OF ok(2) own(9)] by simp
  show "session_ok limit dr (pg_view (pg_tables g) (ss_log ss)) idle_session" by (rule session_ok_idle [OF held])
  fix l assume l: "l < length (pg_sessions g)" "l \<noteq> k"
  have "apart ss (pg_sessions g ! l)" unfolding ss_def using ok(4) assms(3) l by blast
  then show "session_ok limit dr (pg_view (pg_tables g) (ss_log ss)) (pg_sessions g ! l)
      \<and> apart idle_session (pg_sessions g ! l)"
    using own(5) by (intro conjI session_ok_commit [OF ok(3) [OF l(1)] held] apart_idle)
      (auto simp: apart_def locks_slot_def)
qed

section \<open>Every interleaving\<close>

definition choice_within :: "(slot \<Rightarrow> int) \<Rightarrow> sql_driver \<Rightarrow> nat \<times> pg_choice \<Rightarrow> bool" where
  "choice_within limit dr m \<longleftrightarrow> (case snd m of BeginReserve r \<Rightarrow> request_within limit dr r | _ \<Rightarrow> True)"

lemma session_ok_fresh:
  assumes "\<And>s. slot_held (limit s) 0 0 s t" "due_rows phase = []" "\<And>s. pending dr phase s = (0, 0)" "ending_ok phase"
    and "\<And>r. phase_request phase = Some r \<Longrightarrow> request_within limit dr r \<and> rr_amount r \<noteq> 0"
  shows "session_ok limit dr t (idle_session\<lparr>ss_phase := phase\<rparr>)"
  using assms by (simp add: session_ok_def idle_session_def)

lemma begin_ok:
  assumes "pg_begin lib choice = Some ss'" "choice_within limit dr (k, choice)" "\<And>s. slot_held (limit s) 0 0 s t"
  shows "session_ok limit dr t ss' \<and> ss_log ss' = [] \<and> ss_rows ss' = []"
proof -
  have "\<exists>phase. ss' = idle_session\<lparr>ss_phase := phase\<rparr> \<and> due_rows phase = [] \<and> (\<forall>s. pending dr phase s = (0, 0))
      \<and> ending_ok phase \<and> (\<forall>r. phase_request phase = Some r \<longrightarrow> request_within limit dr r \<and> rr_amount r \<noteq> 0)"
  proof (cases choice)
    case (BeginReserve r)
    then obtain e where "ss' = idle_session\<lparr>ss_phase := Selecting (rr_now r) (ForReserve r e) []\<rparr>" "rr_amount r \<noteq> 0"
      using assms(1) by (auto simp: pg_begin_def split: outcome.splits option.splits)
    then show ?thesis
      using assms(2) by (intro exI [of _ "Selecting (rr_now r) (ForReserve r e) []"]) (simp add: choice_within_def BeginReserve)
  next
    case (BeginUsage now)
    then show ?thesis
      using assms(1) by (intro exI [of _ "Selecting now ForUsage []"]) (simp add: pg_begin_def)
  next
    case (BeginFinish action now rid)
    then obtain i where "ss' = idle_session\<lparr>ss_phase := Fetching action now i\<rparr>"
      using assms(1) by (auto simp: pg_begin_def split: outcome.splits)
    then show ?thesis by (intro exI [of _ "Fetching action now i"]) simp
  qed (use assms(1) in \<open>simp_all add: pg_begin_def\<close>)
  then obtain phase where "ss' = idle_session\<lparr>ss_phase := phase\<rparr>" "due_rows phase = []" "\<And>s. pending dr phase s = (0, 0)"
    "ending_ok phase" "\<And>r. phase_request phase = Some r \<Longrightarrow> request_within limit dr r \<and> rr_amount r \<noteq> 0" by blast
  then show ?thesis using session_ok_fresh [of limit t phase dr, OF assms(3)] by (simp add: idle_session_def)
qed

lemma pg_statement_cases [consumes 1, case_names closing cleanup finish reserve]:
  assumes "pg_statement dr others t ss = Some (t', ss')"
  obtains (closing) "ss_phase ss = Closing" "t' = pg_view t (ss_log ss)" "ss' = idle_session"
  | (cleanup) "t' = t" "pg_cleanup_statement others ss = Some ss'"
  | (finish) "t' = t" "pg_finish_statement others t ss = Some ss'"
  | (reserve) "pg_reserve_statement dr others t ss = Some (t', ss')"
proof (cases "ss_phase ss = Closing")
  case True
  then show ?thesis using assms closing by (simp add: pg_statement_def)
next
  case open_still: False
  show ?thesis
  proof (cases "pg_cleanup_statement others ss")
    case (Some x)
    then show ?thesis using assms open_still cleanup by (simp add: pg_statement_def)
  next
    case no_cleanup: None
    show ?thesis
    proof (cases "pg_finish_statement others t ss")
      case (Some x)
      then show ?thesis using assms open_still no_cleanup finish by (simp add: pg_statement_def)
    next
      case None
      then show ?thesis using assms open_still no_cleanup reserve by (simp add: pg_statement_def)
    qed
  qed
qed

lemma pg_statement_ok:
  fixes g :: pg and k :: nat
  defines "ss \<equiv> pg_sessions g ! k" and "others \<equiv> take k (pg_sessions g) @ drop (Suc k) (pg_sessions g)"
  assumes "pg_ok limit dr g" "k < length (pg_sessions g)" "pg_statement dr others (pg_tables g) ss = Some (t', ss')"
  shows "pg_ok limit dr (g\<lparr>pg_tables := t', pg_sessions := (pg_sessions g)[k := ss']\<rparr>)"
proof -
  note ok = pg_okD [OF assms(3)]
  have own: "session_ok limit dr (pg_tables g) ss" unfolding ss_def by (rule ok(3) [OF assms(4)])
  note advance = pg_ok_advances [OF assms(3,4), folded ss_def others_def]
  from assms(5) show ?thesis
  proof (cases rule: pg_statement_cases)
    case closing
    with pg_ok_commit [OF assms(3,4)] show ?thesis by (simp add: ss_def)
  next
    case cleanup
    with advance [OF cleanup_statement_advances [OF _ own ok(1)]] show ?thesis by simp
  next
    case finish
    with advance [OF finish_statement_advances [OF _ own ok(1)]] show ?thesis by simp
  next
    case reserve
    from reserve_statement_advances [OF this own ok(1,2)] show ?thesis
      by (intro advance) (auto simp: advances_def)
  qed
qed

lemma pg_move_ok:
  assumes "pg_move lib dr m g = Some g'" "choice_within limit dr m" "pg_ok limit dr g"
  shows "pg_ok limit dr g'"
proof -
  obtain k choice where m: "m = (k, choice)" by fastforce
  let ?ss = "pg_sessions g ! k" and ?others = "take k (pg_sessions g) @ drop (Suc k) (pg_sessions g)"
  note ok = pg_okD [OF assms(3)]
  have k: "k < length (pg_sessions g)" using assms(1) by (simp add: m pg_move_def split: if_splits)
  note own = ok(3) [OF k]
  have begun: "pg_ok limit dr g'" if began: "map_option (\<lambda>ss'. g\<lparr>pg_tables := pg_tables g,
      pg_sessions := (pg_sessions g)[k := ss']\<rparr>) (pg_begin lib choice) = Some g'"
  proof -
    obtain ss' where ss': "pg_begin lib choice = Some ss'"
      "g' = g\<lparr>pg_tables := pg_tables g, pg_sessions := (pg_sessions g)[k := ss']\<rparr>" using began by auto
    note begin_ok [OF ss'(1) assms(2) [unfolded m] ok(1)]
    then show ?thesis unfolding ss'(2) by (intro pg_ok_idle [OF assms(3) k]) simp_all
  qed
  show ?thesis
  proof (cases choice)
    case Abort
    have "session_ok limit dr (pg_tables g) idle_session" by (rule session_ok_idle [OF ok(1)])
    from pg_ok_idle [OF assms(3) k _ _ this] show ?thesis
      using assms(1) k Abort by (simp add: m pg_move_def Let_def) (simp add: idle_session_def)
  next
    case (LockRow i)
    then obtain ss' where "pg_lock_expired dr ?others (pg_tables g) i ?ss = Some ss'"
      "g' = g\<lparr>pg_tables := pg_tables g, pg_sessions := (pg_sessions g)[k := ss']\<rparr>"
      using assms(1) k by (auto simp: m pg_move_def Let_def)
    with pg_ok_advances [OF assms(3) k lock_expired_advances [OF _ own]] show ?thesis by simp
  next
    case Proceed
    then obtain t' ss' where "pg_statement dr ?others (pg_tables g) ?ss = Some (t', ss')"
      "g' = g\<lparr>pg_tables := t', pg_sessions := (pg_sessions g)[k := ss']\<rparr>"
      using assms(1) k by (auto simp: m pg_move_def Let_def)
    with pg_statement_ok [OF assms(3) k] show ?thesis by simp
  qed (use assms(1) k begun in \<open>simp_all add: m pg_move_def Let_def split: if_splits\<close>)
qed

lemma pg_moves_ok:
  "pg_moves lib dr ms g = Some g' \<Longrightarrow> list_all (choice_within limit dr) ms \<Longrightarrow> pg_ok limit dr g \<Longrightarrow> pg_ok limit dr g'"
  by (induction lib dr ms g rule: pg_moves.induct) (auto split: option.splits dest: pg_move_ok)

lemma pg_start_ok: "(\<And>s. 0 \<le> limit s) \<Longrightarrow> pg_ok limit dr (pg_start n)"
proof -
  assume nonneg: "\<And>s. 0 \<le> limit s"
  have "slot_held (limit s) 0 0 s empty_tables" for s
    using nonneg by (simp add: slot_held_def empty_tables_def reserved_of_def committed_of_def counter_find_def units_with_def)
  then show ?thesis
    using session_ok_idle [of limit empty_tables dr]
    by (simp add: pg_ok_def pg_start_def rows_below_def) (simp add: empty_tables_def)
qed

end
