(* ===== verification/Postgres_Alone.thy ===== *)
theory Postgres_Alone
  imports Postgres_Interleaving Sqlite_Contract
begin

text \<open>
  A session whose statements nobody interrupts: while every other session is idle, the transaction of a
  reserve, commit, refund or usage runs to its end and leaves the tables the operation in one step
  leaves. So the sessions of Postgres\_Sessions do what the operations of Postgres\_Store do.
\<close>

section \<open>Runs of one session\<close>

definition alone :: "nat \<Rightarrow> nat \<Rightarrow> tables \<Rightarrow> pg_session \<Rightarrow> pg" where
  "alone n k t ss = \<lparr>pg_tables = t, pg_sessions = (replicate n idle_session)[k := ss]\<rparr>"

definition idle_others :: "nat \<Rightarrow> pg_session list" where
  "idle_others n = replicate (n - 1) idle_session"

text \<open>Moves of session \<open>k\<close> that take it from one state to another, none of them an abort.\<close>

definition runs_to ::
    "('tz, 'more) chrono_scheme \<Rightarrow> sql_driver \<Rightarrow> nat \<Rightarrow> nat \<Rightarrow> tables \<Rightarrow> pg_session \<Rightarrow> tables \<Rightarrow> pg_session \<Rightarrow> bool" where
  "runs_to lib dr n k t ss t' ss' \<longleftrightarrow>
     (\<exists>ms. list_all (\<lambda>m. fst m = k \<and> snd m \<noteq> Abort) ms \<and> pg_moves lib dr ms (alone n k t ss) = Some (alone n k t' ss'))"

lemma runs_to_refl: "runs_to lib dr n k t ss t ss"
  unfolding runs_to_def by (rule exI [of _ "[]"]) simp

lemma pg_moves_append:
  "pg_moves lib dr (ms @ ms') g = Option.bind (pg_moves lib dr ms g) (pg_moves lib dr ms')"
  by (induction ms arbitrary: g) (simp_all split: option.splits)

lemma runs_to_trans:
  assumes "runs_to lib dr n k t ss t1 ss1" "runs_to lib dr n k t1 ss1 t' ss'"
  shows "runs_to lib dr n k t ss t' ss'"
proof -
  obtain ms ms' where "list_all (\<lambda>m. fst m = k \<and> snd m \<noteq> Abort) ms" "list_all (\<lambda>m. fst m = k \<and> snd m \<noteq> Abort) ms'"
    "pg_moves lib dr ms (alone n k t ss) = Some (alone n k t1 ss1)"
    "pg_moves lib dr ms' (alone n k t1 ss1) = Some (alone n k t' ss')"
    using assms unfolding runs_to_def by blast
  then show ?thesis unfolding runs_to_def by (intro exI [of _ "ms @ ms'"]) (simp add: pg_moves_append)
qed

lemma alone_simps [simp]:
  assumes "k < n"
  shows "length (pg_sessions (alone n k t ss)) = n" "pg_sessions (alone n k t ss) ! k = ss"
    and "pg_tables (alone n k t ss) = t"
    and "take k (pg_sessions (alone n k t ss)) @ drop (Suc k) (pg_sessions (alone n k t ss)) = idle_others n"
    and "(alone n k t ss)\<lparr>pg_tables := t', pg_sessions := (pg_sessions (alone n k t ss))[k := ss']\<rparr> = alone n k t' ss'"
  using assms by (simp_all add: alone_def idle_others_def drop_update_cancel flip: replicate_add)

lemma alone_free [simp]: "slot_free (idle_others n) s" "row_free (idle_others n) i"
  by (auto simp: slot_free_def row_free_def idle_others_def locks_slot_def idle_session_def list_ex_iff)

lemma runs_to_statement:
  assumes "k < n" "pg_statement dr (idle_others n) t ss = Some (t', ss')"
  shows "runs_to lib dr n k t ss t' ss'"
  unfolding runs_to_def
  by (rule exI [of _ "[(k, Proceed)]"]) (use assms in \<open>simp add: pg_move_def Let_def\<close>)

lemma runs_to_lock:
  assumes "k < n" "pg_lock_expired dr (idle_others n) t i ss = Some ss'"
  shows "runs_to lib dr n k t ss t ss'"
  unfolding runs_to_def
  by (rule exI [of _ "[(k, LockRow i)]"]) (use assms in \<open>simp add: pg_move_def Let_def\<close>)

lemma runs_to_step:
  assumes "k < n" "pg_statement dr (idle_others n) t ss = Some (t1, ss1)" "runs_to lib dr n k t1 ss1 t' ss'"
  shows "runs_to lib dr n k t ss t' ss'"
  using runs_to_trans [OF runs_to_statement [OF assms(1,2)] assms(3)] .

text \<open>A statement of the transaction after its cleanup, and the commit at its end.\<close>

lemma runs_to_commit:
  assumes "k < n" "ss_phase ss = Closing" "t' = pg_view t (ss_log ss)"
  shows "runs_to lib dr n k t ss t' idle_session"
  by (rule runs_to_statement [OF assms(1)]) (simp add: pg_statement_def assms(2,3))

section \<open>The cleanup\<close>

lemma locks_expired:
  assumes "k < n" "tables_wf t" "set xs \<subseteq> set (expired_rows dr now t)" "distinct (map rw_id xs)"
    and "rw_id ` set xs \<inter> set ids = {}"
  shows "\<exists>ids'. runs_to lib dr n k t \<lparr>ss_phase = Selecting now goal rows, ss_log = log, ss_rows = ids\<rparr>
    t \<lparr>ss_phase = Selecting now goal (rows @ xs), ss_log = log, ss_rows = ids'\<rparr>"
  using assms(3-5)
proof (induction xs arbitrary: rows ids)
  case Nil
  show ?case by (auto intro: runs_to_refl)
next
  case (Cons r xs)
  have r: "r \<in> set (tb_reservations t)" "rw_status r = ''active''" "dr_not_after dr (rw_expires_at r) (dr_time dr now)"
    using Cons.prems(1) by (simp_all add: expired_rows_def)
  have "reservation_find (rw_id r) t = Some r"
    using find_distinct [OF tables_wfD(2) [OF assms(2)]] r(1) by (simp add: reservation_find_def)
  then have "runs_to lib dr n k t \<lparr>ss_phase = Selecting now goal rows, ss_log = log, ss_rows = ids\<rparr>
      t \<lparr>ss_phase = Selecting now goal (rows @ [r]), ss_log = log, ss_rows = rw_id r # ids\<rparr>"
    using r Cons.prems(3) by (intro runs_to_lock [OF assms(1), where i = "rw_id r"]) (simp add: pg_lock_expired_def)
  moreover have "\<exists>ids'. runs_to lib dr n k t \<lparr>ss_phase = Selecting now goal (rows @ [r]), ss_log = log, ss_rows = rw_id r # ids\<rparr>
      t \<lparr>ss_phase = Selecting now goal ((rows @ [r]) @ xs), ss_log = log, ss_rows = ids'\<rparr>"
    using Cons.prems by (intro Cons.IH) auto
  ultimately show ?case using runs_to_trans by fastforce
qed

lemma write_settles:
  assumes "\<And>p. p \<in> set (tb_reservations t) \<Longrightarrow> rw_id p = rw_id q \<Longrightarrow> rw_slot p = rw_slot q"
  shows "apply_write (WStatus q st) (apply_write
      (WSettle (rw_amount q) (if st = ''committed'' then rw_amount q else 0) (rw_slot q)) t) = settle_row st q t"
    and "apply_write (WStatus q ''expired'') (apply_write (WRelease (rw_amount q) (rw_slot q)) t) = settle_row ''expired'' q t"
proof -
  have "map (\<lambda>r. if rw_id r = rw_id q \<and> rw_slot r = rw_slot q then r\<lparr>rw_status := st\<rparr> else r) (tb_reservations t)
      = map (\<lambda>r. if rw_id r = rw_id q then r\<lparr>rw_status := st\<rparr> else r) (tb_reservations t)" for st
    using assms by (intro map_cong) auto
  then show "apply_write (WStatus q st) (apply_write
      (WSettle (rw_amount q) (if st = ''committed'' then rw_amount q else 0) (rw_slot q)) t) = settle_row st q t"
    and "apply_write (WStatus q ''expired'') (apply_write (WRelease (rw_amount q) (rw_slot q)) t) = settle_row ''expired'' q t"
    by (simp_all add: settle_row_def)
qed

lemma pg_view_two: "pg_view t (log @ [v, w]) = apply_write w (apply_write v (pg_view t log))"
  by (simp add: pg_view_def)

lemma expires_rows:
  assumes "k < n" "\<And>p q. q \<in> set xs \<Longrightarrow> p \<in> set (tb_reservations (pg_view t log)) \<Longrightarrow> rw_id p = rw_id q \<Longrightarrow> rw_slot p = rw_slot q"
  shows "\<exists>log'. pg_view t log' = expire_rows xs (pg_view t log) \<and>
    runs_to lib dr n k t \<lparr>ss_phase = Expiring xs goal, ss_log = log, ss_rows = ids\<rparr>
      t \<lparr>ss_phase = Expiring [] goal, ss_log = log', ss_rows = ids\<rparr>"
  using assms(2)
proof (induction xs arbitrary: log)
  case Nil
  have "pg_view t log = expire_rows [] (pg_view t log)" by (simp add: expire_rows_def)
  then show ?case using runs_to_refl by blast
next
  case (Cons r xs)
  let ?log = "log @ [WRelease (rw_amount r) (rw_slot r), WStatus r ''expired'']"
  have view: "pg_view t ?log = settle_row ''expired'' r (pg_view t log)"
    unfolding pg_view_two by (rule write_settles(2), rule Cons.prems) simp_all
  have "runs_to lib dr n k t \<lparr>ss_phase = Expiring (r # xs) goal, ss_log = log, ss_rows = ids\<rparr>
      t \<lparr>ss_phase = Marking r xs goal, ss_log = log @ [WRelease (rw_amount r) (rw_slot r)], ss_rows = ids\<rparr>"
    by (rule runs_to_statement [OF assms(1)]) (simp add: pg_statement_def pg_cleanup_statement_def written_def)
  moreover have "runs_to lib dr n k t
      \<lparr>ss_phase = Marking r xs goal, ss_log = log @ [WRelease (rw_amount r) (rw_slot r)], ss_rows = ids\<rparr>
      t \<lparr>ss_phase = Expiring xs goal, ss_log = ?log, ss_rows = ids\<rparr>"
    by (rule runs_to_statement [OF assms(1)]) (simp add: pg_statement_def pg_cleanup_statement_def written_def)
  ultimately have first: "runs_to lib dr n k t \<lparr>ss_phase = Expiring (r # xs) goal, ss_log = log, ss_rows = ids\<rparr>
      t \<lparr>ss_phase = Expiring xs goal, ss_log = ?log, ss_rows = ids\<rparr>" by (rule runs_to_trans)
  have "\<exists>log'. pg_view t log' = expire_rows xs (pg_view t ?log) \<and>
      runs_to lib dr n k t \<lparr>ss_phase = Expiring xs goal, ss_log = ?log, ss_rows = ids\<rparr>
        t \<lparr>ss_phase = Expiring [] goal, ss_log = log', ss_rows = ids\<rparr>"
  proof (rule Cons.IH)
    fix p q assume q: "q \<in> set xs" "p \<in> set (tb_reservations (pg_view t ?log))" "rw_id p = rw_id q"
    then obtain p' where "p' \<in> set (tb_reservations (pg_view t log))" "rw_id p = rw_id p'" "rw_slot p = rw_slot p'"
      unfolding view settle_row_simps by auto
    with Cons.prems [of q p'] q(1,3) show "rw_slot p = rw_slot q" by simp
  qed
  then obtain log' where log': "pg_view t log' = expire_rows xs (pg_view t ?log)"
    and rest: "runs_to lib dr n k t \<lparr>ss_phase = Expiring xs goal, ss_log = ?log, ss_rows = ids\<rparr>
        t \<lparr>ss_phase = Expiring [] goal, ss_log = log', ss_rows = ids\<rparr>" by blast
  have "pg_view t log' = expire_rows (r # xs) (pg_view t log)" by (simp add: log' view expire_rows_def)
  with runs_to_trans [OF first rest] show ?case by blast
qed

lemma cleanup_runs:
  assumes "k < n" "tables_wf t"
  shows "\<exists>ss. ss_phase ss = Expiring [] goal \<and> pg_view t (ss_log ss) = expire_tables dr now t \<and>
    runs_to lib dr n k t (idle_session\<lparr>ss_phase := Selecting now goal []\<rparr>) t ss"
proof -
  let ?xs = "expired_rows dr now t"
  obtain ids where lock: "runs_to lib dr n k t \<lparr>ss_phase = Selecting now goal [], ss_log = [], ss_rows = []\<rparr>
      t \<lparr>ss_phase = Selecting now goal ?xs, ss_log = [], ss_rows = ids\<rparr>"
    using locks_expired [OF assms subset_refl expired_rows_props(1) [OF assms(2)], where lib = lib and goal = goal and rows = "[]" and log = "[]" and ids = "[]"] by auto
  have "rw_slot p = rw_slot q" if "q \<in> set ?xs" "p \<in> set (tb_reservations t)" "rw_id p = rw_id q" for p q
    using that expired_rows_props(2) [of dr now t] tables_wfD(2) [OF assms(2)]
    by (auto simp: distinct_map dest: inj_onD)
  then obtain log where log: "pg_view t log = expire_rows ?xs t"
    "runs_to lib dr n k t \<lparr>ss_phase = Expiring ?xs goal, ss_log = [], ss_rows = ids\<rparr>
      t \<lparr>ss_phase = Expiring [] goal, ss_log = log, ss_rows = ids\<rparr>"
    using expires_rows [OF assms(1), where xs = ?xs and t = t and log = "[]" and lib = lib and dr = dr and goal = goal and ids = ids] by auto
  have "runs_to lib dr n k t \<lparr>ss_phase = Selecting now goal ?xs, ss_log = [], ss_rows = ids\<rparr>
      t \<lparr>ss_phase = Expiring ?xs goal, ss_log = [], ss_rows = ids\<rparr>"
    by (rule runs_to_statement [OF assms(1)]) (simp add: pg_statement_def pg_cleanup_statement_def)
  with lock log show ?thesis
    by (intro exI [of _ "\<lparr>ss_phase = Expiring [] goal, ss_log = log, ss_rows = ids\<rparr>"])
      (simp add: idle_session_def expire_tables_def, blast intro: runs_to_trans)
qed

section \<open>Usage, commit and refund\<close>

lemma usage_runs:
  assumes "k < n" "tables_wf t"
  shows "runs_to lib dr n k t (idle_session\<lparr>ss_phase := Selecting now ForUsage []\<rparr>) (expire_tables dr now t) idle_session"
proof -
  obtain ss where ss: "ss_phase ss = Expiring [] ForUsage" "pg_view t (ss_log ss) = expire_tables dr now t"
    "runs_to lib dr n k t (idle_session\<lparr>ss_phase := Selecting now ForUsage []\<rparr>) t ss"
    using cleanup_runs [OF assms] by blast
  have "runs_to lib dr n k t ss t (ss\<lparr>ss_phase := Closing\<rparr>)"
    by (rule runs_to_statement [OF assms(1)]) (simp add: pg_statement_def pg_cleanup_statement_def ss(1))
  moreover have "runs_to lib dr n k t (ss\<lparr>ss_phase := Closing\<rparr>) (expire_tables dr now t) idle_session"
    using ss(2) by (intro runs_to_commit [OF assms(1)]) simp_all
  ultimately show ?thesis using ss(3) by (blast intro: runs_to_trans)
qed

lemma settles_row:
  assumes "k < n" "tables_wf t" "row \<in> set (tb_reservations t)"
  shows "runs_to lib dr n k t \<lparr>ss_phase = Releasing row, ss_log = [], ss_rows = ids\<rparr> (settle_row ''expired'' row t) idle_session"
    and "runs_to lib dr n k t \<lparr>ss_phase = Settling (as_pg_action action) row, ss_log = [], ss_rows = ids\<rparr>
      (settle_row (finish_status action) row t) idle_session"
proof -
  have same: "rw_slot p = rw_slot row" if "p \<in> set (tb_reservations t)" "rw_id p = rw_id row" for p
    using that assms(3) tables_wfD(2) [OF assms(2)] by (auto simp: distinct_map dest: inj_onD)
  have released: "apply_write (WStatus row ''expired'') (apply_write (WRelease (rw_amount row) (rw_slot row)) t)
      = settle_row ''expired'' row t" by (rule write_settles(2)) (rule same)
  have settled: "apply_write (WStatus row st) (apply_write
      (WSettle (rw_amount row) (if st = ''committed'' then rw_amount row else 0) (rw_slot row)) t) = settle_row st row t" for st
    by (rule write_settles(1)) (rule same)
  have ending: "runs_to lib dr n k t \<lparr>ss_phase = Ending row st, ss_log = [w], ss_rows = ids\<rparr>
      (apply_write (WStatus row st) (apply_write w t)) idle_session" for st w
  proof (rule runs_to_trans)
    show "runs_to lib dr n k t \<lparr>ss_phase = Ending row st, ss_log = [w], ss_rows = ids\<rparr>
        t \<lparr>ss_phase = Closing, ss_log = [w, WStatus row st], ss_rows = ids\<rparr>"
      by (rule runs_to_statement [OF assms(1)])
        (simp add: pg_statement_def pg_cleanup_statement_def pg_finish_statement_def written_def)
    show "runs_to lib dr n k t \<lparr>ss_phase = Closing, ss_log = [w, WStatus row st], ss_rows = ids\<rparr>
        (apply_write (WStatus row st) (apply_write w t)) idle_session"
      by (rule runs_to_commit [OF assms(1)]) (simp_all add: pg_view_def)
  qed
  have "runs_to lib dr n k t \<lparr>ss_phase = Releasing row, ss_log = [], ss_rows = ids\<rparr>
      t \<lparr>ss_phase = Ending row ''expired'', ss_log = [WRelease (rw_amount row) (rw_slot row)], ss_rows = ids\<rparr>"
    by (rule runs_to_statement [OF assms(1)])
      (simp add: pg_statement_def pg_cleanup_statement_def pg_finish_statement_def written_def)
  from runs_to_trans [OF this ending]
  show "runs_to lib dr n k t \<lparr>ss_phase = Releasing row, ss_log = [], ss_rows = ids\<rparr> (settle_row ''expired'' row t) idle_session"
    unfolding released .
  let ?st = "finish_status action" and ?d = "if finish_status action = ''committed'' then rw_amount row else 0"
  have "pg_finish_delta (as_pg_action action) (rw_amount row) = (?d, ?st)" by (cases action) simp_all
  then have "runs_to lib dr n k t \<lparr>ss_phase = Settling (as_pg_action action) row, ss_log = [], ss_rows = ids\<rparr>
      t \<lparr>ss_phase = Ending row ?st, ss_log = [WSettle (rw_amount row) ?d (rw_slot row)], ss_rows = ids\<rparr>"
    by (intro runs_to_statement [OF assms(1)])
      (simp add: pg_statement_def pg_cleanup_statement_def pg_finish_statement_def written_def)
  from runs_to_trans [OF this ending]
  show "runs_to lib dr n k t \<lparr>ss_phase = Settling (as_pg_action action) row, ss_log = [], ss_rows = ids\<rparr>
      (settle_row (finish_status action) row t) idle_session"
    unfolding settled .
qed

lemma finish_runs:
  assumes "k < n" "tables_wf t" "to_i64 (as_u64 rid) ''reservation id'' = Ok i"
  shows "runs_to lib dr n k t (idle_session\<lparr>ss_phase := Fetching (as_pg_action action) now i\<rparr>)
    (db_tables (snd (postgres_finish_reservation now (as_pg_action action) rid \<lparr>db_tables = t, db_events = []\<rparr>))) idle_session"
proof -
  have i: "i = uint (as_u64 rid)" "\<not> i64_max < i" using assms(3) by simp_all
  have start: "idle_session\<lparr>ss_phase := p\<rparr> = \<lparr>ss_phase = p, ss_log = [], ss_rows = []\<rparr>" for p
    by (simp add: idle_session_def)
  show ?thesis
  proof (cases "reservation_find i t")
    case None
    then have "runs_to lib dr n k t \<lparr>ss_phase = Fetching (as_pg_action action) now i, ss_log = [], ss_rows = []\<rparr> t idle_session"
      by (intro runs_to_statement [OF assms(1)]) (simp add: pg_statement_def pg_cleanup_statement_def pg_finish_statement_def)
    then show ?thesis using None i by (simp add: start postgres_finish_same finish_calm)
  next
    case (Some row)
    let ?phase = "if rw_status row \<noteq> ''active'' then Closing
        else if rw_expires_at row \<le> now then Releasing row else Settling (as_pg_action action) row"
    have row: "row \<in> set (tb_reservations t)" using reservation_find_row [OF Some] by simp
    have fetched: "runs_to lib dr n k t \<lparr>ss_phase = Fetching (as_pg_action action) now i, ss_log = [], ss_rows = []\<rparr>
        t \<lparr>ss_phase = ?phase, ss_log = [], ss_rows = [i]\<rparr>"
      using Some by (intro runs_to_statement [OF assms(1)]) (simp add: pg_statement_def pg_cleanup_statement_def pg_finish_statement_def)
    have closed: "runs_to lib dr n k t \<lparr>ss_phase = Closing, ss_log = [], ss_rows = [i]\<rparr> t idle_session"
      by (rule runs_to_commit [OF assms(1)]) simp_all
    have "runs_to lib dr n k t \<lparr>ss_phase = ?phase, ss_log = [], ss_rows = [i]\<rparr>
        (db_tables (snd (postgres_finish_reservation now (as_pg_action action) rid \<lparr>db_tables = t, db_events = []\<rparr>))) idle_session"
      using closed settles_row(1) [OF assms(1,2) row, of lib dr "[i]"]
        settles_row(2) [OF assms(1,2) row, of lib dr action "[i]"] Some i
      by (auto simp: postgres_finish_same finish_calm)
    with fetched show ?thesis unfolding start by (rule runs_to_trans)
  qed
qed

section \<open>Reserve\<close>

lemma slot_of_request: "slot_of dr r = request_slot dr r" and key_of_request: "key_of r = key_text r"
  by (simp_all add: slot_of_def request_slot_def key_of_def key_text_def)

lemma view_on_sequence: "pg_view (t\<lparr>tb_sequence := m\<rparr>) log = (pg_view t log)\<lparr>tb_sequence := m\<rparr>"
proof -
  have "apply_write w (t\<lparr>tb_sequence := m\<rparr>) = (apply_write w t)\<lparr>tb_sequence := m\<rparr>" for w t
    by (cases w) (simp_all add: on_counters_def)
  then show ?thesis by (induction log arbitrary: t) (simp_all add: pg_view_def del: apply_write.simps)
qed

lemma view_sequence_same: "tb_sequence (pg_view t log) = tb_sequence t"
proof -
  have "tb_sequence (apply_write w t) = tb_sequence t" for w t by (cases w) simp_all
  then show ?thesis by (induction log arbitrary: t) (simp_all add: pg_view_def del: apply_write.simps)
qed

lemmas reserve_statement_defs = pg_statement_def pg_cleanup_statement_def pg_finish_statement_def pg_reserve_statement_def written_def

lemma looks_up:
  assumes "k < n" "ss_phase ss = Expiring [] (ForReserve r e)"
  shows "\<exists>ss'. ss_log ss' = ss_log ss \<and> runs_to lib dr n k t ss t ss' \<and>
    ss_phase ss' = (if live_row (request_slot dr r) (key_text r) (pg_view t (ss_log ss)) = None then Counting r e else Closing)"
proof (cases "rr_idempotency_key r")
  case None
  have "runs_to lib dr n k t ss t (ss\<lparr>ss_phase := Counting r e\<rparr>)"
    using None by (intro runs_to_statement [OF assms(1)]) (simp add: reserve_statement_defs assms(2))
  moreover have "live_row (request_slot dr r) (key_text r) (pg_view t (ss_log ss)) = None"
    using None by (simp add: live_row_def key_text_def find_None_iff)
  ultimately show ?thesis by (intro exI [of _ "ss\<lparr>ss_phase := Counting r e\<rparr>"]) simp
next
  case (Some i)
  let ?live = "live_row (request_slot dr r) (key_text r) (pg_view t (ss_log ss))"
  let ?phase = "if ?live = None then Counting r e else Closing"
  have select: "select_idempotent (slot_of dr r) (idempotency_as_str i) (pg_view t (ss_log ss))
      = Inr (?live, pg_view t (ss_log ss))"
    using Some by (simp add: select_idempotent_def live_row_def slot_of_request key_text_def)
  have "runs_to lib dr n k t ss t (ss\<lparr>ss_phase := LookingUp r e\<rparr>)"
    using Some by (intro runs_to_statement [OF assms(1)]) (simp add: reserve_statement_defs assms(2))
  moreover have "runs_to lib dr n k t (ss\<lparr>ss_phase := LookingUp r e\<rparr>) t (ss\<lparr>ss_phase := ?phase\<rparr>)"
    using Some by (intro runs_to_statement [OF assms(1)]) (simp add: reserve_statement_defs select split: option.splits)
  ultimately have "runs_to lib dr n k t ss t (ss\<lparr>ss_phase := ?phase\<rparr>)" by (rule runs_to_trans)
  then show ?thesis by (intro exI [of _ "ss\<lparr>ss_phase := ?phase\<rparr>"]) simp
qed

lemma counts:
  assumes "k < n" "ss_phase ss = Counting r e"
  shows "\<exists>ss'. ss_phase ss' = Raising r e \<and> runs_to lib dr n k t ss t ss' \<and>
    pg_view t (ss_log ss') = counter_added (request_slot dr r) (pg_view t (ss_log ss))"
proof (cases "counter_find (slot_of dr r) (pg_view t (ss_log ss)) = None")
  case True
  have "runs_to lib dr n k t ss t (written (WCounter (slot_of dr r)) (Raising r e) ss)"
    using True by (intro runs_to_statement [OF assms(1)]) (simp add: reserve_statement_defs assms(2))
  with True show ?thesis
    by (intro exI [of _ "written (WCounter (slot_of dr r)) (Raising r e) ss"])
      (simp add: written_def pg_view_append counter_added_def slot_of_request)
next
  case False
  have "runs_to lib dr n k t ss t (ss\<lparr>ss_phase := Raising r e\<rparr>)"
    using False by (intro runs_to_statement [OF assms(1)]) (simp add: reserve_statement_defs assms(2))
  with False show ?thesis
    by (intro exI [of _ "ss\<lparr>ss_phase := Raising r e\<rparr>"]) (simp add: counter_added_def slot_of_request)
qed

text \<open>The guarded update: an error rolls back, no row is hit, or the counter is raised.\<close>

lemma raises:
  assumes "k < n" "ss_phase ss = Raising r e" "pg_view t (ss_log ss) = u" "counter_find (request_slot dr r) u \<noteq> None"
  defines "needed \<equiv> committed_of (request_slot dr r) u + reserved_of (request_slot dr r) u + uint (rr_amount r)"
  shows "i64_max < needed \<Longrightarrow> dr_overflow dr \<noteq> None \<Longrightarrow> runs_to lib dr n k t ss t idle_session"
    and "\<not> (i64_max < needed \<and> dr_overflow dr \<noteq> None) \<Longrightarrow> uint (rr_effective_limit r) < needed \<Longrightarrow>
      runs_to lib dr n k t ss u idle_session"
    and "\<not> (i64_max < needed \<and> dr_overflow dr \<noteq> None) \<Longrightarrow> needed \<le> uint (rr_effective_limit r) \<Longrightarrow>
      runs_to lib dr n k t ss t (written (WRaise (uint (rr_amount r)) (request_slot dr r)) (Inserting r e) ss)"
proof -
  obtain c where c: "counter_find (slot_of dr r) u = Some c" using assms(4) by (auto simp: slot_of_request)
  then have needed: "needed = ct_committed c + ct_reserved c + uint (rr_amount r)"
    by (simp add: needed_def committed_of_def reserved_of_def slot_of_request)
  note step = runs_to_statement [OF assms(1)] runs_to_commit [OF assms(1)]
  show "runs_to lib dr n k t ss t idle_session" if "i64_max < needed" "dr_overflow dr \<noteq> None"
  proof (rule runs_to_trans)
    show "runs_to lib dr n k t ss t (idle_session\<lparr>ss_phase := Closing\<rparr>)"
      using that by (intro step(1)) (simp add: reserve_statement_defs assms(2,3) c needed)
    show "runs_to lib dr n k t (idle_session\<lparr>ss_phase := Closing\<rparr>) t idle_session"
      by (rule step(2)) (simp_all add: idle_session_def)
  qed
  show "runs_to lib dr n k t ss u idle_session"
    if "\<not> (i64_max < needed \<and> dr_overflow dr \<noteq> None)" "uint (rr_effective_limit r) < needed"
  proof (rule runs_to_trans)
    show "runs_to lib dr n k t ss t (ss\<lparr>ss_phase := Closing\<rparr>)"
      using that by (intro step(1)) (auto simp: reserve_statement_defs assms(2,3) c needed)
    show "runs_to lib dr n k t (ss\<lparr>ss_phase := Closing\<rparr>) u idle_session"
      by (rule step(2)) (simp_all add: assms(3))
  qed
  show "runs_to lib dr n k t ss t (written (WRaise (uint (rr_amount r)) (request_slot dr r)) (Inserting r e) ss)"
    if "\<not> (i64_max < needed \<and> dr_overflow dr \<noteq> None)" "needed \<le> uint (rr_effective_limit r)"
    using that by (intro step(1)) (auto simp: reserve_statement_defs assms(2,3) c needed slot_of_request [symmetric])
qed

lemma inserts:
  assumes "k < n" "ss_phase ss = Inserting r e"
    and "pg_view t (ss_log ss) = on_counters (\<lambda>c. c\<lparr>ct_reserved := ct_reserved c + uint (rr_amount r)\<rparr>) (request_slot dr r) u"
    and "tb_sequence u = tb_sequence t"
  shows "insert_reservation_row dr (request_slot dr r) a e (key_text r) u = Inl m \<Longrightarrow> runs_to lib dr n k t ss t idle_session"
    and "insert_reservation_row dr (request_slot dr r) a e (key_text r) u = Inr x \<Longrightarrow>
      runs_to lib dr n k t ss (admitted_tables dr (request_slot dr r) (uint (rr_amount r)) e (key_text r) u) idle_session"
proof -
  let ?view = "pg_view t (ss_log ss)"
  have rows: "tb_reservations ?view = tb_reservations u" by (simp add: assms(3))
  have seq: "sequence_next dr u = sequence_next dr t" by (simp add: sequence_next_def assms(4))
  note step = runs_to_statement [OF assms(1)] runs_to_commit [OF assms(1)]
  show "runs_to lib dr n k t ss t idle_session"
    if "insert_reservation_row dr (request_slot dr r) a e (key_text r) u = Inl m"
  proof (rule runs_to_trans)
    have "i64_max < sequence_next dr t \<or> key_of r \<noteq> None
        \<and> list_ex (\<lambda>q. rw_slot q = slot_of dr r \<and> rw_idempotency_key q = key_of r) (tb_reservations ?view)"
      using that by (auto simp: insert_reservation_row_def seq rows slot_of_request key_of_request Let_def split: if_splits)
    then show "runs_to lib dr n k t ss t (idle_session\<lparr>ss_phase := Closing\<rparr>)"
      by (intro step(1)) (simp add: reserve_statement_defs assms(2))
    show "runs_to lib dr n k t (idle_session\<lparr>ss_phase := Closing\<rparr>) t idle_session"
      by (rule step(2)) (simp_all add: idle_session_def)
  qed
  let ?row = "\<lparr>rw_id = sequence_next dr t, rw_slot = slot_of dr r, rw_amount = uint (rr_amount r), rw_status = ''active'',
    rw_expires_at = dr_time dr e, rw_idempotency_key = key_of r\<rparr>"
  show "runs_to lib dr n k t ss (admitted_tables dr (request_slot dr r) (uint (rr_amount r)) e (key_text r) u) idle_session"
    if "insert_reservation_row dr (request_slot dr r) a e (key_text r) u = Inr x"
  proof (rule runs_to_trans)
    have "\<not> (i64_max < sequence_next dr t \<or> key_of r \<noteq> None
        \<and> list_ex (\<lambda>q. rw_slot q = slot_of dr r \<and> rw_idempotency_key q = key_of r) (tb_reservations ?view))"
      using that by (auto simp: insert_reservation_row_def seq rows slot_of_request key_of_request Let_def split: if_splits)
    then show "runs_to lib dr n k t ss (t\<lparr>tb_sequence := sequence_next dr t\<rparr>) (written (WInsert ?row) Closing ss)"
      by (intro step(1)) (auto simp: reserve_statement_defs assms(2) Let_def)
    show "runs_to lib dr n k (t\<lparr>tb_sequence := sequence_next dr t\<rparr>) (written (WInsert ?row) Closing ss)
        (admitted_tables dr (request_slot dr r) (uint (rr_amount r)) e (key_text r) u) idle_session"
      by (rule step(2))
        (simp_all add: written_def pg_view_append view_on_sequence assms(3) admitted_tables_def seq slot_of_request key_of_request)
  qed
qed

lemma admitted_inserts:
  assumes "tables_wf (admitted_tables dr s amount e i u)"
  shows "\<exists>x. insert_reservation_row dr s a e i u = Inr x"
proof -
  let ?t = "admitted_tables dr s amount e i u"
  have "sequence_next dr u \<le> i64_max" using tables_wfD(6) [OF assms] by (simp add: admitted_tables_def)
  moreover have "i = None \<or> \<not> list_ex (\<lambda>q. rw_slot q = s \<and> rw_idempotency_key q = i) (tb_reservations u)"
    using tables_wfD(3) [OF assms]
    by (auto simp: admitted_tables_def index_entries_def list_ex_iff image_iff) (metis option.distinct(1))
  ultimately show ?thesis by (auto simp: insert_reservation_row_def Let_def)
qed

lemma reserve_runs:
  fixes lib :: "('tz, 'more) chrono_scheme"
  assumes "k < n" "tables_wf t" "sql_valid lib r" "ch_add lib (rr_now r) (rr_reservation_ttl r) = Some e"
  shows "runs_to lib dr n k t (idle_session\<lparr>ss_phase := Selecting (rr_now r) (ForReserve r e) []\<rparr>)
    (db_tables (snd (postgres_reserve_if_allowed lib dr r \<lparr>db_tables = t, db_events = []\<rparr>))) idle_session"
proof -
  let ?s = "request_slot dr r" and ?start = "idle_session\<lparr>ss_phase := Selecting (rr_now r) (ForReserve r e) []\<rparr>"
  define v where "v = fresh_tables dr r t"
  define u where "u = counter_added ?s v"
  define w where "w = on_counters (\<lambda>c. c\<lparr>ct_reserved := ct_reserved c + uint (rr_amount r)\<rparr>) ?s u"
  let ?result = "db_tables (snd (sqlite_reserve_if_allowed lib dr r \<lparr>db_tables = t, db_events = []\<rparr>))"
  obtain s1 where s1: "ss_phase s1 = Expiring [] (ForReserve r e)" "pg_view t (ss_log s1) = v" "runs_to lib dr n k t ?start t s1"
    using cleanup_runs [OF assms(1,2), of "ForReserve r e" dr "rr_now r" lib] by (auto simp: v_def fresh_tables_def)
  obtain s2 where s2: "ss_log s2 = ss_log s1" "runs_to lib dr n k t s1 t s2"
    "ss_phase s2 = (if live_row ?s (key_text r) v = None then Counting r e else Closing)"
    using looks_up [OF assms(1) s1(1), of lib dr t] s1(2) by auto
  have start: "runs_to lib dr n k t ?start t s2" using s1(3) s2(2) by (rule runs_to_trans)
  have there: "counter_find ?s u \<noteq> None" by (simp add: u_def counter_find_added)
  have seq: "tb_sequence u = tb_sequence t" "sequence_next dr u = sequence_next dr v"
    by (simp_all add: u_def v_def fresh_tables_def sequence_next_def)
  have sums: "committed_of ?s u = committed_of ?s v" "reserved_of ?s u = reserved_of ?s v" by (simp_all add: u_def)
  have counted: "\<exists>s3. ss_phase s3 = Raising r e \<and> runs_to lib dr n k t ?start t s3 \<and> pg_view t (ss_log s3) = u"
    if "live_row ?s (key_text r) v = None"
  proof -
    have "ss_phase s2 = Counting r e" using s2(3) that by simp
    from counts [OF assms(1) this, of lib dr t] start show ?thesis
      using runs_to_trans by (fastforce simp: s2(1) s1(2) u_def)
  qed
  have raised: "\<exists>s4. ss_phase s4 = Inserting r e \<and> runs_to lib dr n k t ?start t s4 \<and> pg_view t (ss_log s4) = w"
    if none: "live_row ?s (key_text r) v = None"
      and fits: "committed_of ?s u + reserved_of ?s u + uint (rr_amount r) \<le> uint (rr_effective_limit r)"
  proof -
    obtain s3 where s3: "ss_phase s3 = Raising r e" "runs_to lib dr n k t ?start t s3" "pg_view t (ss_log s3) = u"
      using counted [OF none] by blast
    have "\<not> (i64_max < committed_of ?s u + reserved_of ?s u + uint (rr_amount r) \<and> dr_overflow dr \<noteq> None)"
      using fits assms(3) by (simp add: sql_valid_def)
    from runs_to_trans [OF s3(2) raises(3) [OF assms(1) s3(1,3) there this fits]] s3(3) show ?thesis
      by (intro exI [of _ "written (WRaise (uint (rr_amount r)) ?s) (Inserting r e) s3"])
        (simp add: written_def pg_view_append w_def)
  qed
  have "db_events \<lparr>db_tables = t, db_events = []\<rparr> = []" "tables_wf (db_tables \<lparr>db_tables = t, db_events = []\<rparr>)"
    using assms(2) by simp_all
  then have "runs_to lib dr n k t ?start ?result idle_session"
  proof (cases rule: reserve_calm_cases [where lib = lib and dr = dr and r = r])
    case (refused out)
    with assms(3) show ?thesis by simp
  next
    case (overflow m)
    then obtain s3 where s3: "ss_phase s3 = Raising r e" "runs_to lib dr n k t ?start t s3" "pg_view t (ss_log s3) = u"
      using counted by (auto simp: v_def)
    from overflow have "runs_to lib dr n k t s3 t idle_session"
      by (intro raises(1) [OF assms(1) s3(1,3) there]) (simp_all add: sums, simp_all add: v_def)
    with s3(2) overflow show ?thesis by (auto intro: runs_to_trans)
  next
    case (existing q)
    then have "ss_phase s2 = Closing" using s2(3) by (simp add: v_def)
    then have "runs_to lib dr n k t s2 v idle_session" by (intro runs_to_commit [OF assms(1)]) (simp_all add: s2(1) s1(2))
    with start existing show ?thesis by (auto simp: v_def intro: runs_to_trans)
  next
    case denied
    then obtain s3 where s3: "ss_phase s3 = Raising r e" "runs_to lib dr n k t ?start t s3" "pg_view t (ss_log s3) = u"
      using counted by (auto simp: v_def)
    from denied have "runs_to lib dr n k t s3 u idle_session"
      by (intro raises(2) [OF assms(1) s3(1,3) there]) (simp_all add: sums, simp_all add: v_def sum_overflows_def)
    with s3(2) denied show ?thesis by (auto simp: u_def v_def intro: runs_to_trans)
  next
    case (admitted e' t')
    then obtain s4 where s4: "ss_phase s4 = Inserting r e" "runs_to lib dr n k t ?start t s4" "pg_view t (ss_log s4) = w"
      using raised by (auto simp: v_def u_def)
    have t': "t' = admitted_tables dr ?s (uint (rr_amount r)) e (key_text r) u"
      using admitted(3,4) assms(4) by (simp add: u_def v_def)
    obtain x where "insert_reservation_row dr ?s (uint (rr_amount r)) e (key_text r) u = Inr x"
      using admitted_inserts [OF admitted(5) [unfolded t']] by blast
    then have "runs_to lib dr n k t s4 t' idle_session"
      unfolding t' by (rule inserts(2) [OF assms(1) s4(1) s4(3) [unfolded w_def] seq(1)])
    with s4(2) admitted show ?thesis by (auto intro: runs_to_trans)
  next
    case (conflict e' m)
    then obtain s4 where s4: "ss_phase s4 = Inserting r e" "runs_to lib dr n k t ?start t s4" "pg_view t (ss_log s4) = w"
      using raised by (auto simp: v_def u_def)
    have "insert_reservation_row dr ?s (uint (rr_amount r)) e (key_text r) u = Inl m"
      using conflict(3) by (simp add: u_def v_def insert_reservation_row_def Let_def split: if_splits)
    then have "runs_to lib dr n k t s4 t idle_session"
      by (rule inserts(1) [OF assms(1) s4(1) s4(3) [unfolded w_def] seq(1)])
    with s4(2) conflict(4) show ?thesis by (auto split: option.splits intro: runs_to_trans)
  qed
  then show ?thesis by (simp add: postgres_reserve_same)
qed

section \<open>Every operation\<close>

fun choice_of :: "store_call \<Rightarrow> pg_choice" where
  "choice_of (ReserveCall r) = BeginReserve r"
| "choice_of (CommitCall t rid) = BeginFinish PgCommit t rid"
| "choice_of (RefundCall t rid) = BeginFinish PgRefund t rid"
| "choice_of (UsageCall k w t) = BeginUsage t"

lemma session_runs:
  fixes lib :: "('tz, 'more) chrono_scheme"
  assumes "k < n" "tables_wf t" "pg_begin lib (choice_of c) = Some ss"
  shows "runs_to lib dr n k t ss (db_tables (store_after (postgres_ops lib dr) c \<lparr>db_tables = t, db_events = []\<rparr>)) idle_session"
proof (cases c)
  case (ReserveCall r)
  then obtain e where e: "ch_add lib (rr_now r) (rr_reservation_ttl r) = Some e" "sql_valid lib r"
    "ss = idle_session\<lparr>ss_phase := Selecting (rr_now r) (ForReserve r e) []\<rparr>"
    using assms(3) by (auto simp: pg_begin_def sql_valid_def simp del: reserve_request_validate_Ok
        split: outcome.splits option.splits)
  then show ?thesis using reserve_runs [OF assms(1,2) e(2,1), of dr] ReserveCall by (simp add: postgres_ops_def)
next
  case (CommitCall now rid)
  then obtain i where i: "to_i64 (as_u64 rid) ''reservation id'' = Ok i"
    "ss = idle_session\<lparr>ss_phase := Fetching (as_pg_action FinishCommit) now i\<rparr>"
    using assms(3) by (auto simp: pg_begin_def simp del: to_i64_Ok split: outcome.splits)
  then show ?thesis
    using finish_runs [OF assms(1,2) i(1), of lib dr FinishCommit now] CommitCall by (simp add: postgres_ops_def postgres_commit_def)
next
  case (RefundCall now rid)
  then obtain i where i: "to_i64 (as_u64 rid) ''reservation id'' = Ok i"
    "ss = idle_session\<lparr>ss_phase := Fetching (as_pg_action FinishRefund) now i\<rparr>"
    using assms(3) by (auto simp: pg_begin_def simp del: to_i64_Ok split: outcome.splits)
  then show ?thesis
    using finish_runs [OF assms(1,2) i(1), of lib dr FinishRefund now] RefundCall by (simp add: postgres_ops_def postgres_refund_def)
next
  case (UsageCall key w now)
  have "st_usage (postgres_ops lib dr) key w now \<lparr>db_tables = t, db_events = []\<rparr>
      = sqlite_usage dr key w now \<lparr>db_tables = t, db_events = []\<rparr>"
    unfolding postgres_ops_same by simp
  then have "db_tables (store_after (postgres_ops lib dr) c \<lparr>db_tables = t, db_events = []\<rparr>) = expire_tables dr now t"
    using assms(2) UsageCall by (simp add: usage_calm)
  then show ?thesis using usage_runs [OF assms(1,2), of lib dr now] assms(3) UsageCall by (simp add: pg_begin_def)
qed

lemma session_begins:
  assumes "k < n" "pg_begin lib choice = Some ss"
  shows "pg_move lib dr (k, choice) (alone n k t idle_session) = Some (alone n k t ss)"
proof -
  have "(alone n k t idle_session)\<lparr>pg_tables := t, pg_sessions := (pg_sessions (alone n k t idle_session))[k := ss]\<rparr>
      = alone n k t ss" using alone_simps(5) [OF assms(1)] by blast
  then show ?thesis
    using assms by (cases choice) (simp_all add: pg_move_def Let_def pg_begin_def idle_session_def)
qed

end
