(* ===== verification/Postgres_Progress.thy ===== *)
theory Postgres_Progress
  imports Postgres_Interleaving
begin

text \<open>
  A transaction ends. Every statement of a session lowers a measure of what its transaction has left to
  do, whatever the other sessions do in between; only a row the cleanup locks raises it, by the two
  statements that row then needs, and no row is locked twice. A session that cannot proceed waits for a
  lock of another.
\<close>

section \<open>What a transaction has left\<close>

fun goal_left :: "pg_goal \<Rightarrow> nat" where
  "goal_left (ForReserve r e) = 6"
| "goal_left ForUsage = 2"

fun phase_left :: "pg_phase \<Rightarrow> nat" where
  "phase_left Idle = 0"
| "phase_left (Selecting now goal rows) = 2 * length rows + goal_left goal + 1"
| "phase_left (Expiring rows goal) = 2 * length rows + goal_left goal"
| "phase_left (Marking row rows goal) = 2 * length rows + goal_left goal + 1"
| "phase_left (LookingUp r e) = 5"
| "phase_left (Counting r e) = 4"
| "phase_left (Raising r e) = 3"
| "phase_left (Inserting r e) = 2"
| "phase_left (Fetching action now i) = 4"
| "phase_left (Releasing row) = 3"
| "phase_left (Settling action row) = 3"
| "phase_left (Ending row status) = 2"
| "phase_left Closing = 1"

fun selecting :: "pg_phase \<Rightarrow> bool" where
  "selecting (Selecting now goal rows) \<longleftrightarrow> True"
| "selecting _ \<longleftrightarrow> False"

lemma begin_left:
  assumes "pg_begin lib choice = Some ss"
  shows "phase_left (ss_phase ss) \<le> 7" "ss_rows ss = []"
  using assms by (auto simp: pg_begin_def idle_session_def split: pg_choice.splits outcome.splits option.splits)

lemma cleanup_left:
  "pg_cleanup_statement others ss = Some ss' \<Longrightarrow>
     phase_left (ss_phase ss') < phase_left (ss_phase ss) \<and> \<not> selecting (ss_phase ss')"
  by (auto simp: pg_cleanup_statement_def written_def split: pg_phase.splits list.splits pg_goal.splits if_splits)

lemma finish_left:
  "pg_finish_statement others t ss = Some ss' \<Longrightarrow>
     phase_left (ss_phase ss') < phase_left (ss_phase ss) \<and> \<not> selecting (ss_phase ss')"
  by (auto simp: pg_finish_statement_def written_def idle_session_def split: pg_phase.splits option.splits prod.splits if_splits)

lemma reserve_left:
  "pg_reserve_statement dr others t ss = Some (t', ss') \<Longrightarrow>
     phase_left (ss_phase ss') < phase_left (ss_phase ss) \<and> \<not> selecting (ss_phase ss')"
  by (auto simp: pg_reserve_statement_def Let_def written_def select_idempotent_def
      split: pg_phase.splits option.splits if_splits)

lemma statement_left:
  assumes "pg_statement dr others t ss = Some (t', ss')"
  shows "phase_left (ss_phase ss') < phase_left (ss_phase ss) \<and> \<not> selecting (ss_phase ss')"
proof (cases "ss_phase ss = Closing")
  case True
  with assms show ?thesis by (auto simp: pg_statement_def idle_session_def)
next
  case False
  with assms show ?thesis
    by (auto simp: pg_statement_def split: option.splits dest: cleanup_left finish_left reserve_left)
qed

lemma lock_left:
  assumes "pg_lock_expired dr others t i ss = Some ss'"
  shows "phase_left (ss_phase ss') = phase_left (ss_phase ss) + 2" "selecting (ss_phase ss)"
    and "ss_rows ss' = i # ss_rows ss" "i \<notin> set (ss_rows ss)" "i \<in> rw_id ` set (tb_reservations t)"
  using assms
  by (auto simp: pg_lock_expired_def reservation_find_def split: pg_phase.splits option.splits if_splits dest: find_SomeD)

section \<open>Moves of one session among many\<close>

fun continues :: "pg_choice \<Rightarrow> bool" where
  "continues Proceed \<longleftrightarrow> True"
| "continues (LockRow i) \<longleftrightarrow> True"
| "continues _ \<longleftrightarrow> False"

definition proceeds :: "nat \<Rightarrow> (nat \<times> pg_choice) list \<Rightarrow> nat" where
  "proceeds k ms = length (filter (\<lambda>m. m = (k, Proceed)) ms)"

definition locks_taken :: "nat \<Rightarrow> (nat \<times> pg_choice) list \<Rightarrow> nat" where
  "locks_taken k ms = length (filter (\<lambda>m. fst m = k \<and> snd m \<noteq> Proceed) ms)"

text \<open>What a move does to the session that makes it, to the others, and to the identifiers in the table.\<close>

lemma move_cases:
  assumes "pg_move lib dr (l, choice) g = Some g'"
  obtains t ss where "l < length (pg_sessions g)" "pg_tables g' = t" "pg_sessions g' = (pg_sessions g)[l := ss]"
    and "choice = Proceed \<Longrightarrow> \<exists>others. pg_statement dr others (pg_tables g) (pg_sessions g ! l) = Some (t, ss)"
    and "\<And>i. choice = LockRow i \<Longrightarrow> \<exists>others. pg_lock_expired dr others (pg_tables g) i (pg_sessions g ! l) = Some ss \<and> t = pg_tables g"
    and "choice \<noteq> Proceed \<Longrightarrow> t = pg_tables g"
  using assms by (cases choice) (fastforce simp: pg_move_def Let_def split: if_splits)+

definition row_ids :: "tables \<Rightarrow> int set" where
  "row_ids t = set (map rw_id (tb_reservations t))"

lemma view_ids: "row_ids t \<subseteq> row_ids (pg_view t log)"
proof -
  have "row_ids t \<subseteq> row_ids (apply_write w t)" for w t
  proof -
    have "map rw_id (tb_reservations (apply_write w t)) = map rw_id (tb_reservations t)
        \<or> (\<exists>i. map rw_id (tb_reservations (apply_write w t)) = map rw_id (tb_reservations t) @ [i])"
      by (cases w) simp_all
    then show ?thesis unfolding row_ids_def by (metis Un_upper1 order_refl set_append)
  qed
  then have "row_ids t \<subseteq> row_ids (fold apply_write log t)" for t
    by (induction log arbitrary: t) (simp_all del: apply_write.simps, blast)
  then show ?thesis by (simp add: pg_view_def)
qed

lemma statement_ids: "pg_statement dr others t ss = Some (t', ss') \<Longrightarrow> row_ids t \<subseteq> row_ids t'"
  using view_ids [of t "ss_log ss"]
  by (auto simp: pg_statement_def pg_reserve_statement_def Let_def row_ids_def written_def select_idempotent_def
      split: if_splits option.splits pg_phase.splits)

lemma move_ids:
  assumes "pg_move lib dr m g = Some g'"
  shows "row_ids (pg_tables g) \<subseteq> row_ids (pg_tables g')"
proof -
  obtain l choice where "pg_move lib dr (l, choice) g = Some g'" using assms by (cases m) simp
  then show ?thesis
  proof (cases rule: move_cases)
    case (1 t ss)
    then show ?thesis by (cases "choice = Proceed") (auto dest: statement_ids)
  qed
qed

lemma moves_ids: "pg_moves lib dr ms g = Some g' \<Longrightarrow> row_ids (pg_tables g) \<subseteq> row_ids (pg_tables g')"
  by (induction ms arbitrary: g) (auto split: option.splits dest: move_ids)

lemma move_sessions: "pg_move lib dr m g = Some g' \<Longrightarrow> length (pg_sessions g') = length (pg_sessions g)"
  by (cases m) (auto elim!: move_cases)

lemma moves_sessions: "pg_moves lib dr ms g = Some g' \<Longrightarrow> length (pg_sessions g') = length (pg_sessions g)"
  by (induction ms arbitrary: g) (auto split: option.splits dest: move_sessions)

text \<open>The three ways a move can concern session \<open>k\<close>.\<close>

lemma move_of_session [consumes 3, case_names other proceed lock]:
  assumes "pg_move lib dr m g = Some g'" "k < length (pg_sessions g)" "fst m = k \<longrightarrow> continues (snd m)"
  obtains (other) "fst m \<noteq> k" "pg_sessions g' ! k = pg_sessions g ! k"
  | (proceed) "m = (k, Proceed)" "phase_left (ss_phase (pg_sessions g' ! k)) < phase_left (ss_phase (pg_sessions g ! k))"
      "\<not> selecting (ss_phase (pg_sessions g' ! k))"
  | (lock) i where "m = (k, LockRow i)" "phase_left (ss_phase (pg_sessions g' ! k)) = phase_left (ss_phase (pg_sessions g ! k)) + 2"
      "selecting (ss_phase (pg_sessions g ! k))" "ss_rows (pg_sessions g' ! k) = i # ss_rows (pg_sessions g ! k)"
      "i \<notin> set (ss_rows (pg_sessions g ! k))" "i \<in> row_ids (pg_tables g)"
proof -
  obtain l choice where m: "m = (l, choice)" by fastforce
  from assms(1) [unfolded m] show ?thesis
  proof (cases rule: move_cases)
    case (1 t ss)
    show ?thesis
    proof (cases "l = k")
      case False
      with 1(3) m show ?thesis by (intro other) simp_all
    next
      case True
      then have at: "pg_sessions g' ! k = ss" using 1(1,3) by simp
      from True assms(3) m have "continues choice" by simp
      then consider "choice = Proceed" | i where "choice = LockRow i" by (cases choice) simp_all
      then show ?thesis
      proof cases
        case c: 1
        with 1(4) True obtain others where "pg_statement dr others (pg_tables g) (pg_sessions g ! k) = Some (t, ss)" by blast
        from statement_left [OF this] c True m show ?thesis by (intro proceed) (simp_all add: at)
      next
        case c: (2 i)
        with 1(5) [OF c] True obtain others where "pg_lock_expired dr others (pg_tables g) i (pg_sessions g ! k) = Some ss" by blast
        from lock_left [OF this] c True m show ?thesis by (intro lock [of i]) (simp_all add: at row_ids_def)
      qed
    qed
  qed
qed

lemma moves_left:
  assumes "pg_moves lib dr ms g = Some g'" "k < length (pg_sessions g)" "list_all (\<lambda>m. fst m = k \<longrightarrow> continues (snd m)) ms"
  shows "proceeds k ms + phase_left (ss_phase (pg_sessions g' ! k))
    \<le> phase_left (ss_phase (pg_sessions g ! k)) + 2 * locks_taken k ms"
  using assms
proof (induction ms arbitrary: g)
  case (Cons m ms)
  then obtain g1 where g1: "pg_move lib dr m g = Some g1" "pg_moves lib dr ms g1 = Some g'" by (auto split: option.splits)
  have ih: "proceeds k ms + phase_left (ss_phase (pg_sessions g' ! k))
      \<le> phase_left (ss_phase (pg_sessions g1 ! k)) + 2 * locks_taken k ms"
    using Cons.IH [OF g1(2)] Cons.prems(2,3) move_sessions [OF g1(1)] by simp
  have "fst m = k \<longrightarrow> continues (snd m)" using Cons.prems(3) by simp
  from g1(1) Cons.prems(2) this show ?case
    by (cases rule: move_of_session) (use ih in \<open>auto simp: proceeds_def locks_taken_def\<close>)
qed (simp add: proceeds_def locks_taken_def)

lemma no_more_locks:
  assumes "pg_moves lib dr ms g = Some g'" "k < length (pg_sessions g)" "list_all (\<lambda>m. fst m = k \<longrightarrow> continues (snd m)) ms"
    and "\<not> selecting (ss_phase (pg_sessions g ! k))"
  shows "locks_taken k ms = 0"
  using assms
proof (induction ms arbitrary: g)
  case (Cons m ms)
  then obtain g1 where g1: "pg_move lib dr m g = Some g1" "pg_moves lib dr ms g1 = Some g'" by (auto split: option.splits)
  have len: "k < length (pg_sessions g1)" using move_sessions [OF g1(1)] Cons.prems(2) by simp
  have "fst m = k \<longrightarrow> continues (snd m)" using Cons.prems(3) by simp
  from g1(1) Cons.prems(2) this show ?case
  proof (cases rule: move_of_session)
    case other
    with Cons.IH [OF g1(2) len] Cons.prems(3,4) show ?thesis by (auto simp: locks_taken_def)
  next
    case proceed
    with Cons.IH [OF g1(2) len] Cons.prems(3) show ?thesis by (auto simp: locks_taken_def)
  next
    case (lock i)
    with Cons.prems(4) show ?thesis by simp
  qed
qed (simp add: locks_taken_def)

lemma locks_bounded:
  assumes "pg_moves lib dr ms g = Some g'" "k < length (pg_sessions g)" "list_all (\<lambda>m. fst m = k \<longrightarrow> continues (snd m)) ms"
    and "distinct (ss_rows (pg_sessions g ! k))" "set (ss_rows (pg_sessions g ! k)) \<subseteq> row_ids (pg_tables g)"
  shows "locks_taken k ms + length (ss_rows (pg_sessions g ! k)) \<le> length (tb_reservations (pg_tables g'))"
  using assms
proof (induction ms arbitrary: g)
  case Nil
  then have "length (ss_rows (pg_sessions g ! k)) \<le> card (row_ids (pg_tables g'))"
    by (auto simp: distinct_card [symmetric] row_ids_def intro: card_mono)
  also have "\<dots> \<le> length (tb_reservations (pg_tables g'))"
    using card_length [of "map rw_id (tb_reservations (pg_tables g'))"] by (simp add: row_ids_def)
  finally show ?case by (simp add: locks_taken_def)
next
  case (Cons m ms)
  then obtain g1 where g1: "pg_move lib dr m g = Some g1" "pg_moves lib dr ms g1 = Some g'" by (auto split: option.splits)
  have len: "k < length (pg_sessions g1)" using move_sessions [OF g1(1)] Cons.prems(2) by simp
  have rest: "list_all (\<lambda>m. fst m = k \<longrightarrow> continues (snd m)) ms" using Cons.prems(3) by simp
  have ids: "row_ids (pg_tables g) \<subseteq> row_ids (pg_tables g1)" by (rule move_ids [OF g1(1)])
  have "fst m = k \<longrightarrow> continues (snd m)" using Cons.prems(3) by simp
  from g1(1) Cons.prems(2) this show ?case
  proof (cases rule: move_of_session)
    case other
    with Cons.IH [OF g1(2) len rest] Cons.prems(4,5) ids show ?thesis by (auto simp: locks_taken_def)
  next
    case proceed
    have "locks_taken k (m # ms) = 0"
      using no_more_locks [OF g1(2) len rest proceed(3)] proceed(1) by (simp add: locks_taken_def)
    moreover have "set (ss_rows (pg_sessions g ! k)) \<subseteq> row_ids (pg_tables g')"
      using Cons.prems(5) ids moves_ids [OF g1(2)] by blast
    then have "card (set (ss_rows (pg_sessions g ! k))) \<le> card (row_ids (pg_tables g'))"
      by (intro card_mono) (simp_all add: row_ids_def)
    moreover have "card (row_ids (pg_tables g')) \<le> length (tb_reservations (pg_tables g'))"
      using card_length [of "map rw_id (tb_reservations (pg_tables g'))"] by (simp add: row_ids_def)
    ultimately show ?thesis using distinct_card [OF Cons.prems(4)] by simp
  next
    case (lock i)
    with Cons.IH [OF g1(2) len rest] Cons.prems(4,5) ids show ?thesis by (auto simp: locks_taken_def)
  qed
qed

section \<open>Waiting\<close>

definition holds_lock :: "pg_session \<Rightarrow> bool" where
  "holds_lock ss \<longleftrightarrow> ss_log ss \<noteq> [] \<or> ss_rows ss \<noteq> []"

lemma free_unless_held:
  assumes "\<not> (\<exists>q \<in> set others. holds_lock q)"
  shows "slot_free others s" "row_free others i"
  using assms by (auto simp: slot_free_def row_free_def locks_slot_def holds_lock_def list_ex_iff)

lemma statement_waits:
  assumes "pg_statement dr others t ss = None" "ss_phase ss \<noteq> Idle"
  shows "\<exists>q \<in> set others. holds_lock q"
proof (rule ccontr)
  assume "\<not> ?thesis"
  note free = free_unless_held [OF this]
  show False
    using assms
    by (cases "ss_phase ss")
      (auto simp: free pg_statement_def pg_cleanup_statement_def pg_finish_statement_def pg_reserve_statement_def Let_def
        select_idempotent_def split: option.splits list.splits pg_goal.splits if_splits prod.splits)
qed

lemma other_position:
  assumes "q \<in> set (take k xs @ drop (Suc k) xs)"
  shows "\<exists>l < length xs. l \<noteq> k \<and> xs ! l = q"
proof -
  from assms consider "q \<in> set (take k xs)" | "q \<in> set (drop (Suc k) xs)" by auto
  then show ?thesis
  proof cases
    case 1
    then obtain l where "l < k" "l < length xs" "xs ! l = q" by (auto simp: in_set_conv_nth)
    then show ?thesis by blast
  next
    case 2
    then obtain l where "l < length (drop (Suc k) xs)" "drop (Suc k) xs ! l = q" unfolding in_set_conv_nth by blast
    then show ?thesis by (intro exI [of _ "Suc k + l"]) simp
  qed
qed

lemma move_waits:
  assumes "k < length (pg_sessions g)" "pg_move lib dr (k, Proceed) g = None" "ss_phase (pg_sessions g ! k) \<noteq> Idle"
  shows "\<exists>l < length (pg_sessions g). l \<noteq> k \<and> holds_lock (pg_sessions g ! l)"
proof -
  let ?others = "take k (pg_sessions g) @ drop (Suc k) (pg_sessions g)"
  have "pg_statement dr ?others (pg_tables g) (pg_sessions g ! k) = None"
    using assms(1,2) by (simp add: pg_move_def Let_def)
  from statement_waits [OF this assms(3)] obtain q where "q \<in> set ?others" "holds_lock q" by blast
  then show ?thesis using other_position [of q k "pg_sessions g"] by blast
qed

text \<open>The first move of a transaction.\<close>

lemma begin_move:
  assumes "pg_move lib dr (k, choice) g = Some g'" "pg_begin lib choice \<noteq> None"
  shows "k < length (pg_sessions g')" "phase_left (ss_phase (pg_sessions g' ! k)) \<le> 7" "ss_rows (pg_sessions g' ! k) = []"
proof -
  obtain ss where ss: "pg_begin lib choice = Some ss" using assms(2) by blast
  then have "k < length (pg_sessions g)" "pg_sessions g' = (pg_sessions g)[k := ss]"
    using assms(1) by (cases choice; auto simp: pg_move_def Let_def pg_begin_def split: if_splits)+
  with begin_left [OF ss] show "k < length (pg_sessions g')" "phase_left (ss_phase (pg_sessions g' ! k)) \<le> 7"
    "ss_rows (pg_sessions g' ! k) = []" by simp_all
qed

lemma transaction_bounded:
  assumes "pg_moves lib dr ((k, choice) # ms) g = Some g'" "pg_begin lib choice \<noteq> None"
    and "list_all (\<lambda>m. fst m = k \<longrightarrow> continues (snd m)) ms"
  shows "k < length (pg_sessions g')" "proceeds k ms \<le> 7 + 2 * length (tb_reservations (pg_tables g'))"
proof -
  obtain g1 where g1: "pg_move lib dr (k, choice) g = Some g1" "pg_moves lib dr ms g1 = Some g'"
    using assms(1) by (auto split: option.splits)
  note first = begin_move [OF g1(1) assms(2)]
  have "locks_taken k ms \<le> length (tb_reservations (pg_tables g'))"
    using locks_bounded [OF g1(2) first(1) assms(3)] first(3) by simp
  then show "proceeds k ms \<le> 7 + 2 * length (tb_reservations (pg_tables g'))"
    using moves_left [OF g1(2) first(1) assms(3)] first(2) by simp
  show "k < length (pg_sessions g')" using moves_sessions [OF g1(2)] first(1) by simp
qed

end
