(* ===== verification/Sql_Properties.thy ===== *)
theory Sql_Properties
  imports Fixtures Sqlite_Ledger Postgres_Alone Postgres_Progress
begin

text \<open>
  What the SQL stores promise, and where they depart from the in-memory store and from each other.
\<close>

section \<open>Fixtures\<close>

text \<open>A driver that keeps instants exactly and compares them as instants.\<close>

definition demo_driver :: sql_driver where
  "demo_driver =
     \<lparr>dr_time = (\<lambda>t. t), dr_not_after = (\<lambda>a b. a \<le> b), dr_skipped = (\<lambda>n. 0),
      dr_duplicate = ''UNIQUE constraint failed'', dr_exhausted = ''database or disk is full'', dr_overflow = None\<rparr>"

definition demo_sql_warden :: "fail_mode \<Rightarrow> database budget_warden" where
  "demo_sql_warden mode =
     \<lparr>wd_store = sqlite_ops utc_chrono demo_driver,
      wd_policies = [(demo_policy HardLimitOnly)\<lparr>bp_fail_mode := mode\<rparr>], wd_clock = system_clock,
      wd_reservation_ttl = default_reservation_ttl\<rparr>"

definition demo_sql_builder :: "fail_mode \<Rightarrow> database warden_builder" where
  "demo_sql_builder mode =
     \<lparr>wbd_store = Some (sqlite_ops utc_chrono demo_driver),
      wbd_policies = [(demo_policy HardLimitOnly)\<lparr>bp_fail_mode := mode\<rparr>], wbd_clock = None,
      wbd_reservation_ttl = None\<rparr>"

lemma demo_sql_warden_built: "warden_build (demo_sql_builder mode) = Ok (demo_sql_warden mode)"
  by (simp add: warden_build_def demo_sql_builder_def demo_sql_warden_def registry_new_def unwrap_or_def
      default_reservation_ttl_def duration_defs)

text \<open>The database after one reservation of three units under a key.\<close>

definition demo_database :: database where
  "demo_database = store_after (sqlite_ops utc_chrono demo_driver)
     (ReserveCall (demo_reserve 3 10 (Some (IdempotencyKey ''a'')))) (empty_database [])"

lemma demo_database_up: "sql_up demo_database"
proof -
  have "sql_up (empty_database [])" by (simp add: sql_up_def, simp add: empty_database_def)
  from sql_up_keeps(2) [OF this] show ?thesis by (simp add: demo_database_def)
qed

section \<open>Safety\<close>

text \<open>C2: no interleaving of operations on one warden over an SQL store takes a counter of a policy
  above its hard limit, whatever calls to the database fail or lose their reply, as long as no policy
  name holds a colon.\<close>

theorem sql_hard_limit:
  assumes "warden_build b = Ok wd" "wbd_store b = Some ops"
    and store: "ops = sqlite_ops lib dr \<or> ops = postgres_ops lib dr"
    and "list_all (\<lambda>p. colon_free (bp_name p)) (wbd_policies b)"
    and "(broker_step lib wd)\<^sup>*\<^sup>* (run_start (empty_database events)) st"
    and "p \<in> set (wbd_policies b)"
  shows "sql_level (run_store st) (sql_slot dr (policy_store_key p k) w) \<le> unat (bp_hard_limit p)"
proof -
  have wd: "wd_store wd = sqlite_ops lib dr" "warden_wf wd"
    "list_all (\<lambda>p. colon_free (bp_name p)) (wd_policies wd)" "wd_policies wd = wbd_policies b"
    using assms(1,2,4) store by (auto elim!: warden_build_OkE simp: list_all_iff postgres_ops_same)
  have "run_ok (sqlite_ops lib dr) sql_wf (sql_slot dr) sql_level (\<lambda>_. True) wd st"
    by (rule sqlite_runs.run_inv [OF assms(5) sqlite_run_start_ok [OF wd(1-3)]])
  with assms(6) wd(4) show ?thesis by (simp add: run_ok_def within_limits_def)
qed

theorem sql_hard_limit_witness:
  "case race (demo_sql_warden Closed) (empty_database (replicate 14 Works @ [ReplyLost ''timeout''])) 6 4 of
     None \<Rightarrow> False
   | Some st \<Rightarrow> sql_level (run_store st) (sql_slot demo_driver (policy_store_key (demo_policy HardLimitOnly) demo_key) demo_window) \<le> 10
       \<and> list_all (\<lambda>v. rs_amount v = 4) (run_handles st)"
proof -
  let ?b = "demo_sql_builder Closed" and ?wd = "demo_sql_warden Closed"
  let ?es = "replicate 14 Works @ [ReplyLost ''timeout'']"
  have "race ?wd (empty_database ?es) 6 4 \<noteq> None" by code_simp
  then obtain st where st: "race ?wd (empty_database ?es) 6 4 = Some st" by blast
  have "case race ?wd (empty_database ?es) 6 4 of Some st \<Rightarrow> list_all (\<lambda>v. rs_amount v = 4) (run_handles st) | None \<Rightarrow> False"
    by code_simp
  moreover have "list_all (\<lambda>p. colon_free (bp_name p)) (wbd_policies ?b)"
    by (simp add: demo_sql_builder_def demo_policy_def u64_max_def)
  from sql_hard_limit [OF demo_sql_warden_built _ _ this race_runs [OF st], of "sqlite_ops utc_chrono demo_driver"]
  have "sql_level (run_store st) (sql_slot demo_driver (policy_store_key (demo_policy HardLimitOnly) demo_key) demo_window) \<le> 10"
    by (simp add: demo_sql_builder_def policy_store_key_def demo_policy_def)
  ultimately show ?thesis using st by simp
qed

section \<open>Interleaved statements\<close>

text \<open>C3: on PostgreSQL, where the statements of concurrent transactions interleave under row locks, no
  interleaving of reserves, commits, refunds and usage queries, aborted anywhere, takes a committed counter
  above its limit, and every committed counter equals the units of its active and committed reservations,
  as long as every reserve on a counter asks for at most that limit.\<close>

theorem postgres_interleavings_safe:
  fixes limit :: "slot \<Rightarrow> nat"
  assumes "pg_moves lib dr ms (pg_start n) = Some g" "list_all (choice_within (\<lambda>s. int (limit s)) dr) ms"
  shows "tables_level (pg_tables g) s \<le> limit s
    \<and> reserved_of s (pg_tables g) = units_with ''active'' s (pg_tables g)
    \<and> committed_of s (pg_tables g) = units_with ''committed'' s (pg_tables g)"
proof -
  have "pg_ok (\<lambda>s. int (limit s)) dr g"
    by (rule pg_moves_ok [OF assms pg_start_ok]) simp
  from pg_okD(1) [OF this, of s] show ?thesis
    by (auto simp: slot_held_def tables_level_def nat_le_iff)
qed

text \<open>Two sessions reserve six units each; the second waits for the first one's counter and is denied.\<close>

definition demo_schedule :: "(nat \<times> pg_choice) list" where
  "demo_schedule =
     [(0, BeginReserve (demo_reserve 6 10 None)), (1, BeginReserve (demo_reserve 6 10 None)),
      (0, Proceed), (1, Proceed), (0, Proceed), (1, Proceed), (0, Proceed), (0, Proceed), (0, Proceed), (0, Proceed),
      (1, Proceed), (1, Proceed), (1, Proceed)]"

theorem postgres_interleavings_safe_witness:
  "case pg_moves utc_chrono demo_driver demo_schedule (pg_start 2) of
     None \<Rightarrow> False
   | Some g \<Rightarrow> tables_level (pg_tables g) (request_slot demo_driver (demo_reserve 6 10 None)) \<le> 10
       \<and> length (tb_reservations (pg_tables g)) = 1"
proof -
  have "case pg_moves utc_chrono demo_driver demo_schedule (pg_start 2) of
      None \<Rightarrow> False | Some g \<Rightarrow> length (tb_reservations (pg_tables g)) = 1" by code_simp
  then obtain g where g: "pg_moves utc_chrono demo_driver demo_schedule (pg_start 2) = Some g"
    "length (tb_reservations (pg_tables g)) = 1" by (auto split: option.splits)
  have "list_all (choice_within (\<lambda>s. int 10) demo_driver) demo_schedule"
    by (simp add: demo_schedule_def choice_within_def request_within_def demo_reserve_def)
  from postgres_interleavings_safe [OF g(1) this] g show ?thesis by simp
qed

text \<open>C5: a transaction on PostgreSQL ends, however the statements of other sessions interleave with it: it
  makes at most seven steps and two for every row of the reservation table, and whenever it can make none
  it has ended or another session holds a lock.\<close>

theorem postgres_transaction_ends:
  assumes "pg_moves lib dr ((k, choice) # ms) g = Some g'" "pg_begin lib choice \<noteq> None"
    and "list_all (\<lambda>m. fst m = k \<longrightarrow> continues (snd m)) ms"
  shows "proceeds k ms \<le> 7 + 2 * length (tb_reservations (pg_tables g'))
    \<and> (ss_phase (pg_sessions g' ! k) = Idle \<or> pg_move lib dr (k, Proceed) g' \<noteq> None
       \<or> (\<exists>l < length (pg_sessions g'). l \<noteq> k \<and> holds_lock (pg_sessions g' ! l)))"
  using transaction_bounded [OF assms] move_waits by blast

theorem postgres_transaction_ends_witness:
  "case pg_moves utc_chrono demo_driver demo_schedule (pg_start 2) of
     None \<Rightarrow> False
   | Some g \<Rightarrow> proceeds 0 (tl demo_schedule) \<le> 7 + 2 * length (tb_reservations (pg_tables g)) \<and>
       proceeds 0 (tl demo_schedule) = 6"
proof -
  let ?first = "BeginReserve (demo_reserve 6 10 None)"
  have "case pg_moves utc_chrono demo_driver demo_schedule (pg_start 2) of
      None \<Rightarrow> False | Some g \<Rightarrow> True" by code_simp
  then obtain g where g: "pg_moves utc_chrono demo_driver demo_schedule (pg_start 2) = Some g"
    by (auto split: option.splits)
  then have "pg_moves utc_chrono demo_driver ((0, ?first) # tl demo_schedule) (pg_start 2) = Some g"
    by (simp add: demo_schedule_def)
  moreover have "pg_begin utc_chrono ?first \<noteq> None" by code_simp
  moreover have "list_all (\<lambda>m. fst m = 0 \<longrightarrow> continues (snd m)) (tl demo_schedule)"
    by (simp add: demo_schedule_def)
  ultimately have "proceeds 0 (tl demo_schedule) \<le> 7 + 2 * length (tb_reservations (pg_tables g))"
    using postgres_transaction_ends [of utc_chrono demo_driver 0 ?first "tl demo_schedule" "pg_start 2" g] by blast
  with g show ?thesis by (simp add: proceeds_def demo_schedule_def)
qed

text \<open>C4: while the other sessions are idle, a PostgreSQL session that begins an operation can run it to its
  commit, and it then leaves exactly the tables the operation of the store leaves in one step: the
  statements that interleave above are those of the store.\<close>

theorem postgres_session_runs_operation:
  fixes lib :: "('tz, 'more) chrono_scheme"
  assumes "tables_wf t" "k < n" "pg_begin lib (choice_of c) = Some ss"
  shows "\<exists>ms. list_all (\<lambda>m. fst m = k \<and> snd m \<noteq> Abort) ms \<and>
    pg_moves lib dr ((k, choice_of c) # ms) \<lparr>pg_tables = t, pg_sessions = replicate n idle_session\<rparr> =
      Some \<lparr>pg_tables = db_tables (store_after (postgres_ops lib dr) c \<lparr>db_tables = t, db_events = []\<rparr>),
            pg_sessions = replicate n idle_session\<rparr>"
proof -
  have idle: "\<lparr>pg_tables = t, pg_sessions = replicate n idle_session\<rparr> = alone n k t idle_session" for t
    by (metis alone_def assms(2) length_replicate list_update_id nth_replicate)
  obtain ms where "list_all (\<lambda>m. fst m = k \<and> snd m \<noteq> Abort) ms"
    "pg_moves lib dr ms (alone n k t ss) = Some (alone n k
      (db_tables (store_after (postgres_ops lib dr) c \<lparr>db_tables = t, db_events = []\<rparr>)) idle_session)"
    using session_runs [OF assms(2,1,3), of dr] unfolding runs_to_def by blast
  then show ?thesis
    using session_begins [OF assms(2,3), of dr t] by (intro exI [of _ ms]) (simp add: idle)
qed

theorem postgres_session_runs_operation_witness:
  "\<exists>ms. list_all (\<lambda>m. fst m = 1 \<and> snd m \<noteq> Abort) ms \<and>
    pg_moves utc_chrono demo_driver ((1, choice_of (CommitCall demo_now (ReservationId 1))) # ms)
      \<lparr>pg_tables = db_tables demo_database, pg_sessions = replicate 2 idle_session\<rparr> =
      Some \<lparr>pg_tables = db_tables (store_after (postgres_ops utc_chrono demo_driver) (CommitCall demo_now (ReservationId 1))
              \<lparr>db_tables = db_tables demo_database, db_events = []\<rparr>),
            pg_sessions = replicate 2 idle_session\<rparr>"
proof (rule postgres_session_runs_operation)
  show "tables_wf (db_tables demo_database)" using demo_database_up by (simp add: sql_up_def sql_wf_def)
  show "(1 :: nat) < 2" by simp
  show "pg_begin utc_chrono (choice_of (CommitCall demo_now (ReservationId 1))) =
      Some (idle_session\<lparr>ss_phase := Fetching PgCommit demo_now 1\<rparr>)" by code_simp
qed

section \<open>Transactions\<close>

lemma atomic_call_result:
  "atomic_call f \<Longrightarrow>
     fst (f d) = fst (f (d\<lparr>db_events := []\<rparr>)) \<and> db_tables (snd (f d)) = db_tables (snd (f (d\<lparr>db_events := []\<rparr>)))
   \<or> (\<exists>m. fst (f d) = Err m) \<and> db_tables (snd (f d)) \<in> {db_tables d, db_tables (snd (f (d\<lparr>db_events := []\<rparr>)))}"
  by (simp add: atomic_call_def Let_def)

text \<open>C11: every operation of the SQL stores is all or nothing: however the calls to the database fail within it, it
  answers and leaves the tables as it would on a working database, or it answers with an error and
  leaves them as they were or as it would on a working database.\<close>

theorem sql_all_or_nothing:
  fixes c :: store_call and ops :: "database store_ops" and d :: database
  assumes store: "ops = sqlite_ops lib dr \<or> ops = postgres_ops lib dr"
  defines "h \<equiv> d\<lparr>db_events := []\<rparr>"
  shows "store_reply_to ops c d = store_reply_to ops c h
      \<and> db_tables (store_after ops c d) = db_tables (store_after ops c h)
    \<or> reply_failed (store_reply_to ops c d)
      \<and> db_tables (store_after ops c d) \<in> {db_tables d, db_tables (store_after ops c h)}"
proof -
  have ops_def: "ops = sqlite_ops lib dr" using store by (auto simp: postgres_ops_same)
  show ?thesis
  proof (cases c)
  case (ReserveCall r)
  then show ?thesis
    using atomic_call_result [OF atomic_sqlite_reserve, of lib dr r d] by (auto simp: ops_def h_def)
next
  case (CommitCall t rid)
  then show ?thesis
    using atomic_call_result [OF atomic_sqlite_finish, of t FinishCommit rid d]
    by (auto simp: ops_def h_def sqlite_commit_def)
next
  case (RefundCall t rid)
  then show ?thesis
    using atomic_call_result [OF atomic_sqlite_finish, of t FinishRefund rid d]
    by (auto simp: ops_def h_def sqlite_refund_def)
next
  case (UsageCall k w t)
  then show ?thesis
    using atomic_call_result [OF atomic_sqlite_usage, of dr k w t d] by (auto simp: ops_def h_def)
  qed
qed

theorem sql_all_or_nothing_witness:
  "reply_failed (store_reply_to (postgres_ops utc_chrono demo_driver) (ReserveCall (demo_reserve 3 10 None))
      (demo_database\<lparr>db_events := replicate 6 Works @ [ReplyLost ''timeout'']\<rparr>))
   \<and> db_tables (store_after (postgres_ops utc_chrono demo_driver) (ReserveCall (demo_reserve 3 10 None))
        (demo_database\<lparr>db_events := replicate 6 Works @ [ReplyLost ''timeout'']\<rparr>))
      \<in> {db_tables demo_database,
         db_tables (store_after (postgres_ops utc_chrono demo_driver) (ReserveCall (demo_reserve 3 10 None))
           (demo_database\<lparr>db_events := []\<rparr>))}"
proof -
  let ?ops = "postgres_ops utc_chrono demo_driver" and ?c = "ReserveCall (demo_reserve 3 10 None)"
  let ?d = "demo_database\<lparr>db_events := replicate 6 Works @ [ReplyLost ''timeout'']\<rparr>"
  have "reply_failed (store_reply_to ?ops ?c ?d)" by code_simp
  moreover have "\<not> reply_failed (store_reply_to ?ops ?c (demo_database\<lparr>db_events := []\<rparr>))" by code_simp
  moreover from sql_all_or_nothing [of ?ops utc_chrono demo_driver ?c ?d]
  have "store_reply_to ?ops ?c ?d = store_reply_to ?ops ?c (demo_database\<lparr>db_events := []\<rparr>)
      \<or> db_tables (store_after ?ops ?c ?d) \<in> {db_tables demo_database, db_tables (store_after ?ops ?c (demo_database\<lparr>db_events := []\<rparr>))}"
    by auto
  ultimately show ?thesis by auto
qed

text \<open>C13: whatever is called and whatever fails, the tables keep the schema's types: keys and the unique
  index hold, amounts are positive, statuses are among the four, and every counter holds the units of
  its active and committed reservations, within 64 bits.\<close>

theorem sql_tables_well_formed:
  "tables_wf (db_tables (fold (store_after (sqlite_ops lib dr)) cs (empty_database events)))
   \<and> tables_wf (db_tables (fold (store_after (postgres_ops lib dr)) cs (empty_database events)))"
proof -
  have "sql_wf (store_after (sqlite_ops lib dr) c d)" if "sql_wf d" for c d
    using that by (cases c) (simp_all add: sqlite_usage_wf_level sqlite_commit_def sqlite_refund_def
        sqlite_finish_wf_level sqlite_reserve_wf_level [THEN conjunct1])
  then have "sql_wf d \<Longrightarrow> sql_wf (fold (store_after (sqlite_ops lib dr)) cs d)" for d
    by (induction cs arbitrary: d) simp_all
  then show ?thesis by (simp add: sql_wf_def [symmetric] postgres_ops_same)
qed

section \<open>The same store as the in-memory one\<close>

text \<open>C9: over a driver that stores instants exactly, the SQLite store gives the same replies as the
  in-memory store, errors and usages included, to every sequence of calls in the order of their
  instants, with numbers a database integer holds, keys without colons and with plain units, so that
  their text determines them, and no idempotency key of a refunded or expired reservation.\<close>

theorem sqlite_agrees_with_memory:
  assumes "exact_driver dr" "list_all (sql_exact_call lib) cs" "sorted (map call_time cs)"
    and "int (length cs) \<le> i64_max" "keys_usable lib cs memory_store_new"
  shows "store_replies (sqlite_ops lib dr) cs (empty_database []) =
    store_replies (memory_ops lib) cs memory_store_new"
proof -
  have "sql_up (empty_database [])" by (simp add: sql_up_def, simp add: empty_database_def)
  moreover have "list_all (\<lambda>c. call_time (hd cs) \<le> call_time c) cs"
    using assms(3) by (cases cs) (auto simp: list_all_iff)
  moreover have exact: "list_all exact_call cs"
    using assms(2) sql_exact_is_exact by (auto simp: list_all_iff)
  ultimately have "store_replies (sqlite_ops lib dr) cs (empty_database []) = store_replies (ledger_ops lib) cs ledger_new"
    using assms(2-5) ledger_keys_usable_abs [OF mem_wf_new exact, of lib]
    by (intro sqlite_ledger_replies [OF assms(1) _ follows_empty]) (simp_all add: empty_database_def empty_tables_def)
  then show ?thesis using ledger_calls_abs [OF mem_wf_new exact, of lib] by simp
qed

definition demo_calls :: "store_call list" where
  "demo_calls =
     [ReserveCall (demo_reserve 3 10 (Some (IdempotencyKey ''a''))),
      ReserveCall (demo_reserve 5 10 (Some (IdempotencyKey ''a''))),
      ReserveCall (demo_reserve 6 10 None), ReserveCall (demo_reserve 6 10 None),
      CommitCall demo_now (ReservationId 1), RefundCall demo_now (ReservationId 7),
      CommitCall (demo_now + duration_minutes 5) (ReservationId 2),
      UsageCall demo_store_key demo_window (demo_now + duration_minutes 6)]"

theorem sqlite_agrees_with_memory_witness:
  "store_replies (sqlite_ops utc_chrono demo_driver) demo_calls (empty_database []) =
    store_replies (memory_ops utc_chrono) demo_calls memory_store_new"
proof (rule sqlite_agrees_with_memory)
  show "exact_driver demo_driver" by (simp add: exact_driver_def demo_driver_def)
  show "list_all (sql_exact_call utc_chrono) demo_calls" by code_simp
  show "sorted (map call_time demo_calls)" by code_simp
  show "int (length demo_calls) \<le> i64_max" by code_simp
  show "keys_usable utc_chrono demo_calls memory_store_new" by code_simp
qed

text \<open>C10: two wardens of one setup, one over the SQLite store, whose driver stores instants exactly, and one
  over the in-memory store, return the same decisions, reservations, snapshots, reports, errors and
  telemetry to every sequence of operations in the order of their instants, with numbers a database
  integer holds, policy names and key components without colons, plain units and no idempotency keys.\<close>

theorem sqlite_warden_agrees:
  assumes "exact_driver dr" "same_setup wd wd'" "wd_store wd = sqlite_ops lib dr" "wd_store wd' = memory_ops lib"
    and "list_all (sql_exact_op lib wd) xs" "sorted (map (op_time wd) xs)" "int (length xs) \<le> i64_max"
  shows "broker_replies lib wd xs (empty_database []) = broker_replies lib wd' xs memory_store_new"
proof (rule sqlite_memory.replies_agree [OF assms(2-4)])
  show "sql_memory_related dr (length xs) (op_time wd (hd xs)) (empty_database []) memory_store_new"
    by (rule sql_memory_start [OF assms(1,7)])
  show "list_all (\<lambda>x. op_time wd (hd xs) \<le> op_time wd x) xs"
    using assms(6) by (cases xs) (auto simp: list_all_iff)
  show "list_all (op_fits wd separable (\<lambda>rid. uint (as_u64 rid) \<le> i64_max) (sql_exact_request lib)) xs"
    using assms(5) sql_exact_op_fits by (auto simp: list_all_iff)
qed (rule assms(6))

definition demo_ops :: "broker_op list" where
  "demo_ops =
     [DoReserve demo_now (demo_request 6 Normal None), DoReserve demo_now (demo_request 6 Normal None),
      DoCommit demo_now (budget_reservation_new (ReservationId 1) ''daily'' demo_key 6 Requests demo_now),
      DoAuthorize (demo_now + duration_minutes 1) (demo_request 4 Normal None),
      DoRefund (demo_now + duration_minutes 1)
        (budget_reservation_new (ReservationId 9) ''daily'' demo_key 6 Requests demo_now),
      DoReport (demo_now + duration_minutes 6)]"

theorem sqlite_warden_agrees_witness:
  "broker_replies utc_chrono (demo_sql_warden Closed) demo_ops (empty_database []) =
    broker_replies utc_chrono (demo_warden HardLimitOnly) demo_ops memory_store_new"
proof (rule sqlite_warden_agrees)
  show "exact_driver demo_driver" by (simp add: exact_driver_def demo_driver_def)
  show "same_setup (demo_sql_warden Closed) (demo_warden HardLimitOnly)"
    by (simp add: same_setup_def demo_sql_warden_def demo_warden_def demo_policy_def)
  show "wd_store (demo_sql_warden Closed) = sqlite_ops utc_chrono demo_driver" by (simp add: demo_sql_warden_def)
  show "wd_store (demo_warden HardLimitOnly) = memory_ops utc_chrono" by (simp add: demo_warden_def)
  show "list_all (sql_exact_op utc_chrono (demo_sql_warden Closed)) demo_ops" by code_simp
  show "sorted (map (op_time (demo_sql_warden Closed)) demo_ops)" by code_simp
  show "int (length demo_ops) \<le> i64_max" by code_simp
qed

section \<open>Idempotency keys\<close>

text \<open>C18: on a working database, a reservation that fits is answered, when its idempotency key belongs to a reservation that was
  refunded or has expired, with an error of the unique index, or, when the expiry has not been recorded
  yet, with the expired reservation as if it were live; the tables do not change.\<close>

theorem sqlite_reused_key:
  assumes "sql_up d" "sql_valid lib r" "sequence_next dr (db_tables d) \<le> i64_max"
    and "q \<in> set (tb_reservations (db_tables d))" "rw_slot q = request_slot dr r"
    and "rw_idempotency_key q = key_text r" "rw_idempotency_key q \<noteq> None"
    and "rw_status (expire_row dr (rr_now r) q) \<in> {''refunded'', ''expired''}"
    and "tables_level (expire_tables dr (rr_now r) (db_tables d)) (request_slot dr r) + unat (rr_amount r)
        \<le> unat (rr_effective_limit r)"
  shows "sqlite_reserve_if_allowed lib dr r d =
    (if rw_status q = ''active'' then Ok (replay_row (request_slot dr r) (db_tables d) q)
     else Err (sql_error (dr_duplicate dr)), d)"
  using assms(1,8) by (intro reserve_key_taken assms(2-7) assms(9) [folded fresh_tables_def])
    (auto simp: sql_up_def sql_wf_def)

definition demo_late_request :: reserve_request where
  "demo_late_request =
     (demo_reserve 3 10 (Some (IdempotencyKey ''a'')))\<lparr>rr_now := demo_now + duration_minutes 6\<rparr>"

theorem sqlite_reused_key_witness:
  "case sqlite_reserve_if_allowed utc_chrono demo_driver demo_late_request demo_database of
     (Ok x, d) \<Rightarrow> srr_allowed x \<and> d = demo_database
       \<and> (case srr_reservation x of None \<Rightarrow> False | Some v \<Rightarrow> sr_expires_at v \<le> rr_now demo_late_request)
   | _ \<Rightarrow> False"
proof -
  let ?q = "hd (tb_reservations (db_tables demo_database))"
  have *: "sql_valid utc_chrono demo_late_request"
    "sequence_next demo_driver (db_tables demo_database) \<le> i64_max"
    "?q \<in> set (tb_reservations (db_tables demo_database))"
    "rw_slot ?q = request_slot demo_driver demo_late_request"
    "rw_idempotency_key ?q = key_text demo_late_request" "rw_idempotency_key ?q \<noteq> None"
    "rw_status (expire_row demo_driver (rr_now demo_late_request) ?q) \<in> {''refunded'', ''expired''}"
    "tables_level (expire_tables demo_driver (rr_now demo_late_request) (db_tables demo_database))
       (request_slot demo_driver demo_late_request) + unat (rr_amount demo_late_request)
     \<le> unat (rr_effective_limit demo_late_request)"
    by code_simp+
  have "rw_status ?q = ''active''" "rw_expires_at ?q \<le> rr_now demo_late_request" by code_simp+
  then show ?thesis
    using sqlite_reused_key [OF demo_database_up *]
    by (simp add: replay_row_def srr_allow_def store_reservation_new_def)
qed






section \<open>Where the two databases differ\<close>

text \<open>C20: when the units of a counter and an amount, both in the range of a database integer, leave it
  together, on a working database and with no live reservation under the key of the request, SQLite denies
  the request, recording the expiry of rows and at most an empty counter, while PostgreSQL raises an
  error, which a fail-open policy turns into a permission, and leaves the tables as they were.\<close>

theorem bigint_overflow_differs:
  assumes "sql_up d" "sql_valid lib r"
    and "live_row (request_slot dr r) (key_text r) (fresh_tables dr r (db_tables d)) = None"
    and over: "i64_max < committed_of (request_slot dr r) (fresh_tables dr r (db_tables d))
      + reserved_of (request_slot dr r) (fresh_tables dr r (db_tables d)) + uint (rr_amount r)"
  shows "postgres_reserve_if_allowed lib (dr\<lparr>dr_overflow := Some m\<rparr>) r d = (Err (StOther m), d)
    \<and> sqlite_reserve_if_allowed lib (dr\<lparr>dr_overflow := None\<rparr>) r d =
        (Ok (srr_deny (usage_at (request_slot dr r) (fresh_tables dr r (db_tables d)))),
         \<lparr>db_tables = counter_added (request_slot dr r) (fresh_tables dr r (db_tables d)), db_events = []\<rparr>)"
proof -
  let ?s = "request_slot dr r" and ?t = "fresh_tables dr r (db_tables d)"
  have 0: "db_events d = []" "tables_wf (db_tables d)" using assms(1) by (simp_all add: sql_up_def sql_wf_def)
  have limit: "uint (rr_effective_limit r) \<le> i64_max" using assms(2) by (simp add: sql_valid_def)
  have same: "request_slot (dr\<lparr>dr_overflow := o'\<rparr>) r = ?s" "fresh_tables (dr\<lparr>dr_overflow := o'\<rparr>) r = fresh_tables dr r" for o'
    by (simp_all add: request_slot_def bind_slot_def fresh_tables_def expire_tables_def expired_rows_def fun_eq_iff)
  have "sqlite_reserve_if_allowed lib (dr\<lparr>dr_overflow := Some m\<rparr>) r d = (Err (StOther m), d)"
    using 0 proof (cases rule: reserve_calm_cases [where lib = lib and dr = "dr\<lparr>dr_overflow := Some m\<rparr>" and r = r])
    case (overflow m')
    then show ?thesis by (simp add: sql_error_def)
  qed (use over limit assms(2,3) in \<open>auto simp: same sum_overflows_def\<close>)
  moreover have "sqlite_reserve_if_allowed lib (dr\<lparr>dr_overflow := None\<rparr>) r d =
      (Ok (srr_deny (usage_at ?s ?t)), \<lparr>db_tables = counter_added ?s ?t, db_events = []\<rparr>)"
    using 0 by (cases rule: reserve_calm_cases [where lib = lib and dr = "dr\<lparr>dr_overflow := None\<rparr>" and r = r])
      (use over limit assms(2,3) in \<open>auto simp: same sum_overflows_def\<close>)
  ultimately show ?thesis
    by (simp add: postgres_reserve_same)
qed

definition demo_huge_request :: reserve_request where
  "demo_huge_request =
     (demo_reserve 9223372036854775806 10 None)\<lparr>rr_hard_limit := 9223372036854775807,
        rr_effective_limit := 9223372036854775807\<rparr>"

theorem bigint_overflow_differs_witness:
  "postgres_reserve_if_allowed utc_chrono (demo_driver\<lparr>dr_overflow := Some ''bigint out of range''\<rparr>)
      demo_huge_request demo_database = (Err (StOther ''bigint out of range''), demo_database)"
proof -
  have "sql_valid utc_chrono demo_huge_request"
    "live_row (request_slot demo_driver demo_huge_request) (key_text demo_huge_request)
      (fresh_tables demo_driver demo_huge_request (db_tables demo_database)) = None"
    "i64_max < committed_of (request_slot demo_driver demo_huge_request) (fresh_tables demo_driver demo_huge_request (db_tables demo_database))
      + reserved_of (request_slot demo_driver demo_huge_request) (fresh_tables demo_driver demo_huge_request (db_tables demo_database))
      + uint (rr_amount demo_huge_request)" by code_simp+
  from bigint_overflow_differs [OF demo_database_up this] show ?thesis by simp
qed

section \<open>Identifiers\<close>

text \<open>An identifier that fits a database integer comes back from the database as it was; a larger one
  is refused by name.\<close>

lemma codec_roundtrip:
  "and_then (to_i64 (as_u64 rid) ''reservation id'') id_from_i64 =
    (if unat (as_u64 rid) < 9223372036854775808 then Ok rid
     else Err (StInvalidInput ''reservation id is too large for backend integer''))"
proof -
  have "int (unat (as_u64 rid)) = uint (as_u64 rid)" by simp
  then have "unat (as_u64 rid) < 9223372036854775808 \<longleftrightarrow> uint (as_u64 rid) \<le> i64_max"
    unfolding i64_max_def by linarith
  then show ?thesis
    by (cases rid) (simp add: to_i64_def id_from_i64_def u64_from_i64_def)
qed

end
