(* ===== verification/Decimal_Text.thy ===== *)
theory Decimal_Text
  imports Main "HOL-Library.Sublist"
begin

text \<open>
  Integers as decimal text, the way Rust's \<open>format!\<close> and Redis write them, and the way Redis reads
  the text of a 64-bit integer: exactly the texts it would write itself.
\<close>

function int_digits :: "int \<Rightarrow> string" where
  "int_digits n = (if n < 10 then [char_of (48 + n)] else int_digits (n div 10) @ [char_of (48 + n mod 10)])"
  by pat_completeness auto
termination
  by (relation "measure nat") (auto simp: nat_less_eq_zless)

declare int_digits.simps [simp del]

definition int_text :: "int \<Rightarrow> string" where
  "int_text n = (if n < 0 then ''-'' @ int_digits (- n) else int_digits n)"

definition digits_value :: "string \<Rightarrow> int" where
  "digits_value ds = foldl (\<lambda>v c. 10 * v + (of_char c - 48)) 0 ds"

definition signed_value :: "string \<Rightarrow> int" where
  "signed_value s = (case s of [] \<Rightarrow> 0 | c # ds \<Rightarrow> if c = CHR ''-'' then - digits_value ds else digits_value s)"

definition read_integer :: "string \<Rightarrow> int option" where
  "read_integer s =
     (let v = signed_value s in
      if int_text v = s \<and> - 9223372036854775808 \<le> v \<and> v \<le> 9223372036854775807 then Some v else None)"

section \<open>Round trip\<close>

definition digit_char :: "char \<Rightarrow> bool" where
  "digit_char c \<longleftrightarrow> 48 \<le> (of_char c :: int) \<and> (of_char c :: int) \<le> 57"

lemma of_char_of_int: "0 \<le> d \<Longrightarrow> d < 256 \<Longrightarrow> of_char (char_of (d :: int)) = d"
  by (simp add: take_bit_int_eq_self)

lemma digit_char_of: "0 \<le> d \<Longrightarrow> d < 10 \<Longrightarrow> digit_char (char_of (48 + d :: int))"
  by (simp add: digit_char_def of_char_of_int)

lemma int_digits_chars: "0 \<le> n \<Longrightarrow> int_digits n \<noteq> [] \<and> (\<forall>c \<in> set (int_digits n). digit_char c)"
proof (induction n rule: int_digits.induct)
  case (1 n)
  show ?case
  proof (cases "n < 10")
    case True
    then show ?thesis using 1(2) by (simp add: int_digits.simps [of n] digit_char_of)
  next
    case False
    then show ?thesis using 1 by (auto simp: int_digits.simps [of n] digit_char_of)
  qed
qed

lemma digits_value_append:
  "digits_value (ds @ [c]) = 10 * digits_value ds + (of_char c - 48)"
  by (simp add: digits_value_def)

lemma digits_value_int_digits: "0 \<le> n \<Longrightarrow> digits_value (int_digits n) = n"
proof (induction n rule: int_digits.induct)
  case (1 n)
  show ?case
  proof (cases "n < 10")
    case True
    then show ?thesis using 1(2) by (simp add: int_digits.simps [of n] digits_value_def of_char_of_int)
  next
    case False
    then show ?thesis
      using 1 by (simp add: int_digits.simps [of n] digits_value_append of_char_of_int)
  qed
qed

lemma digit_char_not: "digit_char c \<Longrightarrow> c \<noteq> CHR ''-'' \<and> c \<noteq> CHR '':'' \<and> c \<noteq> CHR ''y''"
  by (auto simp: digit_char_def)

lemma signed_value_int_text: "signed_value (int_text n) = n"
proof (cases "n < 0")
  case True
  then show ?thesis by (simp add: int_text_def signed_value_def digits_value_int_digits)
next
  case False
  then obtain c ds where "int_digits n = c # ds" "digit_char c"
    using int_digits_chars [of n] by (cases "int_digits n") auto
  then show ?thesis
    using False digit_char_not [of c] digits_value_int_digits [of n]
    by (simp add: int_text_def signed_value_def)
qed

lemma int_text_inject [simp]: "int_text m = int_text n \<longleftrightarrow> m = n"
  by (metis signed_value_int_text)

lemma read_integer_int_text:
  "- 9223372036854775808 \<le> n \<Longrightarrow> n \<le> 9223372036854775807 \<Longrightarrow> read_integer (int_text n) = Some n"
  by (simp add: read_integer_def signed_value_int_text)

lemma read_integer_SomeD: "read_integer s = Some n \<Longrightarrow> s = int_text n"
  by (auto simp: read_integer_def Let_def split: if_splits)

lemma int_text_last_digit: "int_text n \<noteq> [] \<and> digit_char (last (int_text n))"
  using int_digits_chars [of "\<bar>n\<bar>"]
  by (cases "n < 0") (auto simp: int_text_def)

lemma int_text_no_colon: "CHR '':'' \<notin> set (int_text n)"
  using int_digits_chars [of "\<bar>n\<bar>"] digit_char_not
  by (cases "n < 0") (auto simp: int_text_def)

end
