(* ===== verification/Redis_Server.thy ===== *)
theory Redis_Server
  imports Codec Decimal_Text
begin

text \<open>
  What \<open>store/redis_store.rs\<close> uses of Redis: a key space of hashes, a counter and a sorted set with the
  commands the scripts call, keys that vanish at their deadline, the numbers of the scripts' language,
  and a server whose calls may fail. Redis runs one script at a time, to its end or to its first error,
  and keeps what a script did before an error.
\<close>

section \<open>The key space\<close>

text \<open>
  Field values are texts. A hash without fields does not exist. \<open>rd_deadlines\<close> is what \<open>EXPIREAT\<close> set,
  in whole seconds of the server's clock; \<open>rd_sequence\<close> the number under the sequence key, 0 if there
  is none; \<open>rd_expirations\<close> the members of the sorted set with their scores.
\<close>

type_synonym fields = "(string, string) hmap"

record redis =
  rd_hashes :: "(string, fields) hmap"
  rd_deadlines :: "(string, int) hmap"
  rd_sequence :: int
  rd_expirations :: "(string \<times> int) list"
  rd_clock :: int

definition empty_redis :: "int \<Rightarrow> redis" where
  "empty_redis clock =
     \<lparr>rd_hashes = [], rd_deadlines = [], rd_sequence = 0, rd_expirations = [], rd_clock = clock\<rparr>"

definition hash_at :: "redis \<Rightarrow> string \<Rightarrow> fields" where
  "hash_at s key = (case hm_get (rd_hashes s) key of None \<Rightarrow> [] | Some h \<Rightarrow> h)"

definition delete_key :: "string \<Rightarrow> redis \<Rightarrow> redis" where
  "delete_key key s =
     s\<lparr>rd_hashes := AList.delete key (rd_hashes s), rd_deadlines := AList.delete key (rd_deadlines s)\<rparr>"

section \<open>Commands\<close>

definition cmd_hget :: "string \<Rightarrow> string \<Rightarrow> redis \<Rightarrow> string option" where
  "cmd_hget key field s = hm_get (hash_at s key) field"

definition cmd_hset :: "string \<Rightarrow> string \<Rightarrow> string \<Rightarrow> redis \<Rightarrow> redis" where
  "cmd_hset key field v s =
     s\<lparr>rd_hashes := hm_insert key (hm_insert field v (hash_at s key)) (rd_hashes s)\<rparr>"

definition cmd_hdel :: "string \<Rightarrow> string \<Rightarrow> redis \<Rightarrow> redis" where
  "cmd_hdel key field s =
     (let h = AList.delete field (hash_at s key) in
      if h = [] then delete_key key s else s\<lparr>rd_hashes := hm_insert key h (rd_hashes s)\<rparr>)"

definition cmd_exists :: "string \<Rightarrow> redis \<Rightarrow> bool" where
  "cmd_exists key s \<longleftrightarrow> hash_at s key \<noteq> []"

text \<open>A deadline that has passed removes the key at once.\<close>

definition cmd_expireat :: "string \<Rightarrow> int \<Rightarrow> redis \<Rightarrow> redis" where
  "cmd_expireat key t s =
     (if hash_at s key = [] then s
      else if t \<le> rd_clock s then delete_key key s
      else s\<lparr>rd_deadlines := hm_insert key t (rd_deadlines s)\<rparr>)"

definition cmd_zadd :: "int \<Rightarrow> string \<Rightarrow> redis \<Rightarrow> redis" where
  "cmd_zadd score member s =
     s\<lparr>rd_expirations := insort_key snd (member, score) (filter (\<lambda>e. fst e \<noteq> member) (rd_expirations s))\<rparr>"

definition cmd_zrem :: "string \<Rightarrow> redis \<Rightarrow> redis" where
  "cmd_zrem member s = s\<lparr>rd_expirations := filter (\<lambda>e. fst e \<noteq> member) (rd_expirations s)\<rparr>"

definition cmd_zrangebyscore :: "int \<Rightarrow> redis \<Rightarrow> string list" where
  "cmd_zrangebyscore highest s = map fst (filter (\<lambda>e. snd e \<le> highest) (rd_expirations s))"

section \<open>Scripts\<close>

text \<open>
  A script yields a result or the text of the error that stopped it. The scripts' language has
  double-precision numbers, which are integers here. What the scripts see of them is a parameter:
  \<open>lua_tonumber\<close> is the number a text denotes (\<open>None\<close> for \<open>nil\<close>), \<open>lua_round\<close> the number nearest to an
  exact sum, \<open>lua_concat\<close> the text the operator \<open>..\<close> makes of a number, \<open>lua_argument\<close> the text a number
  has as the argument of a command, \<open>lua_reply\<close> the integer it has in a reply, and \<open>lua_error\<close> the text
  of the error raised for a cause.
\<close>

record lua =
  lua_tonumber :: "string \<Rightarrow> int option"
  lua_round :: "int \<Rightarrow> int"
  lua_concat :: "int \<Rightarrow> string"
  lua_argument :: "int \<Rightarrow> string"
  lua_reply :: "int \<Rightarrow> int"
  lua_error :: "string \<Rightarrow> string"

text \<open>
  Doubles are exact up to \<open>2 ^ 53\<close> and never fall below it for a larger number; the operator \<open>..\<close> prints
  fourteen digits.
\<close>

definition lua_laws :: "lua \<Rightarrow> bool" where
  "lua_laws L \<longleftrightarrow>
     (\<forall>n. - 9007199254740992 \<le> n \<and> n \<le> 9007199254740992 \<longrightarrow>
        lua_tonumber L (int_text n) = Some n \<and> lua_round L n = n
        \<and> lua_argument L n = int_text n \<and> lua_reply L n = n)
   \<and> (\<forall>n. 9007199254740992 < n \<longrightarrow> 9007199254740992 \<le> lua_round L n
        \<and> (\<exists>m. lua_tonumber L (int_text n) = Some m \<and> 9007199254740992 \<le> m))
   \<and> (\<forall>n. 0 \<le> n \<and> n < 100000000000000 \<longrightarrow> lua_concat L n = int_text n)"

type_synonym 'a script = "redis \<Rightarrow> (string + 'a) \<times> redis"

fun script_then :: "(string + 'a) \<times> redis \<Rightarrow> ('a \<Rightarrow> 'b script) \<Rightarrow> (string + 'b) \<times> redis" where
  "script_then (Inr x, s) f = f x s"
| "script_then (Inl e, s) f = (Inl e, s)"

text \<open>Using \<open>nil\<close> or \<open>false\<close> where a number or a text is needed is an error.\<close>

definition needed :: "lua \<Rightarrow> 'a option \<Rightarrow> 'a script" where
  "needed L v s = (case v of None \<Rightarrow> (Inl (lua_error L ''nil''), s) | Some x \<Rightarrow> (Inr x, s))"

text \<open>\<open>tonumber(redis.call('HGET', key, field) or '0')\<close>\<close>

definition number_at :: "lua \<Rightarrow> string \<Rightarrow> string \<Rightarrow> redis \<Rightarrow> int option" where
  "number_at L key field s =
     lua_tonumber L (case cmd_hget key field s of None \<Rightarrow> ''0'' | Some v \<Rightarrow> v)"

text \<open>\<open>INCR\<close> and \<open>HINCRBY\<close> work on 64-bit integers and refuse other texts.\<close>

definition cmd_incr :: "lua \<Rightarrow> int script" where
  "cmd_incr L s =
     (if i64_max \<le> rd_sequence s then (Inl (lua_error L ''overflow''), s)
      else (Inr (rd_sequence s + 1), s\<lparr>rd_sequence := rd_sequence s + 1\<rparr>))"

definition cmd_hincrby :: "lua \<Rightarrow> string \<Rightarrow> string \<Rightarrow> string \<Rightarrow> unit script" where
  "cmd_hincrby L key field increment s =
     (case (read_integer increment,
            read_integer (case cmd_hget key field s of None \<Rightarrow> ''0'' | Some v \<Rightarrow> v)) of
        (Some n, Some v) \<Rightarrow>
          if i64_max < v + n \<or> v + n < - i64_max - 1 then (Inl (lua_error L ''overflow''), s)
          else (Inr (), cmd_hset key field (int_text (v + n)) s)
      | _ \<Rightarrow> (Inl (lua_error L ''not an integer''), s))"

definition script_expireat :: "lua \<Rightarrow> string \<Rightarrow> string \<Rightarrow> unit script" where
  "script_expireat L key deadline s =
     (case read_integer deadline of
        None \<Rightarrow> (Inl (lua_error L ''not an integer''), s)
      | Some t \<Rightarrow> (Inr (), cmd_expireat key t s))"

section \<open>Evaluation\<close>

text \<open>
  Equations that evaluate a command only once the key space is known, so that evaluating a script does
  not expand the commands after the current one.
\<close>

abbreviation space ::
    "(string, fields) hmap \<Rightarrow> (string, int) hmap \<Rightarrow> int \<Rightarrow> (string \<times> int) list \<Rightarrow> int \<Rightarrow> redis" where
  "space hs ds n z c \<equiv>
     \<lparr>rd_hashes = hs, rd_deadlines = ds, rd_sequence = n, rd_expirations = z, rd_clock = c\<rparr>"

lemma cmd_hset_code [code]:
  "cmd_hset key field v (space hs ds n z c) =
     (case hm_get hs key of
        None \<Rightarrow> space (hm_insert key (hm_insert field v []) hs) ds n z c
      | Some h \<Rightarrow> space (hm_insert key (hm_insert field v h) hs) ds n z c)"
  by (simp add: cmd_hset_def hash_at_def split: option.splits)

lemma cmd_expireat_code [code]:
  "cmd_expireat key t (space hs ds n z c) =
     (case hm_get hs key of
        None \<Rightarrow> space hs ds n z c
      | Some [] \<Rightarrow> space hs ds n z c
      | Some h \<Rightarrow>
          if t \<le> c then space (AList.delete key hs) (AList.delete key ds) n z c
          else space hs (hm_insert key t ds) n z c)"
  by (simp add: cmd_expireat_def hash_at_def delete_key_def split: option.splits list.splits)

lemma cmd_zadd_code [code]:
  "cmd_zadd score member (space hs ds n z c) =
   space hs ds n (insort_key snd (member, score) (filter (\<lambda>e. fst e \<noteq> member) z)) c"
  by (simp add: cmd_zadd_def)

lemma cmd_incr_code [code]:
  "cmd_incr L (space hs ds n z c) =
     (if i64_max \<le> n then (Inl (lua_error L ''overflow''), space hs ds n z c)
      else (Inr (n + 1), space hs ds (n + 1) z c))"
  by (simp add: cmd_incr_def)

section \<open>The server\<close>

text \<open>
  What becomes of the next calls: each comes some seconds of the server's clock after the one before
  and is served, refused, or served while the reply is lost. An exhausted list is a server that serves
  every call at once. Keys whose deadline has passed are gone when a call is served.
\<close>

datatype server_event = Served nat | Refused nat string | Unanswered nat string

record server =
  sv_redis :: redis
  sv_events :: "server_event list"

definition advance :: "nat \<Rightarrow> redis \<Rightarrow> redis" where
  "advance elapsed s =
     (let clock = rd_clock s + int elapsed;
          gone = (\<lambda>key. case hm_get (rd_deadlines s) key of None \<Rightarrow> False | Some t \<Rightarrow> t \<le> clock)
      in s\<lparr>rd_hashes := filter (\<lambda>e. \<not> gone (fst e)) (rd_hashes s),
           rd_deadlines := filter (\<lambda>e. \<not> gone (fst e)) (rd_deadlines s), rd_clock := clock\<rparr>)"

type_synonym 'a server_call = "server \<Rightarrow> ('a, store_error) outcome \<times> server"

definition pool_error :: "string \<Rightarrow> store_error" where
  "pool_error message = StOther message"

definition redis_error :: "string \<Rightarrow> store_error" where
  "redis_error message = StOther message"

definition run_script :: "'a script \<Rightarrow> 'a server_call" where
  "run_script f srv =
     (let serve = (\<lambda>n. f (advance n (sv_redis srv))) in
      case sv_events srv of
        [] \<Rightarrow>
          (case serve 0 of
             (Inl m, s) \<Rightarrow> (Err (redis_error m), srv\<lparr>sv_redis := s\<rparr>)
           | (Inr x, s) \<Rightarrow> (Ok x, srv\<lparr>sv_redis := s\<rparr>))
      | Served n # es \<Rightarrow>
          (case serve n of
             (Inl m, s) \<Rightarrow> (Err (redis_error m), \<lparr>sv_redis = s, sv_events = es\<rparr>)
           | (Inr x, s) \<Rightarrow> (Ok x, \<lparr>sv_redis = s, sv_events = es\<rparr>))
      | Refused n m # es \<Rightarrow>
          (Err (redis_error m), \<lparr>sv_redis = advance n (sv_redis srv), sv_events = es\<rparr>)
      | Unanswered n m # es \<Rightarrow> (Err (redis_error m), \<lparr>sv_redis = snd (serve n), sv_events = es\<rparr>))"

text \<open>\<open>pool.get()\<close>\<close>

definition pool_get :: "unit server_call" where
  "pool_get srv =
     (case sv_events srv of
        [] \<Rightarrow> (Ok (), srv)
      | Served n # es \<Rightarrow> (Ok (), \<lparr>sv_redis = advance n (sv_redis srv), sv_events = es\<rparr>)
      | Refused n m # es \<Rightarrow> (Err (pool_error m), \<lparr>sv_redis = advance n (sv_redis srv), sv_events = es\<rparr>)
      | Unanswered n m # es \<Rightarrow> (Err (pool_error m), \<lparr>sv_redis = advance n (sv_redis srv), sv_events = es\<rparr>))"

text \<open>The \<open>?\<close> operator between the calls of one operation.\<close>

fun served_then ::
    "('a, store_error) outcome \<times> server \<Rightarrow> ('a \<Rightarrow> 'b server_call) \<Rightarrow>
     ('b, store_error) outcome \<times> server" where
  "served_then (Ok x, srv) f = f x srv"
| "served_then (Err e, srv) f = (Err e, srv)"
| "served_then (Panic, srv) f = (Panic, srv)"

end
