(* ===== verification/Redis_Store.thy ===== *)
theory Redis_Store
  imports Redis_Server
begin

text \<open>
  \<open>store/redis_store.rs\<close>: the Redis store. Its logic is in four scripts, which are translated line by
  line; an operation is the cleanup script followed by its own, and other clients' scripts may run
  between the two.
\<close>

section \<open>Keys\<close>

definition expirations_key :: string where "expirations_key = ''budget-warden:expirations''"
definition sequence_key :: string where "sequence_key = ''budget-warden:reservation-seq''"

definition redis_counter_key :: "('tz, 'more) chrono_scheme \<Rightarrow> store_key \<Rightarrow> window_bounds \<Rightarrow> string" where
  "redis_counter_key lib k w =
     ''budget-warden:counter:'' @ codec_key k @ '':'' @ int_text (ch_timestamp lib (codec_window_start w)) @ '':'' @
     int_text (ch_timestamp lib (codec_window_end w))"

definition redis_idempotency_key :: "('tz, 'more) chrono_scheme \<Rightarrow> store_key \<Rightarrow> window_bounds \<Rightarrow> string" where
  "redis_idempotency_key lib k w = redis_counter_key lib k w @ '':idempotency''"

definition redis_reservation_prefix :: string where
  "redis_reservation_prefix = ''budget-warden:reservation:''"

definition redis_reservation_key :: "int \<Rightarrow> string" where
  "redis_reservation_key i = redis_reservation_prefix @ int_text i"

section \<open>The reserve script\<close>

text \<open>The part under \<open>if idempotency ~= ''\<close>: an early reply, or nothing.\<close>

definition reserve_existing ::
    "lua \<Rightarrow> string \<Rightarrow> string \<Rightarrow> string \<Rightarrow> (int \<times> int \<times> int \<times> int \<times> int) option script" where
  "reserve_existing L counter_key idempotency_key idempotency s =
     (if idempotency = [] then (Inr None, s)
      else case cmd_hget idempotency_key idempotency s of
        None \<Rightarrow> (Inr None, s)
      | Some existing_id \<Rightarrow>
          let reservation_key = redis_reservation_prefix @ existing_id;
              status = cmd_hget reservation_key ''status'' s
          in
          if status = Some ''active'' \<or> status = Some ''committed''
          then
            script_then (needed L (lua_tonumber L existing_id) s) (\<lambda>i s.
            script_then (needed L (number_at L counter_key ''committed'' s) s) (\<lambda>committed s.
            script_then (needed L (number_at L counter_key ''reserved'' s) s) (\<lambda>reserved s.
            script_then (needed L (number_at L reservation_key ''expires_at'' s) s) (\<lambda>existing_expiry s.
            (Inr (Some (1, lua_reply L i, lua_reply L committed, lua_reply L reserved,
                        lua_reply L existing_expiry)), s)))))
          else if status = None then (Inr None, cmd_hdel idempotency_key idempotency s)
          else (Inr None, s))"

text \<open>The rest, once the limit test has passed.\<close>

definition reserve_admit ::
    "lua \<Rightarrow> string \<Rightarrow> string \<Rightarrow> int \<Rightarrow> int \<Rightarrow> string \<Rightarrow> int \<Rightarrow> int \<Rightarrow> int \<Rightarrow>
     (int \<times> int \<times> int \<times> int \<times> int) script" where
  "reserve_admit L counter_key idempotency_key amount expires_at idempotency retention committed reserved s =
     script_then (cmd_incr L s) (\<lambda>i s.
     let reservation_key = redis_reservation_prefix @ lua_concat L i in
     script_then (cmd_hincrby L counter_key ''reserved'' (lua_argument L amount) s) (\<lambda>_ s.
     let reserved = lua_round L (reserved + amount);
         s = cmd_hset reservation_key ''counter_key'' counter_key s;
         s = cmd_hset reservation_key ''amount'' (lua_argument L amount) s;
         s = cmd_hset reservation_key ''status'' ''active'' s;
         s = cmd_hset reservation_key ''expires_at'' (lua_argument L expires_at) s;
         s = cmd_zadd expires_at (lua_argument L i) s
     in
     script_then (script_expireat L counter_key (lua_argument L retention) s) (\<lambda>_ s.
     script_then (script_expireat L reservation_key (lua_argument L retention) s) (\<lambda>_ s.
     script_then
       (if idempotency = [] then (Inr (), s)
        else
          let s = cmd_hset idempotency_key idempotency (lua_argument L i) s
          in script_expireat L idempotency_key (lua_argument L retention) s) (\<lambda>_ s.
     (Inr (1, lua_reply L i, lua_reply L committed, lua_reply L reserved, lua_reply L expires_at), s))))))"

text \<open>The arguments arrive as the texts of integers.\<close>

definition reserve_script ::
    "lua \<Rightarrow> string \<Rightarrow> string \<Rightarrow> int \<Rightarrow> int \<Rightarrow> int \<Rightarrow> string \<Rightarrow> int \<Rightarrow>
     (int \<times> int \<times> int \<times> int \<times> int) script" where
  "reserve_script L counter_key idempotency_key amount effective_limit expires_at idempotency retention s =
     script_then (reserve_existing L counter_key idempotency_key idempotency s) (\<lambda>existing s.
     case existing of
       Some reply \<Rightarrow> (Inr reply, s)
     | None \<Rightarrow>
         script_then (needed L (number_at L counter_key ''committed'' s) s) (\<lambda>committed s.
         script_then (needed L (number_at L counter_key ''reserved'' s) s) (\<lambda>reserved s.
         script_then (needed L (lua_tonumber L (int_text amount)) s) (\<lambda>amount s.
         script_then (needed L (lua_tonumber L (int_text effective_limit)) s) (\<lambda>effective_limit s.
         if effective_limit < lua_round L (lua_round L (committed + reserved) + amount)
         then (Inr (0, 0, lua_reply L committed, lua_reply L reserved, 0), s)
         else
           script_then (needed L (lua_tonumber L (int_text expires_at)) s) (\<lambda>expires_at s.
           script_then (needed L (lua_tonumber L (int_text retention)) s) (\<lambda>retention s.
           reserve_admit L counter_key idempotency_key amount expires_at idempotency retention
             committed reserved s)))))))"

section \<open>The other scripts\<close>

text \<open>Lowering a counter by a reservation's amount, as the cleanup and the finish script do.\<close>

definition lower_reserved :: "lua \<Rightarrow> string \<Rightarrow> string script" where
  "lower_reserved L reservation_key s =
     script_then (needed L (cmd_hget reservation_key ''counter_key'' s) s) (\<lambda>counter_key s.
     script_then (needed L (number_at L reservation_key ''amount'' s) s) (\<lambda>amount s.
     script_then (needed L (number_at L counter_key ''reserved'' s) s) (\<lambda>reserved s.
     (Inr counter_key,
      cmd_hset counter_key ''reserved'' (lua_argument L (max (lua_round L (reserved - amount)) 0)) s))))"

definition cleanup_one :: "lua \<Rightarrow> string \<Rightarrow> unit script" where
  "cleanup_one L i s =
     (let reservation_key = redis_reservation_prefix @ i in
      script_then
        (if cmd_hget reservation_key ''status'' s = Some ''active''
         then script_then (lower_reserved L reservation_key s) (\<lambda>_ s.
                (Inr (), cmd_hset reservation_key ''status'' ''expired'' s))
         else (Inr (), s)) (\<lambda>_ s.
      (Inr (), cmd_zrem i s)))"

fun cleanup_all :: "lua \<Rightarrow> string list \<Rightarrow> unit script" where
  "cleanup_all L [] s = (Inr (), s)"
| "cleanup_all L (i # ids) s = script_then (cleanup_one L i s) (\<lambda>_ s. cleanup_all L ids s)"

definition cleanup_script :: "lua \<Rightarrow> int \<Rightarrow> int script" where
  "cleanup_script L now s =
     script_then (needed L (lua_tonumber L (int_text now)) s) (\<lambda>now s.
     let ids = cmd_zrangebyscore now s in
     script_then (cleanup_all L ids s) (\<lambda>_ s. (Inr (int (length ids)), s)))"

definition finish_script :: "lua \<Rightarrow> string \<Rightarrow> string \<Rightarrow> int \<Rightarrow> int \<Rightarrow> int script" where
  "finish_script L reservation_key target_status i now s =
     (if \<not> cmd_exists reservation_key s then (Inr 0, s)
      else
        let status = cmd_hget reservation_key ''status'' s in
        if status = Some ''committed'' \<or> status = Some ''refunded'' then (Inr 2, s)
        else if status = Some ''expired'' then (Inr (- 1), s)
        else
          script_then (needed L (number_at L reservation_key ''expires_at'' s) s) (\<lambda>expires_at s.
          script_then (needed L (lua_tonumber L (int_text now)) s) (\<lambda>now s.
          if expires_at \<le> now
          then
            script_then (lower_reserved L reservation_key s) (\<lambda>_ s.
            (Inr (- 1), cmd_zrem (int_text i) (cmd_hset reservation_key ''status'' ''expired'' s)))
          else
            script_then (lower_reserved L reservation_key s) (\<lambda>counter_key s.
            script_then
              (if target_status = ''committed''
               then script_then (needed L (number_at L reservation_key ''amount'' s) s) (\<lambda>amount s.
                      cmd_hincrby L counter_key ''committed'' (lua_argument L amount) s)
               else (Inr (), s)) (\<lambda>_ s.
            (Inr 1, cmd_zrem (int_text i) (cmd_hset reservation_key ''status'' target_status s)))))))"

definition usage_script :: "lua \<Rightarrow> string \<Rightarrow> (int \<times> int) script" where
  "usage_script L counter_key s =
     script_then (needed L (number_at L counter_key ''committed'' s) s) (\<lambda>committed s.
     script_then (needed L (number_at L counter_key ''reserved'' s) s) (\<lambda>reserved s.
     (Inr (lua_reply L committed, lua_reply L reserved), s)))"

section \<open>The operations\<close>

definition redis_cleanup_expired ::
    "('tz, 'more) chrono_scheme \<Rightarrow> lua \<Rightarrow> datetime \<Rightarrow> unit server_call" where
  "redis_cleanup_expired lib L now srv =
     served_then (run_script (cleanup_script L (ch_timestamp lib now)) srv) (\<lambda>_ srv. (Ok (), srv))"

definition redis_result ::
    "('tz, 'more) chrono_scheme \<Rightarrow> int \<times> int \<times> int \<times> int \<times> int \<Rightarrow>
     (store_reservation_result, store_error) outcome" where
  "redis_result lib v =
     (case v of (v0, v1, v2, v3, v4) \<Rightarrow>
      and_then (usage_from_i64 v2 v3) (\<lambda>usage.
      if v0 = 0 then Ok (srr_deny usage)
      else
        and_then (id_from_i64 v1) (\<lambda>rid.
        and_then (ok_or (ch_from_timestamp lib v4) (StOther ''redis returned invalid expiry'')) (\<lambda>expires_at.
        Ok (srr_allow (store_reservation_new rid expires_at) usage)))))"

definition idempotency_argument :: "reserve_request \<Rightarrow> string" where
  "idempotency_argument r =
     (case rr_idempotency_key r of None \<Rightarrow> [] | Some i \<Rightarrow> idempotency_as_str i)"

definition redis_reserve_if_allowed ::
    "('tz, 'more) chrono_scheme \<Rightarrow> lua \<Rightarrow> reserve_request \<Rightarrow> store_reservation_result server_call" where
  "redis_reserve_if_allowed lib L r srv =
     served_then (reserve_request_validate r, srv) (\<lambda>_ srv.
     served_then (pool_get srv) (\<lambda>_ srv.
     let counter_key = redis_counter_key lib (rr_key r) (rr_window r);
         idempotency_key = redis_idempotency_key lib (rr_key r) (rr_window r)
     in
     served_then (to_i64 (rr_amount r) ''amount'', srv) (\<lambda>amount srv.
     served_then (to_i64 (rr_effective_limit r) ''effective limit'', srv) (\<lambda>effective_limit srv.
     served_then (or_panic (ch_add lib (rr_now r) (rr_reservation_ttl r)), srv) (\<lambda>expires_at srv.
     served_then (or_panic (ch_add lib (wb_end (rr_window r)) (rr_reservation_ttl r)), srv)
       (\<lambda>retention_expires_at srv.
     served_then (redis_cleanup_expired lib L (rr_now r) srv) (\<lambda>_ srv.
     served_then
       (run_script
          (reserve_script L counter_key idempotency_key amount effective_limit
             (ch_timestamp lib expires_at) (idempotency_argument r) (ch_timestamp lib retention_expires_at)) srv)
       (\<lambda>values srv.
     (redis_result lib values, srv)))))))))"

definition redis_finish ::
    "('tz, 'more) chrono_scheme \<Rightarrow> lua \<Rightarrow> datetime \<Rightarrow> string \<Rightarrow> reservation_id \<Rightarrow> unit server_call" where
  "redis_finish lib L utc_now status rid srv =
     served_then (pool_get srv) (\<lambda>_ srv.
     served_then (to_i64 (as_u64 rid) ''reservation id'', srv) (\<lambda>i srv.
     served_then (run_script (finish_script L (redis_reservation_key i) status i (ch_timestamp lib utc_now)) srv)
       (\<lambda>result srv.
     (if result = 1 \<or> result = 2 then Ok ()
      else if result = 0 then Err StReservationNotFound
      else if result = - 1 then Err StReservationExpired
      else Err (StOther ''unexpected redis finish result''), srv))))"

definition redis_commit ::
    "('tz, 'more) chrono_scheme \<Rightarrow> lua \<Rightarrow> datetime \<Rightarrow> reservation_id \<Rightarrow> unit server_call" where
  "redis_commit lib L utc_now rid = redis_finish lib L utc_now ''committed'' rid"

definition redis_refund ::
    "('tz, 'more) chrono_scheme \<Rightarrow> lua \<Rightarrow> datetime \<Rightarrow> reservation_id \<Rightarrow> unit server_call" where
  "redis_refund lib L utc_now rid = redis_finish lib L utc_now ''refunded'' rid"

definition redis_usage ::
    "('tz, 'more) chrono_scheme \<Rightarrow> lua \<Rightarrow> store_key \<Rightarrow> window_bounds \<Rightarrow> datetime \<Rightarrow> counter_usage server_call" where
  "redis_usage lib L k w now srv =
     served_then (pool_get srv) (\<lambda>_ srv.
     served_then (redis_cleanup_expired lib L now srv) (\<lambda>_ srv.
     served_then (run_script (usage_script L (redis_counter_key lib k w)) srv) (\<lambda>values srv.
     (usage_from_i64 (fst values) (snd values), srv))))"

definition redis_ops :: "('tz, 'more) chrono_scheme \<Rightarrow> lua \<Rightarrow> server store_ops" where
  "redis_ops lib L =
     \<lparr>st_reserve_if_allowed = redis_reserve_if_allowed lib L, st_commit = redis_commit lib L,
      st_refund = redis_refund lib L, st_usage = redis_usage lib L\<rparr>"

end
