(* ===== verification/Redis_Invariant.thy ===== *)
theory Redis_Invariant
  imports Redis_Store
begin

text \<open>
  The invariant of the key space under the scripts, on the range where the scripts' numbers are exact:
  a counter holds at least the units of its active reservations, and lives exactly as long as they do,
  so settling a reservation never raises a counter.
\<close>

section \<open>What the keys hold\<close>

definition row_key :: "string \<Rightarrow> bool" where
  "row_key k \<longleftrightarrow> prefix redis_reservation_prefix k"

definition counter_name :: "string \<Rightarrow> bool" where
  "counter_name k \<longleftrightarrow> prefix ''budget-warden:counter:'' k \<and> digit_char (last k)"

text \<open>The seconds at which the window of a counter key ends: the number after its last colon.\<close>

definition key_end :: "string \<Rightarrow> int" where
  "key_end k = signed_value (rev (takeWhile (\<lambda>c. c \<noteq> CHR '':'') (rev k)))"

definition units_at :: "redis \<Rightarrow> string \<Rightarrow> string \<Rightarrow> int" where
  "units_at s key field = (case cmd_hget key field s of None \<Rightarrow> 0 | Some v \<Rightarrow> signed_value v)"

definition row_units :: "string \<Rightarrow> string \<Rightarrow> fields \<Rightarrow> int" where
  "row_units c k h =
     (if row_key k \<and> hm_get h ''status'' = Some ''active'' \<and> hm_get h ''counter_key'' = Some c
      then case hm_get h ''amount'' of None \<Rightarrow> 0 | Some v \<Rightarrow> signed_value v else 0)"

definition active_units :: "string \<Rightarrow> redis \<Rightarrow> int" where
  "active_units c s = sum_list (map (\<lambda>(k, h). row_units c k h) (rd_hashes s))"

definition exact_max :: int where
  "exact_max = 9007199254740992"

text \<open>A field that holds a number, or is missing and stands for zero.\<close>

definition holds :: "redis \<Rightarrow> string \<Rightarrow> string \<Rightarrow> bool" where
  "holds s key field \<longleftrightarrow>
     cmd_hget key field s \<in> {None, Some (int_text (units_at s key field))} \<and> 0 \<le> units_at s key field"

definition counter_wf :: "int \<Rightarrow> redis \<Rightarrow> string \<Rightarrow> bool" where
  "counter_wf ttl s c \<longleftrightarrow>
     holds s c ''committed'' \<and> holds s c ''reserved''
   \<and> units_at s c ''committed'' + units_at s c ''reserved'' < exact_max
   \<and> active_units c s \<le> units_at s c ''reserved''
   \<and> (hash_at s c = [] \<or> hm_get (rd_deadlines s) c = Some (key_end c + ttl))"

definition reservation_wf :: "int \<Rightarrow> redis \<Rightarrow> string \<Rightarrow> bool" where
  "reservation_wf ttl s k \<longleftrightarrow>
     (\<exists>c a. cmd_hget k ''counter_key'' s = Some c \<and> counter_name c
        \<and> cmd_hget k ''amount'' s = Some (int_text a) \<and> 0 < a \<and> a < exact_max
        \<and> cmd_hget k ''status'' s \<in> Some ` {''active'', ''committed'', ''refunded'', ''expired''}
        \<and> (cmd_hget k ''status'' s = Some ''active'' \<longrightarrow>
             hash_at s c \<noteq> [] \<and> hm_get (rd_deadlines s) k = Some (key_end c + ttl)))"

definition redis_inv :: "int \<Rightarrow> redis \<Rightarrow> bool" where
  "redis_inv ttl s \<longleftrightarrow>
     hm_ok (rd_hashes s)
   \<and> (\<forall>c. counter_name c \<longrightarrow> counter_wf ttl s c)
   \<and> (\<forall>k. row_key k \<longrightarrow> hash_at s k \<noteq> [] \<longrightarrow> reservation_wf ttl s k)
   \<and> (\<forall>k t. hm_get (rd_deadlines s) k = Some t \<longrightarrow> rd_clock s < t)"

definition redis_units :: "redis \<Rightarrow> string \<Rightarrow> nat" where
  "redis_units s c =
     (if counter_name c then nat (units_at s c ''committed'' + units_at s c ''reserved'') else 0)"

lemma redis_invD:
  assumes "redis_inv ttl s"
  shows "hm_ok (rd_hashes s)"
    and "counter_name c \<Longrightarrow> counter_wf ttl s c"
    and "row_key k \<Longrightarrow> hash_at s k \<noteq> [] \<Longrightarrow> reservation_wf ttl s k"
    and "hm_get (rd_deadlines s) k = Some t \<Longrightarrow> rd_clock s < t"
  using assms unfolding redis_inv_def by blast+

lemma redis_inv_empty: "redis_inv ttl (empty_redis clock)"
  by (simp add: redis_inv_def empty_redis_def counter_wf_def holds_def units_at_def cmd_hget_def hash_at_def
      active_units_def exact_max_def)

section \<open>Names\<close>

lemma row_key_not_counter: "row_key k \<Longrightarrow> \<not> counter_name k"
  by (auto simp: row_key_def counter_name_def redis_reservation_prefix_def prefix_def)

lemma row_key_prefix [simp]: "row_key (redis_reservation_prefix @ i)"
  by (simp add: row_key_def)

lemma row_key_reservation [simp]: "row_key (redis_reservation_key i)"
  by (simp add: redis_reservation_key_def)

lemma counter_name_counter_key [simp]: "counter_name (redis_counter_key lib k w)"
proof -
  have "last (redis_counter_key lib k w) = last (int_text (ch_timestamp lib (codec_window_end w)))"
    using int_text_last_digit by (simp add: redis_counter_key_def)
  then show ?thesis
    using int_text_last_digit by (simp add: counter_name_def redis_counter_key_def)
qed

lemma idempotency_key_other [simp]:
  "\<not> counter_name (redis_idempotency_key lib k w)" "\<not> row_key (redis_idempotency_key lib k w)"
  by (auto simp: counter_name_def row_key_def redis_idempotency_key_def redis_counter_key_def digit_char_def
      redis_reservation_prefix_def prefix_def)

lemma key_end_counter_key [simp]:
  "key_end (redis_counter_key lib k w) = ch_timestamp lib (codec_window_end w)"
proof -
  let ?e = "int_text (ch_timestamp lib (codec_window_end w))"
  have "takeWhile (\<lambda>c. c \<noteq> CHR '':'') (rev ?e @ CHR '':'' # x) = rev ?e" for x
    using int_text_no_colon [of "ch_timestamp lib (codec_window_end w)"]
    by (subst takeWhile_append2) auto
  then show ?thesis
    by (simp add: key_end_def redis_counter_key_def signed_value_int_text)
qed

section \<open>Commands\<close>

lemma hash_at_hset [simp]:
  "hash_at (cmd_hset k f v s) k' = (if k' = k then hm_insert f v (hash_at s k) else hash_at s k')"
  by (simp add: hash_at_def cmd_hset_def hmap_simps)

lemma hget_hset [simp]:
  "cmd_hget k' f' (cmd_hset k f v s) = (if k' = k \<and> f' = f then Some v else cmd_hget k' f' s)"
  by (simp add: cmd_hget_def hmap_simps)

lemma hset_simps [simp]:
  "rd_deadlines (cmd_hset k f v s) = rd_deadlines s" "rd_clock (cmd_hset k f v s) = rd_clock s"
  "rd_sequence (cmd_hset k f v s) = rd_sequence s" "rd_expirations (cmd_hset k f v s) = rd_expirations s"
  by (simp_all add: cmd_hset_def)

lemma hm_insert_not_Nil [simp]: "hm_insert f v h \<noteq> []"
  by (cases h) auto

lemma units_at_hset:
  "units_at (cmd_hset k f v s) k' f' = (if k' = k \<and> f' = f then signed_value v else units_at s k' f')"
  by (simp add: units_at_def)

lemma row_units_Nil [simp]: "row_units c k [] = 0"
  by (simp add: row_units_def)

lemma row_units_other [simp]: "\<not> row_key k \<Longrightarrow> row_units c k h = 0"
  by (simp add: row_units_def)

lemma sum_insert:
  fixes g :: "string \<Rightarrow> fields \<Rightarrow> int"
  assumes "distinct (map fst m)"
  shows "sum_list (map (\<lambda>(k, h). g k h) (hm_insert k h' m)) =
    sum_list (map (\<lambda>(k, h). g k h) m) - (case hm_get m k of None \<Rightarrow> 0 | Some h \<Rightarrow> g k h) + g k h'"
  using assms
proof (induction m)
  case (Cons e m)
  obtain k1 h1 where e: "e = (k1, h1)" by (cases e)
  show ?case
  proof (cases "k1 = k")
    case True
    then have "hm_get m k = None" using Cons.prems e by (simp add: map_of_eq_None_iff)
    with True e show ?thesis by simp
  qed (use Cons e in simp)
qed simp

lemma sum_delete:
  fixes g :: "string \<Rightarrow> fields \<Rightarrow> int"
  assumes "distinct (map fst m)"
  shows "sum_list (map (\<lambda>(k, h). g k h) (AList.delete k m)) =
    sum_list (map (\<lambda>(k, h). g k h) m) - (case hm_get m k of None \<Rightarrow> 0 | Some h \<Rightarrow> g k h)"
  using assms
proof (induction m)
  case (Cons e m)
  obtain k1 h1 where e: "e = (k1, h1)" by (cases e)
  show ?case
  proof (cases "k1 = k")
    case True
    then have "hm_get m k = None" using Cons.prems e by (simp add: map_of_eq_None_iff)
    with True e Cons show ?thesis by (simp add: AList.delete_simps)
  qed (use Cons e in \<open>simp add: AList.delete_simps\<close>)
qed simp

lemma active_units_insert:
  assumes "hm_ok (rd_hashes s)"
  shows "active_units c (s\<lparr>rd_hashes := hm_insert k h' (rd_hashes s)\<rparr>) =
    active_units c s - row_units c k (hash_at s k) + row_units c k h'"
  using assms sum_insert [of "rd_hashes s" "row_units c" k h']
  by (simp add: active_units_def hash_at_def hm_ok_def hm_keys_def split: option.splits)

lemma active_units_hset:
  "hm_ok (rd_hashes s) \<Longrightarrow> active_units c (cmd_hset k f v s) =
     active_units c s - row_units c k (hash_at s k) + row_units c k (hm_insert f v (hash_at s k))"
  unfolding cmd_hset_def by (rule active_units_insert)

lemma hm_ok_hset [simp]: "hm_ok (rd_hashes s) \<Longrightarrow> hm_ok (rd_hashes (cmd_hset k f v s))"
  by (simp add: cmd_hset_def hmap_simps)

section \<open>Rows and counters\<close>

lemma hash_at_get: "hm_get (rd_hashes s) k = Some h \<Longrightarrow> hash_at s k = h"
  by (simp add: hash_at_def)

lemma row_units_nonneg:
  assumes "redis_inv ttl s"
  shows "0 \<le> row_units c k (hash_at s k)"
proof (cases "row_key k \<and> hash_at s k \<noteq> []")
  case True
  with redis_invD(3) [OF assms] have "reservation_wf ttl s k" by blast
  then show ?thesis
    by (auto simp: reservation_wf_def row_units_def cmd_hget_def signed_value_int_text)
qed (auto simp: row_units_def)

lemma active_units_sum_le:
  assumes "hm_ok (rd_hashes s)" "\<And>k. 0 \<le> row_units c k (hash_at s k)"
  shows "row_units c k (hash_at s k) \<le> active_units c s"
proof -
  have *: "0 \<le> row_units c k h" if "(k, h) \<in> set (rd_hashes s)" for k h
    using assms(2) [of k] that hash_at_get [of s k h] hm_ok_get [OF assms(1), of k h] by simp
  have le: "row_units c k h \<le> sum_list (map (\<lambda>(k, h). row_units c k h) m)"
    if "(k, h) \<in> set m" "set m \<subseteq> set (rd_hashes s)" for m h
    using that
  proof (induction m)
    case (Cons e m)
    have "0 \<le> sum_list (map (\<lambda>(k, h). row_units c k h) m)" if "set m \<subseteq> set (rd_hashes s)" for m
      using that * by (intro sum_list_nonneg) auto
    from this [of m] Cons * show ?case by (cases e) fastforce
  qed simp
  show ?thesis
  proof (cases "hm_get (rd_hashes s) k")
    case None
    have "0 \<le> active_units c s"
      unfolding active_units_def using * by (intro sum_list_nonneg) auto
    with None show ?thesis by (simp add: hash_at_def)
  next
    case (Some h)
    with le [of "hash_at s k" "rd_hashes s"] show ?thesis
      using hm_ok_get [OF assms(1), of k h] by (simp add: active_units_def hash_at_def)
  qed
qed

lemma active_units_ge:
  assumes "redis_inv ttl s"
  shows "row_units c k (hash_at s k) \<le> active_units c s"
  using active_units_sum_le [OF redis_invD(1) [OF assms] row_units_nonneg [OF assms]] .

lemma active_units_none:
  assumes "hm_ok (rd_hashes s)" "\<And>k. row_units c k (hash_at s k) = 0"
  shows "active_units c s = 0"
proof -
  have "row_units c k h = 0" if "(k, h) \<in> set (rd_hashes s)" for k h
    using assms(2) [of k] that hash_at_get [of s k h] hm_ok_get [OF assms(1), of k h] by simp
  then have "map (\<lambda>(k, h). row_units c k h) (rd_hashes s) = map (\<lambda>_. 0) (rd_hashes s)"
    by (intro map_cong) auto
  then show ?thesis by (simp only: active_units_def sum_list_0)
qed

text \<open>What an active reservation and its counter look like.\<close>

lemma active_rowD:
  assumes "redis_inv ttl s" "row_key k" "cmd_hget k ''status'' s = Some ''active''"
  obtains c a where "cmd_hget k ''counter_key'' s = Some c" "counter_name c"
    "cmd_hget k ''amount'' s = Some (int_text a)" "0 < a" "a < exact_max"
    "hash_at s c \<noteq> []" "hm_get (rd_deadlines s) k = Some (key_end c + ttl)"
    "hm_get (rd_deadlines s) c = Some (key_end c + ttl)"
    "a \<le> active_units c s" "active_units c s \<le> units_at s c ''reserved''"
    "\<And>c'. row_units c' k (hash_at s k) = (if c' = c then a else 0)"
proof -
  have there: "hash_at s k \<noteq> []" using assms(3) by (auto simp: cmd_hget_def)
  with redis_invD(3) [OF assms(1,2)] obtain c a where
    row: "cmd_hget k ''counter_key'' s = Some c" "counter_name c" "cmd_hget k ''amount'' s = Some (int_text a)"
      "0 < a" "a < exact_max" "hash_at s c \<noteq> []" "hm_get (rd_deadlines s) k = Some (key_end c + ttl)"
    using assms(3) unfolding reservation_wf_def by auto
  have units: "row_units c' k (hash_at s k) = (if c' = c then a else 0)" for c'
    using row(1,3) assms(2,3) by (simp add: row_units_def cmd_hget_def signed_value_int_text)
  have "a \<le> active_units c s" using active_units_ge [OF assms(1), of c k] units [of c] by simp
  moreover have "counter_wf ttl s c" using redis_invD(2) [OF assms(1) row(2)] .
  ultimately show ?thesis
    using that [OF row _ _ _ units] row(6) by (simp add: counter_wf_def)
qed

section \<open>Time passes\<close>

lemma map_of_filter_keys:
  "map_of (filter (\<lambda>e. P (fst e)) m) k = (if P k then map_of m k else None)"
  by (induction m) auto

definition past :: "nat \<Rightarrow> redis \<Rightarrow> string \<Rightarrow> bool" where
  "past n s k \<longleftrightarrow> (\<exists>t. hm_get (rd_deadlines s) k = Some t \<and> t \<le> rd_clock s + int n)"

lemma advance_simps:
  "rd_hashes (advance n s) = filter (\<lambda>e. \<not> past n s (fst e)) (rd_hashes s)"
  "rd_deadlines (advance n s) = filter (\<lambda>e. \<not> past n s (fst e)) (rd_deadlines s)"
  "rd_clock (advance n s) = rd_clock s + int n"
proof -
  have "(case hm_get (rd_deadlines s) k of None \<Rightarrow> False | Some t \<Rightarrow> t \<le> rd_clock s + int n) = past n s k" for k
    by (simp add: past_def split: option.split)
  then show "rd_hashes (advance n s) = filter (\<lambda>e. \<not> past n s (fst e)) (rd_hashes s)"
    "rd_deadlines (advance n s) = filter (\<lambda>e. \<not> past n s (fst e)) (rd_deadlines s)"
    "rd_clock (advance n s) = rd_clock s + int n"
    by (simp_all add: advance_def Let_def)
qed

lemma hash_at_advance: "hash_at (advance n s) k = (if past n s k then [] else hash_at s k)"
  by (simp add: hash_at_def advance_simps map_of_filter_keys [of "\<lambda>k. \<not> past n s k"])

lemma hget_advance: "cmd_hget k f (advance n s) = (if past n s k then None else cmd_hget k f s)"
  by (simp add: cmd_hget_def hash_at_advance)

lemma units_at_advance: "units_at (advance n s) k f = (if past n s k then 0 else units_at s k f)"
  by (simp add: units_at_def hget_advance)

lemma active_units_advance:
  assumes "redis_inv ttl s"
  shows "active_units c (advance n s) \<le> active_units c s"
proof -
  have *: "0 \<le> row_units c k h" if "(k, h) \<in> set (rd_hashes s)" for k h
    using row_units_nonneg [OF assms, of c k] that hash_at_get [of s k h]
      hm_ok_get [OF redis_invD(1) [OF assms], of k h] by simp
  have "sum_list (map (\<lambda>(k, h). row_units c k h) (filter P m)) \<le> sum_list (map (\<lambda>(k, h). row_units c k h) m)"
    if "set m \<subseteq> set (rd_hashes s)" for P m
    using that * by (induction m) (force split: prod.splits)+
  then show ?thesis by (simp add: active_units_def advance_simps)
qed

lemma past_deadline:
  assumes "hm_get (rd_deadlines s) k = Some d" "hm_get (rd_deadlines s) l = Some d"
  shows "past n s k \<longleftrightarrow> past n s l"
  using assms by (simp add: past_def)

lemma active_units_gone:
  assumes "redis_inv ttl s" "counter_name c" "past n s c"
  shows "active_units c (advance n s) = 0"
proof (rule active_units_none)
  show "hm_ok (rd_hashes (advance n s))"
    using redis_invD(1) [OF assms(1)]
    by (simp add: advance_simps hm_ok_def hm_keys_def distinct_map_filter)
  fix k
  show "row_units c k (hash_at (advance n s) k) = 0"
  proof (cases "row_key k \<and> cmd_hget k ''status'' s = Some ''active''")
    case True
    obtain c' a where row: "hm_get (rd_deadlines s) k = Some (key_end c' + ttl)"
        "hm_get (rd_deadlines s) c' = Some (key_end c' + ttl)"
        "row_units c k (hash_at s k) = (if c = c' then a else 0)"
      by (rule active_rowD [OF assms(1) conjunct1 [OF True] conjunct2 [OF True]]) (rule that)
    then show ?thesis
      using past_deadline [OF row(1,2), of n] assms(3) by (cases "c = c'") (simp_all add: hash_at_advance)
  next
    case False
    then show ?thesis
      by (auto simp: hash_at_advance row_units_def cmd_hget_def)
  qed
qed

lemma redis_inv_advance:
  assumes "redis_inv ttl s"
  shows "redis_inv ttl (advance n s)"
  unfolding redis_inv_def
proof (intro conjI allI impI)
  show "hm_ok (rd_hashes (advance n s))"
    using redis_invD(1) [OF assms]
    by (simp add: advance_simps hm_ok_def hm_keys_def distinct_map_filter)
next
  fix c assume c: "counter_name c"
  note wf = redis_invD(2) [OF assms c, unfolded counter_wf_def]
  show "counter_wf ttl (advance n s) c"
  proof (cases "past n s c")
    case True
    then show ?thesis
      using active_units_gone [OF assms c True]
      by (simp add: counter_wf_def holds_def hget_advance units_at_advance hash_at_advance exact_max_def)
  next
    case False
    then have "hm_get (rd_deadlines (advance n s)) c = hm_get (rd_deadlines s) c"
      by (simp add: advance_simps map_of_filter_keys [of "\<lambda>k. \<not> past n s k"])
    then show ?thesis
      using wf False active_units_advance [OF assms, of c n]
      by (simp add: counter_wf_def holds_def hget_advance units_at_advance hash_at_advance)
  qed
next
  fix k assume k: "row_key k" "hash_at (advance n s) k \<noteq> []"
  then have here: "\<not> past n s k" "hash_at s k \<noteq> []" by (simp_all add: hash_at_advance split: if_splits)
  from redis_invD(3) [OF assms k(1) here(2)] obtain c a where
    row: "cmd_hget k ''counter_key'' s = Some c" "counter_name c" "cmd_hget k ''amount'' s = Some (int_text a)"
      "0 < a" "a < exact_max" "cmd_hget k ''status'' s \<in> Some ` {''active'', ''committed'', ''refunded'', ''expired''}"
      "cmd_hget k ''status'' s = Some ''active'' \<longrightarrow>
         hash_at s c \<noteq> [] \<and> hm_get (rd_deadlines s) k = Some (key_end c + ttl)"
    unfolding reservation_wf_def by blast
  have "hash_at (advance n s) c \<noteq> [] \<and> hm_get (rd_deadlines (advance n s)) k = Some (key_end c + ttl)"
    if "cmd_hget k ''status'' s = Some ''active''"
  proof -
    have "hm_get (rd_deadlines s) c = Some (key_end c + ttl)"
      using redis_invD(2) [OF assms row(2)] row(7) that by (simp add: counter_wf_def)
    then have "\<not> past n s c" using past_deadline [of s k "key_end c + ttl" c n] row(7) that here(1) by simp
    then show ?thesis
      using row(7) that here(1)
      by (simp add: hash_at_advance advance_simps map_of_filter_keys [of "\<lambda>k. \<not> past n s k"])
  qed
  then show "reservation_wf ttl (advance n s) k"
    unfolding reservation_wf_def using row here(1)
    by (intro exI [of _ c] exI [of _ a]) (simp add: hget_advance)
next
  fix k t assume "hm_get (rd_deadlines (advance n s)) k = Some t"
  then have "\<not> past n s k" "hm_get (rd_deadlines s) k = Some t"
    by (simp_all add: advance_simps map_of_filter_keys [of "\<lambda>k. \<not> past n s k"] split: if_splits)
  then show "rd_clock (advance n s) < t" by (simp add: past_def advance_simps)
qed

lemma counter_units_nonneg:
  assumes "redis_inv ttl s" "counter_name c"
  shows "0 \<le> units_at s c ''committed''" "0 \<le> units_at s c ''reserved''"
    "units_at s c ''committed'' + units_at s c ''reserved'' < exact_max"
  using redis_invD(2) [OF assms] by (simp_all add: counter_wf_def holds_def)

lemma redis_units_advance:
  assumes "redis_inv ttl s"
  shows "redis_units (advance n s) c \<le> redis_units s c"
  using counter_units_nonneg [OF assms, of c] by (simp add: redis_units_def units_at_advance)

section \<open>Settling a reservation\<close>

text \<open>The writes of the cleanup and the finish script for an active row of counter \<open>c\<close> with amount \<open>a\<close>.\<close>

definition settle_writes :: "string \<Rightarrow> string \<Rightarrow> string \<Rightarrow> int \<Rightarrow> redis \<Rightarrow> redis" where
  "settle_writes status k c a s =
     (let s1 = cmd_hset c ''reserved'' (int_text (units_at s c ''reserved'' - a)) s;
          s2 = (if status = ''committed''
                then cmd_hset c ''committed'' (int_text (units_at s c ''committed'' + a)) s1 else s1)
      in cmd_hset k ''status'' status s2)"

definition ended_status :: "string \<Rightarrow> bool" where
  "ended_status st \<longleftrightarrow> st \<in> {''committed'', ''refunded'', ''expired''}"

lemma active_units_hset_other [simp]:
  "hm_ok (rd_hashes s) \<Longrightarrow> \<not> row_key k \<Longrightarrow> active_units c (cmd_hset k f v s) = active_units c s"
  by (simp add: active_units_hset)

lemma counter_not_row: "counter_name c \<Longrightarrow> \<not> row_key c"
  using row_key_not_counter by blast

lemma settle_writes_reads:
  assumes "counter_name c" "row_key k"
  shows "cmd_hget k' f (settle_writes st k c a s) =
      (if k' = k \<and> f = ''status'' then Some st
       else if k' = c \<and> f = ''reserved'' then Some (int_text (units_at s c ''reserved'' - a))
       else if k' = c \<and> f = ''committed'' \<and> st = ''committed''
       then Some (int_text (units_at s c ''committed'' + a))
       else cmd_hget k' f s)"
    and "hash_at (settle_writes st k c a s) k' = [] \<longleftrightarrow> hash_at s k' = [] \<and> k' \<noteq> c \<and> k' \<noteq> k"
    and "rd_deadlines (settle_writes st k c a s) = rd_deadlines s"
    and "rd_clock (settle_writes st k c a s) = rd_clock s"
  using assms by (auto simp: settle_writes_def Let_def dest: row_key_not_counter)

lemma settle_writes_units:
  assumes "redis_inv ttl s" "row_key k" "cmd_hget k ''status'' s = Some ''active''" "ended_status st"
    and "counter_name c" "\<And>c'. row_units c' k (hash_at s k) = (if c' = c then a else 0)"
  shows "active_units c' (settle_writes st k c a s) = active_units c' s - (if c' = c then a else 0)"
proof -
  have ok: "hm_ok (rd_hashes s)" by (rule redis_invD(1) [OF assms(1)])
  have "k \<noteq> c" using assms(2,5) row_key_not_counter by blast
  moreover have "row_units d k (hm_insert ''status'' v (hash_at s k)) = 0" if "v \<noteq> ''active''" for d v
    using that by (simp add: row_units_def hmap_simps)
  moreover have "st \<noteq> ''active''" using assms(4) by (auto simp: ended_status_def)
  ultimately show ?thesis
    using ok assms(5,6) counter_not_row [OF assms(5)]
    by (simp add: settle_writes_def Let_def active_units_hset [of _ c' k])
qed

lemma settle_writes_inv:
  assumes "redis_inv ttl s" "row_key k" "cmd_hget k ''status'' s = Some ''active''" "ended_status st"
    and row: "cmd_hget k ''counter_key'' s = Some c" "counter_name c"
      "cmd_hget k ''amount'' s = Some (int_text a)" "0 < a" "a < exact_max" "hash_at s c \<noteq> []"
      "a \<le> active_units c s" "active_units c s \<le> units_at s c ''reserved''"
      "\<And>c'. row_units c' k (hash_at s k) = (if c' = c then a else 0)"
  shows "redis_inv ttl (settle_writes st k c a s)" (is "redis_inv ttl ?s")
    and "redis_units (settle_writes st k c a s) c' \<le> redis_units s c'"
proof -
  note reads = settle_writes_reads [OF row(2) assms(2)]
  note units = settle_writes_units [OF assms(1-4) row(2,9)]
  have at: "units_at ?s k' f =
      (if k' = k \<and> f = ''status'' then signed_value st
       else if k' = c \<and> f = ''reserved'' then units_at s c ''reserved'' - a
       else if k' = c \<and> f = ''committed'' \<and> st = ''committed'' then units_at s c ''committed'' + a
       else units_at s k' f)" for k' f
    by (simp add: units_at_def reads(1) signed_value_int_text)
  have ck: "k \<noteq> c" using assms(2) row(2) row_key_not_counter by blast
  show "redis_inv ttl ?s"
    unfolding redis_inv_def
  proof (intro conjI allI impI)
    show "hm_ok (rd_hashes ?s)"
      using redis_invD(1) [OF assms(1)] by (simp add: settle_writes_def Let_def)
  next
    fix d assume d: "counter_name d"
    then have dk: "d \<noteq> k" using assms(2) row_key_not_counter by blast
    note wf = redis_invD(2) [OF assms(1) d, unfolded counter_wf_def holds_def]
    show "counter_wf ttl ?s d"
    proof (cases "d = c")
      case True
      with wf row ck show ?thesis
        by (auto simp: counter_wf_def holds_def reads at units)
    next
      case False
      with wf dk show ?thesis by (simp add: counter_wf_def holds_def reads at units)
    qed
  next
    fix l assume l: "row_key l" "hash_at ?s l \<noteq> []"
    then have lc: "l \<noteq> c" using row(2) row_key_not_counter by blast
    then have "hash_at s l \<noteq> []" using l(2) assms(3) by (auto simp: reads(2) cmd_hget_def)
    from redis_invD(3) [OF assms(1) l(1) this] obtain c1 a1 where
      "cmd_hget l ''counter_key'' s = Some c1" "counter_name c1" "cmd_hget l ''amount'' s = Some (int_text a1)"
      "0 < a1" "a1 < exact_max" "cmd_hget l ''status'' s \<in> Some ` {''active'', ''committed'', ''refunded'', ''expired''}"
      "cmd_hget l ''status'' s = Some ''active'' \<longrightarrow>
         hash_at s c1 \<noteq> [] \<and> hm_get (rd_deadlines s) l = Some (key_end c1 + ttl)"
      unfolding reservation_wf_def by blast
    with lc assms(4) show "reservation_wf ttl ?s l"
      unfolding reservation_wf_def
      by (intro exI [of _ c1] exI [of _ a1]) (auto simp: reads ended_status_def)
  next
    fix l t assume "hm_get (rd_deadlines ?s) l = Some t"
    then show "rd_clock ?s < t" using redis_invD(4) [OF assms(1)] by (simp add: reads)
  qed
  show "redis_units ?s c' \<le> redis_units s c'"
  proof (cases "counter_name c'")
    case True
    then have "c' \<noteq> k" using assms(2) row_key_not_counter by blast
    then show ?thesis
      using row(4) by (auto simp: redis_units_def at)
  qed (simp add: redis_units_def)
qed

section \<open>Admitting a reservation\<close>

lemma hash_at_delete [simp]: "hash_at (delete_key k s) l = (if l = k then [] else hash_at s l)"
  by (simp add: hash_at_def delete_key_def delete_conv')

lemma hash_at_expireat [simp]:
  "hash_at (cmd_expireat k t s) l = (if l = k \<and> t \<le> rd_clock s then [] else hash_at s l)"
  by (simp add: cmd_expireat_def, simp add: hash_at_def)

lemma expireat_simps [simp]:
  "rd_clock (cmd_expireat k t s) = rd_clock s" "rd_sequence (cmd_expireat k t s) = rd_sequence s"
  "rd_expirations (cmd_expireat k t s) = rd_expirations s"
  by (simp_all add: cmd_expireat_def delete_key_def)

lemma deadline_expireat:
  "hm_get (rd_deadlines (cmd_expireat k t s)) l =
     (if l = k \<and> hash_at s k \<noteq> [] then (if t \<le> rd_clock s then None else Some t)
      else hm_get (rd_deadlines s) l)"
  by (simp add: cmd_expireat_def delete_key_def delete_conv' hmap_simps)

lemma active_units_delete:
  "hm_ok (rd_hashes s) \<Longrightarrow> active_units c (delete_key k s) = active_units c s - row_units c k (hash_at s k)"
  using sum_delete [of "rd_hashes s" "row_units c" k]
  by (simp add: active_units_def hash_at_def hm_ok_def hm_keys_def delete_key_def split: option.splits)

lemma active_units_expireat:
  "hm_ok (rd_hashes s) \<Longrightarrow> active_units c (cmd_expireat k t s) =
     active_units c s - (if t \<le> rd_clock s then row_units c k (hash_at s k) else 0)"
  by (simp add: cmd_expireat_def active_units_delete, simp add: active_units_def)

lemma hm_ok_expireat [simp]: "hm_ok (rd_hashes s) \<Longrightarrow> hm_ok (rd_hashes (cmd_expireat k t s))"
  by (simp add: cmd_expireat_def delete_key_def hm_ok_def hm_keys_def distinct_delete)

lemma zset_simps [simp]:
  "rd_hashes (cmd_zadd score member s) = rd_hashes s" "rd_deadlines (cmd_zadd score member s) = rd_deadlines s"
  "rd_clock (cmd_zadd score member s) = rd_clock s" "rd_sequence (cmd_zadd score member s) = rd_sequence s"
  "rd_hashes (cmd_zrem member s) = rd_hashes s" "rd_deadlines (cmd_zrem member s) = rd_deadlines s"
  "rd_clock (cmd_zrem member s) = rd_clock s" "rd_sequence (cmd_zrem member s) = rd_sequence s"
  by (simp_all add: cmd_zadd_def cmd_zrem_def)

text \<open>Only hashes, deadlines and the clock matter to the invariant.\<close>

lemma redis_inv_cong:
  assumes "rd_hashes s' = rd_hashes s" "rd_deadlines s' = rd_deadlines s" "rd_clock s' = rd_clock s"
  shows "redis_inv ttl s' = redis_inv ttl s" "redis_units s' c = redis_units s c"
    "cmd_hget k f s' = cmd_hget k f s" "hash_at s' k = hash_at s k" "active_units c s' = active_units c s"
    "units_at s' k f = units_at s k f"
proof -
  show h: "hash_at s' k = hash_at s k" for k using assms(1) by (simp add: hash_at_def)
  show g: "cmd_hget k f s' = cmd_hget k f s" for k f by (simp add: cmd_hget_def h)
  show u: "units_at s' k f = units_at s k f" for k f by (simp add: units_at_def g)
  show a: "active_units c s' = active_units c s" for c by (simp add: active_units_def assms(1))
  show "redis_units s' c = redis_units s c" by (simp add: redis_units_def u)
  show "redis_inv ttl s' = redis_inv ttl s"
    unfolding redis_inv_def counter_wf_def holds_def reservation_wf_def g u a h assms by (rule refl)
qed

definition row_writes :: "string \<Rightarrow> string \<Rightarrow> int \<Rightarrow> int \<Rightarrow> redis \<Rightarrow> redis" where
  "row_writes rk c a e s =
     cmd_hset rk ''expires_at'' (int_text e) (cmd_hset rk ''status'' ''active''
       (cmd_hset rk ''amount'' (int_text a) (cmd_hset rk ''counter_key'' c s)))"

definition admit_writes ::
    "string \<Rightarrow> string \<Rightarrow> string \<Rightarrow> string \<Rightarrow> int \<Rightarrow> int \<Rightarrow> string \<Rightarrow> int \<Rightarrow> redis \<Rightarrow> redis" where
  "admit_writes c rk ik idempotency a e i retention s =
     (let s1 = cmd_hset c ''reserved'' (int_text (units_at s c ''reserved'' + a)) s;
          s2 = cmd_expireat rk retention (cmd_expireat c retention (cmd_zadd e i (row_writes rk c a e s1)))
      in if idempotency = [] then s2
         else cmd_expireat ik retention (cmd_hset ik idempotency i s2))"

lemma row_writes_simps [simp]:
  "hash_at (row_writes rk c a e s) k = [] \<longleftrightarrow> hash_at s k = [] \<and> k \<noteq> rk"
  "rd_clock (row_writes rk c a e s) = rd_clock s" "rd_deadlines (row_writes rk c a e s) = rd_deadlines s"
  "hm_ok (rd_hashes s) \<Longrightarrow> hm_ok (rd_hashes (row_writes rk c a e s))"
  "k \<noteq> rk \<Longrightarrow> hash_at (row_writes rk c a e s) k = hash_at s k"
  "cmd_hget k f (row_writes rk c a e s) =
     (if k \<noteq> rk then cmd_hget k f s
      else if f = ''expires_at'' then Some (int_text e) else if f = ''status'' then Some ''active''
      else if f = ''amount'' then Some (int_text a) else if f = ''counter_key'' then Some c
      else cmd_hget k f s)"
  by (auto simp: row_writes_def)

lemma row_writes_row:
  "row_key rk \<Longrightarrow> row_units d rk (hash_at (row_writes rk c a e s) rk) = (if d = c then a else 0)"
  by (simp add: row_units_def row_writes_def hmap_simps signed_value_int_text)

lemma row_writes_units:
  assumes "hm_ok (rd_hashes s)"
  shows "active_units d (row_writes rk c a e s) =
    active_units d s - row_units d rk (hash_at s rk) + row_units d rk (hash_at (row_writes rk c a e s) rk)"
  using assms by (simp add: row_writes_def active_units_hset)

lemma admit_writes_reads:
  fixes c rk ik idempotency i :: string and a e retention :: int and s :: redis
  assumes "counter_name c" "row_key rk" "\<not> counter_name ik" "\<not> row_key ik" "hm_ok (rd_hashes s)"
  defines "s' \<equiv> admit_writes c rk ik idempotency a e i retention s"
  shows "l \<noteq> ik \<Longrightarrow> hash_at s' l =
      (if (l = c \<or> l = rk) \<and> retention \<le> rd_clock s then []
       else hash_at (row_writes rk c a e (cmd_hset c ''reserved'' (int_text (units_at s c ''reserved'' + a)) s)) l)"
    and "l \<noteq> ik \<Longrightarrow> hm_get (rd_deadlines s') l =
      (if l = c \<or> l = rk then (if retention \<le> rd_clock s then None else Some retention)
       else hm_get (rd_deadlines s) l)"
    and "hm_get (rd_deadlines s') ik = Some v \<Longrightarrow>
      hm_get (rd_deadlines s) ik = Some v \<or> v = retention \<and> rd_clock s < retention"
    and "active_units d s' = active_units d s - row_units d rk (hash_at s rk)
      + (if retention \<le> rd_clock s then 0 else if d = c then a else 0)"
    and "rd_clock s' = rd_clock s" "hm_ok (rd_hashes s')"
proof -
  define s1 where "s1 = cmd_hset c ''reserved'' (int_text (units_at s c ''reserved'' + a)) s"
  define s2 where "s2 = cmd_zadd e i (row_writes rk c a e s1)"
  define s4 where "s4 = cmd_expireat rk retention (cmd_expireat c retention s2)"
  have apart: "c \<noteq> rk" "c \<noteq> ik" "rk \<noteq> ik" using assms(1-4) row_key_not_counter by blast+
  have s': "s' = (if idempotency = [] then s4 else cmd_expireat ik retention (cmd_hset ik idempotency i s4))"
    by (simp add: s'_def admit_writes_def Let_def s4_def s2_def s1_def)
  have h2: "hash_at s2 l = hash_at (row_writes rk c a e s1) l" for l by (simp add: s2_def hash_at_def)
  have full: "hash_at s2 c \<noteq> []" "hash_at s2 rk \<noteq> []" by (simp_all add: h2 s1_def)
  have clock: "rd_clock s2 = rd_clock s" "rd_deadlines s2 = rd_deadlines s" by (simp_all add: s2_def s1_def)
  have ok: "hm_ok (rd_hashes s1)" "hm_ok (rd_hashes s2)" using assms(5) by (simp_all add: s1_def s2_def)
  show "l \<noteq> ik \<Longrightarrow> hash_at s' l =
      (if (l = c \<or> l = rk) \<and> retention \<le> rd_clock s then []
       else hash_at (row_writes rk c a e (cmd_hset c ''reserved'' (int_text (units_at s c ''reserved'' + a)) s)) l)"
    by (simp add: s' s4_def h2 clock s1_def [symmetric])
  show "l \<noteq> ik \<Longrightarrow> hm_get (rd_deadlines s') l =
      (if l = c \<or> l = rk then (if retention \<le> rd_clock s then None else Some retention)
       else hm_get (rd_deadlines s) l)"
    using full apart by (auto simp: s' s4_def deadline_expireat clock)
  show "hm_get (rd_deadlines s') ik = Some v \<Longrightarrow>
      hm_get (rd_deadlines s) ik = Some v \<or> v = retention \<and> rd_clock s < retention"
    using apart by (auto simp: s' s4_def deadline_expireat clock split: if_splits)
  have s2_units: "active_units d s2 = active_units d s - row_units d rk (hash_at s rk) + (if d = c then a else 0)" for d
  proof -
    have "active_units d s2 = active_units d (row_writes rk c a e s1)"
      by (simp add: s2_def active_units_def)
    also have "\<dots> = active_units d s1 - row_units d rk (hash_at s1 rk) + (if d = c then a else 0)"
      by (simp add: row_writes_units [OF ok(1)] row_writes_row [OF assms(2)])
    moreover have "active_units d s1 = active_units d s" "hash_at s1 rk = hash_at s rk"
      using assms(5) counter_not_row [OF assms(1)] apart by (simp_all add: s1_def)
    ultimately show ?thesis by simp
  qed
  have s4_ok: "hm_ok (rd_hashes s4)" using ok(2) by (simp add: s4_def)
  have "active_units d s4 = active_units d s - row_units d rk (hash_at s rk)
      + (if retention \<le> rd_clock s then 0 else if d = c then a else 0)" for d
  proof -
    have "row_units d rk (hash_at s2 rk) = (if d = c then a else 0)"
      using row_writes_row [OF assms(2), of d c a e s1] by (simp add: h2)
    then show ?thesis
      using ok(2) apart counter_not_row [OF assms(1)]
      by (simp add: s4_def active_units_expireat s2_units clock)
  qed
  then show "active_units d s' = active_units d s - row_units d rk (hash_at s rk)
      + (if retention \<le> rd_clock s then 0 else if d = c then a else 0)"
    using s4_ok assms(4) by (simp add: s' active_units_expireat)
  show "rd_clock s' = rd_clock s" by (simp add: s' s4_def clock)
  show "hm_ok (rd_hashes s')" using ok(2) by (simp add: s' s4_def)
qed

lemma admit_writes_inv:
  fixes c rk ik idempotency i :: string and a e retention :: int and s :: redis
  assumes "redis_inv ttl s" "counter_name c" "row_key rk" "\<not> counter_name ik" "\<not> row_key ik"
    and "0 < a" "units_at s c ''committed'' + units_at s c ''reserved'' + a < exact_max"
    and "retention = key_end c + ttl"
  defines "s' \<equiv> admit_writes c rk ik idempotency a e i retention s"
  shows "redis_inv ttl s'"
    and "redis_units s' d = (if d = c then (if retention \<le> rd_clock s then 0 else redis_units s c + nat a) else redis_units s d)"
proof -
  note reads = admit_writes_reads [OF assms(2-5) redis_invD(1) [OF assms(1)], where idempotency = idempotency
      and a = a and e = e and i = i and retention = retention, folded s'_def]
  have apart: "c \<noteq> rk" "c \<noteq> ik" "rk \<noteq> ik" using assms(2-5) row_key_not_counter by blast+
  note cw = redis_invD(2) [OF assms(1), unfolded counter_wf_def holds_def]
  note nonneg = counter_units_nonneg [OF assms(1)]
  have old: "0 \<le> row_units d rk (hash_at s rk)" for d by (rule row_units_nonneg [OF assms(1)])
  have gone: "hash_at s c = []" if "retention \<le> rd_clock s"
    using cw [OF assms(2)] redis_invD(4) [OF assms(1), of c] that assms(8) by force
  have hget: "cmd_hget l f s' =
      (if (l = c \<or> l = rk) \<and> retention \<le> rd_clock s then None
       else cmd_hget l f (row_writes rk c a e (cmd_hset c ''reserved'' (int_text (units_at s c ''reserved'' + a)) s)))"
    if "l \<noteq> ik" for l f
    using reads(1) [OF that] by (simp add: cmd_hget_def)
  have at: "units_at s' l f =
      (if l = c then (if retention \<le> rd_clock s then 0
         else if f = ''reserved'' then units_at s c ''reserved'' + a else units_at s c f) else units_at s l f)"
    if "l \<noteq> ik" "l \<noteq> rk" for l f
    using that by (simp add: units_at_def hget signed_value_int_text)
  show "redis_inv ttl s'"
    unfolding redis_inv_def
  proof (intro conjI allI impI)
    fix l assume l: "counter_name l"
    then have ne: "l \<noteq> ik" "l \<noteq> rk" using assms(3,4) row_key_not_counter by blast+
    show "counter_wf ttl s' l"
    proof (cases "l = c")
      case False
      with ne old [of l] cw [OF l] reads(1,2) [of l] show ?thesis
        by (simp add: counter_wf_def holds_def hget at reads(4))
    next
      case c: True
      show ?thesis
      proof (cases "retention \<le> rd_clock s")
        case True
        have "units_at s c ''reserved'' = 0" using gone [OF True] by (simp add: units_at_def cmd_hget_def)
        then have "active_units c s \<le> 0" using cw [OF assms(2)] by simp
        with True c ne old [of c] reads(1) [of c] show ?thesis
          by (simp add: counter_wf_def holds_def hget at reads(4) exact_max_def)
      next
        case False
        with c ne old [of c] cw [OF assms(2)] assms(6-8) reads(1,2) [of c] apart show ?thesis
          by (auto simp: counter_wf_def holds_def hget at reads(4))
      qed
    qed
  next
    fix l assume l: "row_key l" "hash_at s' l \<noteq> []"
    then have ne: "l \<noteq> ik" "l \<noteq> c" using assms(2,5) row_key_not_counter by blast+
    show "reservation_wf ttl s' l"
    proof (cases "l = rk")
      case True
      then have "\<not> retention \<le> rd_clock s" using l(2) reads(1) [of rk] apart by auto
      moreover have "a < exact_max" using assms(7) nonneg [OF assms(2)] by simp
      ultimately show ?thesis
        unfolding reservation_wf_def using True assms(2,6,8) apart
        by (intro exI [of _ c] exI [of _ a]) (simp add: hget reads(1,2))
    next
      case False
      then have "hash_at s l \<noteq> []" using l(2) ne reads(1) [of l] by simp
      from redis_invD(3) [OF assms(1) l(1) this] obtain c1 a1 where
        row: "cmd_hget l ''counter_key'' s = Some c1" "counter_name c1" "cmd_hget l ''amount'' s = Some (int_text a1)"
        "0 < a1" "a1 < exact_max" "cmd_hget l ''status'' s \<in> Some ` {''active'', ''committed'', ''refunded'', ''expired''}"
        "cmd_hget l ''status'' s = Some ''active'' \<longrightarrow>
           hash_at s c1 \<noteq> [] \<and> hm_get (rd_deadlines s) l = Some (key_end c1 + ttl)"
        unfolding reservation_wf_def by blast
      have "c1 \<noteq> ik" "c1 \<noteq> rk" using row(2) assms(3,4) row_key_not_counter by blast+
      then have "hash_at s' c1 \<noteq> []" if "hash_at s c1 \<noteq> []"
        using that gone reads(1) [of c1] by auto
      with row ne False show ?thesis
        unfolding reservation_wf_def by (intro exI [of _ c1] exI [of _ a1]) (auto simp: hget reads(2))
    qed
  next
    fix l d assume d: "hm_get (rd_deadlines s') l = Some d"
    show "rd_clock s' < d"
    proof (cases "l = ik")
      case True
      with d reads(3) [of d] redis_invD(4) [OF assms(1), of ik d] show ?thesis by (auto simp: reads(5))
    next
      case False
      with d reads(2) [of l] redis_invD(4) [OF assms(1), of l d] show ?thesis
        by (auto simp: reads(5) split: if_splits)
    qed
  qed (rule reads(6))
  show "redis_units s' d =
      (if d = c then (if retention \<le> rd_clock s then 0 else redis_units s c + nat a) else redis_units s d)"
  proof (cases "counter_name d")
    case True
    then have "d \<noteq> ik" "d \<noteq> rk" using assms(3,4) row_key_not_counter by blast+
    with True nonneg [OF assms(2)] assms(2,6) show ?thesis
      by (simp add: redis_units_def at nat_add_distrib)
  qed (use assms(2) in \<open>auto simp: redis_units_def\<close>)
qed

end
