(* ===== verification/Redis_Contract.thy ===== *)
theory Redis_Contract
  imports Redis_Invariant
begin

text \<open>
  What the scripts do within the range where their numbers are exact, what the operations do to the
  server however its calls fail, and the laws of the store contract.
\<close>

section \<open>Numbers\<close>

lemma lua_lawsD:
  assumes "lua_laws L" "- exact_max \<le> n" "n \<le> exact_max"
  shows "lua_tonumber L (int_text n) = Some n" "lua_round L n = n" "lua_argument L n = int_text n"
    "lua_reply L n = n"
  using assms by (auto simp: lua_laws_def exact_max_def)

lemma lua_laws_large:
  assumes "lua_laws L" "exact_max < n"
  shows "exact_max \<le> lua_round L n" "\<exists>m. lua_tonumber L (int_text n) = Some m \<and> exact_max \<le> m"
  using assms by (auto simp: lua_laws_def exact_max_def)

lemma needed_Some [simp]: "needed L (Some x) s = (Inr x, s)"
  by (simp add: needed_def)

lemma needed_None [simp]: "needed L None s = (Inl (lua_error L ''nil''), s)"
  by (simp add: needed_def)

lemma int_text_0 [simp]: "int_text 0 = ''0''"
  by code_simp

lemma holds_number:
  assumes "lua_laws L" "holds s k f" "units_at s k f \<le> exact_max"
  shows "number_at L k f s = Some (units_at s k f)"
proof (cases "cmd_hget k f s")
  case None
  then show ?thesis
    using lua_lawsD(1) [OF assms(1), of 0] by (simp add: number_at_def units_at_def exact_max_def)
next
  case (Some v)
  then have "v = int_text (units_at s k f)" "0 \<le> units_at s k f" using assms(2) by (auto simp: holds_def)
  then show ?thesis using Some lua_lawsD(1) [OF assms(1) _ assms(3)] by (simp add: number_at_def exact_max_def)
qed

lemma counter_numbers:
  assumes "lua_laws L" "redis_inv ttl s" "counter_name c"
  shows "number_at L c ''committed'' s = Some (units_at s c ''committed'')"
    and "number_at L c ''reserved'' s = Some (units_at s c ''reserved'')"
  using holds_number [OF assms(1), of s c] counter_units_nonneg [OF assms(2,3)] redis_invD(2) [OF assms(2,3)]
  by (simp_all add: counter_wf_def)

lemma hincrby_exact:
  assumes "holds s k f" "0 \<le> n" "units_at s k f + n \<le> exact_max"
  shows "cmd_hincrby L k f (int_text n) s = (Inr (), cmd_hset k f (int_text (units_at s k f + n)) s)"
proof -
  have n: "read_integer (int_text n) = Some n"
    using assms by (intro read_integer_int_text) (simp_all add: holds_def exact_max_def)
  have "(case cmd_hget k f s of None \<Rightarrow> ''0'' | Some v \<Rightarrow> v) = int_text (units_at s k f)"
    using assms(1) by (auto simp: holds_def units_at_def split: option.splits)
  moreover have "read_integer (int_text (units_at s k f)) = Some (units_at s k f)"
    using assms by (intro read_integer_int_text) (simp_all add: holds_def exact_max_def)
  ultimately show ?thesis
    using n assms by (simp add: cmd_hincrby_def i64_max_def holds_def exact_max_def)
qed

section \<open>Scripts that lower counters\<close>

definition lowers :: "int \<Rightarrow> redis \<Rightarrow> redis \<Rightarrow> bool" where
  "lowers ttl s s' \<longleftrightarrow> redis_inv ttl s' \<and> (\<forall>c. redis_units s' c \<le> redis_units s c)"

lemma lowers_refl: "redis_inv ttl s \<Longrightarrow> lowers ttl s s"
  by (simp add: lowers_def)

lemma lowers_trans: "lowers ttl s t \<Longrightarrow> lowers ttl t u \<Longrightarrow> lowers ttl s u"
  unfolding lowers_def by (meson order_trans)

lemma lowers_inv: "lowers ttl s s' \<Longrightarrow> redis_inv ttl s'"
  by (simp add: lowers_def)

lemma lowers_advance: "redis_inv ttl s \<Longrightarrow> lowers ttl s (advance n s)"
  by (simp add: lowers_def redis_inv_advance redis_units_advance)

lemma lowers_zrem [simp]: "lowers ttl s (cmd_zrem i s') = lowers ttl s s'"
  unfolding lowers_def by (simp add: redis_inv_cong(1,2) [of "cmd_zrem i s'" s'])

lemma lowers_settle:
  assumes "redis_inv ttl s" "row_key k" "cmd_hget k ''status'' s = Some ''active''" "ended_status st"
  obtains c a where "cmd_hget k ''counter_key'' s = Some c" "counter_name c"
    "cmd_hget k ''amount'' s = Some (int_text a)" "0 < a" "a < exact_max"
    "a \<le> units_at s c ''reserved''" "lowers ttl s (settle_writes st k c a s)"
proof -
  obtain c a where row: "cmd_hget k ''counter_key'' s = Some c" "counter_name c"
    "cmd_hget k ''amount'' s = Some (int_text a)" "0 < a" "a < exact_max" "hash_at s c \<noteq> []"
    "a \<le> active_units c s" "active_units c s \<le> units_at s c ''reserved''"
    "\<And>c'. row_units c' k (hash_at s k) = (if c' = c then a else 0)"
    by (rule active_rowD [OF assms(1-3)]) (rule that)
  note settle = settle_writes_inv [OF assms row]
  have "lowers ttl s (settle_writes st k c a s)" unfolding lowers_def using settle by blast
  with row show ?thesis by (intro that [of c a]) auto
qed

lemma lower_reserved_exact:
  assumes "lua_laws L" "redis_inv ttl s" "cmd_hget k ''counter_key'' s = Some c" "counter_name c"
    "cmd_hget k ''amount'' s = Some (int_text a)" "0 < a" "a < exact_max" "a \<le> units_at s c ''reserved''"
  shows "lower_reserved L k s = (Inr c, cmd_hset c ''reserved'' (int_text (units_at s c ''reserved'' - a)) s)"
proof -
  have "number_at L k ''amount'' s = Some a"
    using lua_lawsD(1) [OF assms(1), of a] assms(5-7) by (simp add: number_at_def)
  moreover have "lua_round L (units_at s c ''reserved'' - a) = units_at s c ''reserved'' - a"
    "lua_argument L (units_at s c ''reserved'' - a) = int_text (units_at s c ''reserved'' - a)"
    using counter_units_nonneg [OF assms(2,4)] assms(6,8) by (simp_all add: lua_lawsD [OF assms(1)])
  moreover have "max (units_at s c ''reserved'' - a) 0 = units_at s c ''reserved'' - a" using assms(8) by simp
  ultimately show ?thesis
    using assms(3) counter_numbers(2) [OF assms(1,2,4)] by (simp add: lower_reserved_def)
qed

text \<open>Cleaning up one member of the sorted set: what it leaves, and what it writes.\<close>

lemma cleanup_one_cases:
  assumes "lua_laws L" "redis_inv ttl s"
  obtains s' where "cleanup_one L i s = (Inr (), cmd_zrem i s')" "lowers ttl s (cmd_zrem i s')"
    "s' = s \<or> (\<exists>c a. counter_name c \<and> s' = settle_writes ''expired'' (redis_reservation_prefix @ i) c a s)"
proof (cases "cmd_hget (redis_reservation_prefix @ i) ''status'' s = Some ''active''")
  case True
  obtain c a where row: "cmd_hget (redis_reservation_prefix @ i) ''counter_key'' s = Some c" "counter_name c"
    "cmd_hget (redis_reservation_prefix @ i) ''amount'' s = Some (int_text a)" "0 < a" "a < exact_max"
    "a \<le> units_at s c ''reserved''"
    "lowers ttl s (settle_writes ''expired'' (redis_reservation_prefix @ i) c a s)"
    by (rule lowers_settle [OF assms(2) row_key_prefix True, of "''expired''"]) (simp add: ended_status_def, rule that)
  have "cleanup_one L i s = (Inr (), cmd_zrem i (settle_writes ''expired'' (redis_reservation_prefix @ i) c a s))"
    using True by (simp add: cleanup_one_def Let_def lower_reserved_exact [OF assms row(1-6)] settle_writes_def)
  then show ?thesis by (rule that) (use row(2,7) in \<open>simp, blast\<close>)
next
  case False
  then have "cleanup_one L i s = (Inr (), cmd_zrem i s)" by (simp add: cleanup_one_def Let_def)
  then show ?thesis by (rule that) (simp_all add: lowers_refl [OF assms(2)])
qed

lemma cleanup_all_lowers:
  assumes "lua_laws L" "redis_inv ttl s"
  shows "\<exists>s'. cleanup_all L ids s = (Inr (), s') \<and> lowers ttl s s'"
  using assms(2)
proof (induction ids arbitrary: s)
  case (Cons i ids)
  obtain s0 where s0: "cleanup_one L i s = (Inr (), cmd_zrem i s0)" "lowers ttl s (cmd_zrem i s0)"
    by (rule cleanup_one_cases [OF assms(1) Cons.prems]) (rule that)
  define s1 where "s1 = cmd_zrem i s0"
  note s1 = s0 [folded s1_def]
  from Cons.IH [OF lowers_inv [OF s1(2)]] obtain s2 where "cleanup_all L ids s1 = (Inr (), s2)" "lowers ttl s1 s2"
    by blast
  with s1 show ?case by (auto intro: lowers_trans)
qed (simp add: lowers_refl)

lemma cleanup_script_lowers:
  assumes "lua_laws L" "redis_inv ttl s"
  shows "lowers ttl s (snd (cleanup_script L now s))"
proof (cases "lua_tonumber L (int_text now)")
  case (Some t)
  obtain s' where "cleanup_all L (cmd_zrangebyscore t s) s = (Inr (), s')" "lowers ttl s s'"
    using cleanup_all_lowers [OF assms] by blast
  with Some show ?thesis by (simp add: cleanup_script_def Let_def)
qed (simp add: cleanup_script_def lowers_refl assms(2))

lemma finish_script_active:
  assumes "lua_laws L" "redis_inv ttl s" "row_key k" "cmd_hget k ''status'' s = Some ''active''"
    and "target \<in> {''committed'', ''refunded''}"
  obtains c a where "counter_name c"
    "lowers ttl s (settle_writes ''expired'' k c a s)" "lowers ttl s (settle_writes target k c a s)"
    "finish_script L k target i now s =
      (case (number_at L k ''expires_at'' s, lua_tonumber L (int_text now)) of
         (Some e, Some t) \<Rightarrow>
           if e \<le> t then (Inr (- 1), cmd_zrem (int_text i) (settle_writes ''expired'' k c a s))
           else (Inr 1, cmd_zrem (int_text i) (settle_writes target k c a s))
       | _ \<Rightarrow> (Inl (lua_error L ''nil''), s))"
proof -
  have target: "ended_status target" "target = ''committed'' \<or> target = ''refunded''"
    using assms(5) by (auto simp: ended_status_def)
  obtain c a where row: "cmd_hget k ''counter_key'' s = Some c" "counter_name c"
    "cmd_hget k ''amount'' s = Some (int_text a)" "0 < a" "a < exact_max" "a \<le> units_at s c ''reserved''"
    and settled: "lowers ttl s (settle_writes target k c a s)"
    by (rule lowers_settle [OF assms(2,3,4) target(1)]) (rule that)
  obtain c' a' where row': "cmd_hget k ''counter_key'' s = Some c'"
    "cmd_hget k ''amount'' s = Some (int_text a')" and expired: "lowers ttl s (settle_writes ''expired'' k c' a' s)"
    by (rule lowers_settle [OF assms(2,3,4), of "''expired''"]) (simp add: ended_status_def, rule that)
  have same: "c' = c" "a' = a" using row(1,3) row' by simp_all
  have ck: "k \<noteq> c" using row(2) assms(3) row_key_not_counter by blast
  note low = lower_reserved_exact [OF assms(1,2) row(1-6)]
  have there: "cmd_exists k s" using assms(4) by (auto simp: cmd_exists_def cmd_hget_def)
  let ?s1 = "cmd_hset c ''reserved'' (int_text (units_at s c ''reserved'' - a)) s"
  have incr: "cmd_hincrby L c ''committed'' (int_text a) ?s1 =
      (Inr (), cmd_hset c ''committed'' (int_text (units_at s c ''committed'' + a)) ?s1)"
    using hincrby_exact [of ?s1 c "''committed''" a L] redis_invD(2) [OF assms(2) row(2)]
      counter_units_nonneg [OF assms(2) row(2)] row(4,6)
    by (simp add: counter_wf_def holds_def units_at_hset)
  have amount: "number_at L k ''amount'' ?s1 = Some a" "lua_argument L a = int_text a"
    using lua_lawsD [OF assms(1), of a] row(3-5) ck by (simp_all add: number_at_def)
  have "finish_script L k target i now s =
      (case (number_at L k ''expires_at'' s, lua_tonumber L (int_text now)) of
         (Some e, Some t) \<Rightarrow>
           if e \<le> t then (Inr (- 1), cmd_zrem (int_text i) (settle_writes ''expired'' k c a s))
           else (Inr 1, cmd_zrem (int_text i) (settle_writes target k c a s))
       | _ \<Rightarrow> (Inl (lua_error L ''nil''), s))"
    using there assms(4) target(2)
    by (cases "number_at L k ''expires_at'' s"; cases "lua_tonumber L (int_text now)")
      (auto simp: finish_script_def Let_def low amount incr settle_writes_def)
  then show ?thesis using that row(2) settled expired same by blast
qed

lemma finish_script_lowers:
  assumes "lua_laws L" "redis_inv ttl s" "row_key k" "target \<in> {''committed'', ''refunded''}"
  shows "lowers ttl s (snd (finish_script L k target i now s))"
proof (cases "cmd_hget k ''status'' s = Some ''active''")
  case False
  have "cmd_hget k ''status'' s \<in> Some ` {''committed'', ''refunded'', ''expired''}" if "cmd_exists k s"
    using redis_invD(3) [OF assms(2,3)] that False unfolding cmd_exists_def reservation_wf_def by auto
  then show ?thesis by (auto simp: finish_script_def Let_def lowers_refl assms(2))
next
  case True
  show ?thesis
    by (rule finish_script_active [OF assms(1-3) True assms(4), of i now])
      (simp add: lowers_refl [OF assms(2)] split: option.splits)
qed

text \<open>An active reservation, as its key and the member of the sorted set hold it, and what settling it
  answers.\<close>

definition fresh_row :: "string \<Rightarrow> string \<Rightarrow> string \<Rightarrow> int \<Rightarrow> redis \<Rightarrow> bool" where
  "fresh_row k i c e s \<longleftrightarrow>
     row_key k \<and> cmd_hget k ''status'' s = Some ''active'' \<and> cmd_hget k ''expires_at'' s = Some (int_text e)
   \<and> cmd_hget k ''counter_key'' s = Some c \<and> (\<forall>score. (i, score) \<in> set (rd_expirations s) \<longrightarrow> score = e)"

lemma finish_script_fresh:
  assumes "lua_laws L" "redis_inv ttl s" "fresh_row k j c e s" "target \<in> {''committed'', ''refunded''}"
    and "- exact_max \<le> e \<and> e \<le> exact_max" "- exact_max \<le> now \<and> now \<le> exact_max"
  shows "fst (finish_script L k target i now s) = Inr (if e \<le> now then - 1 else 1)"
proof -
  have row: "row_key k" "cmd_hget k ''status'' s = Some ''active''" using assms(3) by (simp_all add: fresh_row_def)
  have "number_at L k ''expires_at'' s = Some e" "lua_tonumber L (int_text now) = Some now"
    using assms(3,5,6) by (simp_all add: fresh_row_def number_at_def lua_lawsD(1) [OF assms(1)])
  then show ?thesis
    by (rule_tac finish_script_active [OF assms(1,2) row assms(4), of i now]) simp
qed

lemma usage_script_exact:
  assumes "lua_laws L" "redis_inv ttl s" "counter_name c"
  shows "usage_script L c s = (Inr (units_at s c ''committed'', units_at s c ''reserved''), s)"
  using counter_units_nonneg [OF assms(2,3)]
  by (simp add: usage_script_def counter_numbers [OF assms] lua_lawsD(4) [OF assms(1)])

section \<open>The reserve script\<close>

text \<open>A change away from counters and reservations.\<close>

lemma elsewhere_lowers:
  assumes "redis_inv ttl s" "\<not> counter_name k" "\<not> row_key k"
    and "hm_ok (rd_hashes s')" "\<And>c. active_units c s' = active_units c s" "rd_clock s' = rd_clock s"
    and "\<And>l. l \<noteq> k \<Longrightarrow> hash_at s' l = hash_at s l"
    and "\<And>l. l \<noteq> k \<Longrightarrow> hm_get (rd_deadlines s') l = hm_get (rd_deadlines s) l"
    and "\<And>v. hm_get (rd_deadlines s') k = Some v \<Longrightarrow> rd_clock s < v"
  shows "lowers ttl s s'" "redis_units s' c = redis_units s c"
    "counter_name c \<Longrightarrow> units_at s' c f = units_at s c f"
proof -
  have hget: "cmd_hget l f s' = cmd_hget l f s" if "l \<noteq> k" for l f
    using assms(7) [OF that] by (simp add: cmd_hget_def)
  have at: "units_at s' l f = units_at s l f" if "l \<noteq> k" for l f
    using hget [OF that] by (simp add: units_at_def)
  have c: "c \<noteq> k" if "counter_name c" for c using that assms(2) by blast
  show "counter_name c \<Longrightarrow> units_at s' c f = units_at s c f" using at c by simp
  show units: "redis_units s' c = redis_units s c" for c
    using at [of c] c [of c] by (simp add: redis_units_def)
  have "redis_inv ttl s'"
    unfolding redis_inv_def
  proof (intro conjI allI impI)
    fix d assume d: "counter_name d"
    then show "counter_wf ttl s' d"
      using redis_invD(2) [OF assms(1) d] c [OF d] by (simp add: counter_wf_def holds_def hget at assms(5,7,8))
  next
    fix l assume l: "row_key l" "hash_at s' l \<noteq> []"
    then have lk: "l \<noteq> k" using assms(3) by blast
    with l redis_invD(3) [OF assms(1) l(1)] have "reservation_wf ttl s l" by (simp add: assms(7))
    then show "reservation_wf ttl s' l"
      using lk c unfolding reservation_wf_def by (auto simp: hget assms(7,8))
  next
    fix l v assume "hm_get (rd_deadlines s') l = Some v"
    then show "rd_clock s' < v"
      using assms(6,8,9) redis_invD(4) [OF assms(1), of l v] by (cases "l = k") simp_all
  qed (rule assms(4))
  with units show "lowers ttl s s'" by (simp add: lowers_def)
qed

lemma hdel_lowers:
  assumes "redis_inv ttl s" "\<not> counter_name k" "\<not> row_key k"
  shows "lowers ttl s (cmd_hdel k f s)" "redis_units (cmd_hdel k f s) c = redis_units s c"
    "counter_name c \<Longrightarrow> units_at (cmd_hdel k f s) c g = units_at s c g"
proof -
  have ok: "hm_ok (rd_hashes s)" by (rule redis_invD(1) [OF assms(1)])
  let ?h = "AList.delete f (hash_at s k)"
  have 1: "hm_ok (rd_hashes (cmd_hdel k f s))"
    using ok by (simp add: cmd_hdel_def Let_def delete_key_def hmap_simps)
      (simp add: hm_ok_def hm_keys_def distinct_delete)
  have 2: "active_units c (cmd_hdel k f s) = active_units c s" for c
    using ok assms(3)
    by (simp add: cmd_hdel_def Let_def active_units_delete active_units_insert)
  have 3: "rd_clock (cmd_hdel k f s) = rd_clock s" by (simp add: cmd_hdel_def Let_def delete_key_def)
  have 4: "hash_at (cmd_hdel k f s) l = hash_at s l" if "l \<noteq> k" for l
    using that by (simp add: cmd_hdel_def Let_def, simp add: hash_at_def hmap_simps)
  have 5: "hm_get (rd_deadlines (cmd_hdel k f s)) l = hm_get (rd_deadlines s) l" if "l \<noteq> k" for l
    using that by (simp add: cmd_hdel_def Let_def delete_key_def delete_conv')
  have 6: "rd_clock s < v" if "hm_get (rd_deadlines (cmd_hdel k f s)) k = Some v" for v
    using that redis_invD(4) [OF assms(1), of k v]
    by (auto simp: cmd_hdel_def Let_def delete_key_def delete_conv' split: if_splits)
  show "lowers ttl s (cmd_hdel k f s)" "redis_units (cmd_hdel k f s) c = redis_units s c"
    "counter_name c \<Longrightarrow> units_at (cmd_hdel k f s) c g = units_at s c g"
    by (rule elsewhere_lowers [OF assms 1 2 3 4 5 6]; assumption)+
qed

lemma reserve_existing_cases [consumes 5, case_names failed found none]:
  assumes "lua_laws L" "redis_inv ttl s" "counter_name c" "\<not> counter_name ik" "\<not> row_key ik"
  obtains (failed) m where "reserve_existing L c ik idempotency s = (Inl m, s)"
  | (found) i e where "reserve_existing L c ik idempotency s =
      (Inr (Some (1, i, units_at s c ''committed'', units_at s c ''reserved'', e)), s)" "idempotency \<noteq> []"
  | (none) s' where "reserve_existing L c ik idempotency s = (Inr None, s')" "lowers ttl s s'"
      "\<And>d. redis_units s' d = redis_units s d" "\<And>f. units_at s' c f = units_at s c f"
      "s' = s \<or> s' = cmd_hdel ik idempotency s"
proof (cases "if idempotency = [] then None else cmd_hget ik idempotency s")
  case None
  then have "reserve_existing L c ik idempotency s = (Inr None, s)"
    by (auto simp: reserve_existing_def split: if_splits)
  then show ?thesis by (rule none) (simp_all add: lowers_refl [OF assms(2)])
next
  case (Some x)
  then have idem: "idempotency \<noteq> []" "cmd_hget ik idempotency s = Some x" by (auto split: if_splits)
  let ?k = "redis_reservation_prefix @ x"
  consider "cmd_hget ?k ''status'' s \<in> {Some ''active'', Some ''committed''}"
    | "cmd_hget ?k ''status'' s = None"
    | "cmd_hget ?k ''status'' s \<notin> {Some ''active'', Some ''committed'', None}"
    by (cases "cmd_hget ?k ''status'' s \<in> {Some ''active'', Some ''committed''}"; cases "cmd_hget ?k ''status'' s") auto
  then show ?thesis
  proof cases
    case 1
    have "units_at s c ''committed'' \<le> exact_max" "units_at s c ''reserved'' \<le> exact_max"
      "- exact_max \<le> units_at s c ''committed''" "- exact_max \<le> units_at s c ''reserved''"
      using counter_units_nonneg [OF assms(2,3)] by (simp_all add: exact_max_def)
    note replies = lua_lawsD(4) [OF assms(1)] this
    show ?thesis
      using 1 idem
      by (cases "lua_tonumber L x"; cases "number_at L ?k ''expires_at'' s")
        (auto simp: reserve_existing_def Let_def counter_numbers [OF assms(1-3)] replies
          intro: failed found)
  next
    case 2
    then have "reserve_existing L c ik idempotency s = (Inr None, cmd_hdel ik idempotency s)"
      using idem by (simp add: reserve_existing_def Let_def)
    then show ?thesis
      by (rule none) (simp_all add: hdel_lowers [OF assms(2,4,5)] assms(3))
  next
    case 3
    then have "reserve_existing L c ik idempotency s = (Inr None, s)"
      using idem by (auto simp: reserve_existing_def Let_def)
    then show ?thesis by (rule none) (simp_all add: lowers_refl [OF assms(2)])
  qed
qed

lemma redis_inv_sequence:
  "redis_inv ttl (s\<lparr>rd_sequence := n\<rparr>) = redis_inv ttl s" "redis_units (s\<lparr>rd_sequence := n\<rparr>) c = redis_units s c"
  "units_at (s\<lparr>rd_sequence := n\<rparr>) k f = units_at s k f"
  by (rule redis_inv_cong; simp)+

lemma reserve_admit_exact:
  fixes s :: redis and L :: lua and c ik idempotency :: string and a e retention ttl :: int
  assumes "lua_laws L" "redis_inv ttl s" "counter_name c" "\<not> counter_name ik" "\<not> row_key ik"
    and "0 < a" "units_at s c ''committed'' + units_at s c ''reserved'' + a < exact_max"
    and "- exact_max \<le> e" "e \<le> exact_max" "- exact_max \<le> retention" "retention \<le> exact_max"
    and "rd_sequence s < i64_max"
  defines "n \<equiv> rd_sequence s + 1"
  shows "reserve_admit L c ik a e idempotency retention (units_at s c ''committed'') (units_at s c ''reserved'') s =
    (Inr (1, lua_reply L n, units_at s c ''committed'', units_at s c ''reserved'' + a, e),
     admit_writes c (redis_reservation_prefix @ lua_concat L n) ik idempotency a e (lua_argument L n) retention
       (s\<lparr>rd_sequence := n\<rparr>))"
proof -
  let ?s = "s\<lparr>rd_sequence := n\<rparr>"
  note nonneg = counter_units_nonneg [OF assms(2,3)]
  have wf: "redis_inv ttl ?s" using assms(2) by (simp add: redis_inv_sequence)
  note nums = lua_lawsD [OF assms(1)]
  have incr: "cmd_hincrby L c ''reserved'' (int_text a) ?s =
      (Inr (), cmd_hset c ''reserved'' (int_text (units_at s c ''reserved'' + a)) ?s)"
    using hincrby_exact [of ?s c "''reserved''" a L] redis_invD(2) [OF wf assms(3)] assms(6,7) nonneg
    by (simp add: counter_wf_def redis_inv_sequence)
  have a: "lua_argument L a = int_text a" "lua_round L (units_at s c ''reserved'' + a) = units_at s c ''reserved'' + a"
    "lua_reply L (units_at s c ''reserved'' + a) = units_at s c ''reserved'' + a"
    "lua_reply L (units_at s c ''committed'') = units_at s c ''committed''"
    using nonneg assms(6,7) by (simp_all add: nums)
  have t: "lua_argument L e = int_text e" "lua_reply L e = e" "lua_argument L retention = int_text retention"
    "read_integer (int_text retention) = Some retention"
    using assms(8-11) by (simp_all add: nums read_integer_int_text exact_max_def)
  show ?thesis
    using assms(12)
    by (cases "idempotency = []")
      (simp_all add: reserve_admit_def cmd_incr_def n_def [symmetric] Let_def a t incr script_expireat_def
        admit_writes_def row_writes_def redis_inv_sequence)
qed

lemma admit_writes_sequence [simp]:
  "rd_sequence (admit_writes c rk ik idempotency a e i retention s) = rd_sequence s"
  by (simp add: admit_writes_def Let_def row_writes_def)

lemma admit_writes_fresh:
  assumes "counter_name c" "row_key rk" "\<not> counter_name ik" "\<not> row_key ik" "hm_ok (rd_hashes s)" "rd_clock s < retention"
  shows "fresh_row rk i c e (admit_writes c rk ik idempotency a e i retention s)"
proof -
  have zset: "rd_expirations (admit_writes c rk ik idempotency a e i retention s) =
      insort_key snd (i, e) (filter (\<lambda>z. fst z \<noteq> i) (rd_expirations s))"
    by (simp add: admit_writes_def Let_def row_writes_def cmd_zadd_def)
  have "rk \<noteq> ik" using assms(2,4) by blast
  from admit_writes_reads(1) [OF assms(1-5) this, of idempotency a e i retention] assms(6)
  have "cmd_hget rk f (admit_writes c rk ik idempotency a e i retention s) =
      cmd_hget rk f (row_writes rk c a e (cmd_hset c ''reserved'' (int_text (units_at s c ''reserved'' + a)) s))" for f
    by (simp add: cmd_hget_def)
  then show ?thesis by (auto simp: fresh_row_def assms(2) zset set_insort_key)
qed

lemma reserve_script_cases [consumes 11, case_names failed existing denied admitted]:
  fixes s :: redis and L :: lua and c ik idempotency :: string and a limit e retention ttl :: int
  assumes "lua_laws L" "redis_inv ttl s" "counter_name c" "\<not> counter_name ik" "\<not> row_key ik"
    and "0 < a" "limit < exact_max" "- exact_max \<le> e \<and> e \<le> exact_max"
    and "- exact_max \<le> retention \<and> retention \<le> exact_max" "retention = key_end c + ttl" "0 \<le> limit"
  defines "committed \<equiv> units_at s c ''committed''" and "reserved \<equiv> units_at s c ''reserved''"
  obtains (failed) m s' where "reserve_script L c ik a limit e idempotency retention s = (Inl m, s')" "lowers ttl s s'"
  | (existing) i x where "reserve_script L c ik a limit e idempotency retention s =
        (Inr (1, i, committed, reserved, x), s)" "idempotency \<noteq> []"
  | (denied) s' where "reserve_script L c ik a limit e idempotency retention s = (Inr (0, 0, committed, reserved, 0), s')"
      "lowers ttl s s'" "\<And>d. redis_units s' d = redis_units s d" "limit < committed + reserved + a"
  | (admitted) i s' where "reserve_script L c ik a limit e idempotency retention s =
        (Inr (1, i, committed, reserved + a, e), s')"
      "redis_inv ttl s'" "committed + reserved + a \<le> limit"
      "\<And>d. redis_units s' d =
        (if d = c then (if retention \<le> rd_clock s then 0 else redis_units s c + nat a) else redis_units s d)"
      "i = lua_reply L (rd_sequence s + 1)"
      "rd_clock s < retention \<Longrightarrow> fresh_row (redis_reservation_prefix @ lua_concat L (rd_sequence s + 1))
        (lua_argument L (rd_sequence s + 1)) c e s'" "rd_sequence s' = rd_sequence s + 1"
  using assms(1-5)
proof (cases rule: reserve_existing_cases [where idempotency = idempotency])
  case (failed m)
  then show ?thesis
    using that(1) [of m s] lowers_refl [OF assms(2)] by (simp add: reserve_script_def)
next
  case (found i x)
  then show ?thesis using that(2) [of i x] by (simp add: reserve_script_def committed_def reserved_def)
next
  case (none s1)
  have inv: "redis_inv ttl s1" using none(2) by (rule lowers_inv)
  have clock: "rd_clock s1 = rd_clock s" "rd_sequence s1 = rd_sequence s"
    using none(5) by (auto simp: cmd_hdel_def Let_def delete_key_def)
  note nums = lua_lawsD [OF assms(1)]
  note nonneg = counter_units_nonneg [OF inv assms(3), unfolded none(4), folded committed_def reserved_def]
  have at: "units_at s1 c ''committed'' = committed" "units_at s1 c ''reserved'' = reserved"
    by (simp_all add: none(4) committed_def reserved_def)
  have texts: "lua_tonumber L (int_text limit) = Some limit" "lua_tonumber L (int_text e) = Some e"
      "lua_tonumber L (int_text retention) = Some retention"
    using assms(7-9,11) by (simp_all add: nums)
  have units: "lua_round L (committed + reserved) = committed + reserved" "lua_reply L committed = committed"
    "lua_reply L reserved = reserved"
    using nonneg by (simp_all add: nums)
  obtain a' where a': "lua_tonumber L (int_text a) = Some a'" "a \<le> exact_max \<Longrightarrow> a' = a" "exact_max < a \<Longrightarrow> exact_max \<le> a'"
    using nums(1) [of a] lua_laws_large(2) [OF assms(1), of a] assms(6)
    by (cases "a \<le> exact_max") (auto simp: exact_max_def)
  have test: "limit < lua_round L (committed + reserved + a') \<longleftrightarrow> limit < committed + reserved + a"
  proof (cases "a \<le> exact_max \<and> committed + reserved + a' \<le> exact_max")
    case True
    then show ?thesis using a'(2) nums(2) [of "committed + reserved + a'"] nonneg assms(6) by simp
  next
    case False
    have large: "exact_max \<le> committed + reserved + a'" "exact_max \<le> committed + reserved + a"
      using False a'(2,3) nonneg by (cases "a \<le> exact_max"; simp)+
    have "exact_max \<le> lua_round L (committed + reserved + a')"
      using large(1) nums(2) [of "committed + reserved + a'"] lua_laws_large(1) [OF assms(1), of "committed + reserved + a'"]
      by (cases "exact_max < committed + reserved + a'") (simp_all add: exact_max_def)
    then show ?thesis using large assms(7) by simp
  qed
  have script: "reserve_script L c ik a limit e idempotency retention s =
      (if limit < committed + reserved + a then (Inr (0, 0, committed, reserved, 0), s1)
       else reserve_admit L c ik a' e idempotency retention committed reserved s1)"
    using none(1) counter_numbers [OF assms(1) inv assms(3)]
    by (simp add: reserve_script_def at texts a'(1) units test)
  show ?thesis
  proof (cases "limit < committed + reserved + a")
    case True
    then show ?thesis using denied [of s1] script none(2,3) by simp
  next
    case fits: False
    then have same: "a' = a" using a'(2) nonneg assms(7) by simp
    show ?thesis
    proof (cases "rd_sequence s1 < i64_max")
      case False
      then have "reserve_script L c ik a limit e idempotency retention s = (Inl (lua_error L ''overflow''), s1)"
        using fits script by (simp add: reserve_admit_def cmd_incr_def)
      then show ?thesis using that(1) none(2) by blast
    next
      case True
      let ?n = "rd_sequence s1 + 1"
      let ?s = "s1\<lparr>rd_sequence := ?n\<rparr>"
      let ?t = "admit_writes c (redis_reservation_prefix @ lua_concat L ?n) ik idempotency a e (lua_argument L ?n) retention ?s"
      have small: "units_at s1 c ''committed'' + units_at s1 c ''reserved'' + a < exact_max"
        using fits assms(7) by (simp add: at)
      have "reserve_script L c ik a limit e idempotency retention s =
          (Inr (1, lua_reply L ?n, committed, reserved + a, e), ?t)"
        using fits script reserve_admit_exact [OF assms(1) inv assms(3-6) small
            conjunct1 [OF assms(8)] conjunct2 [OF assms(8)] conjunct1 [OF assms(9)] conjunct2 [OF assms(9)] True]
        by (simp add: at same)
      moreover have "redis_inv ttl ?s" using inv by (simp add: redis_inv_sequence)
      note admit = admit_writes_inv [OF this assms(3) row_key_prefix assms(4-6) _ assms(10),
          unfolded redis_inv_sequence, OF small]
      moreover have "fresh_row (redis_reservation_prefix @ lua_concat L ?n) (lua_argument L ?n) c e ?t" if "rd_clock s < retention"
        using that by (intro admit_writes_fresh [OF assms(3) row_key_prefix assms(4,5)])
          (use redis_invD(1) [OF inv] in \<open>simp_all add: clock\<close>)
      ultimately show ?thesis
        using fits by (intro admitted [of "lua_reply L ?n" ?t]) (simp_all add: admit clock none(3))
    qed
  qed
qed

section \<open>Calls\<close>

definition redis_wf :: "('tz, 'more) chrono_scheme \<Rightarrow> lua \<Rightarrow> duration \<Rightarrow> server \<Rightarrow> bool" where
  "redis_wf lib L ttl srv \<longleftrightarrow>
     chrono_laws lib \<and> lua_laws L \<and> redis_inv (ttl div nanos_per_second) (sv_redis srv)"

definition redis_level :: "server \<Rightarrow> string \<Rightarrow> nat" where
  "redis_level srv c = redis_units (sv_redis srv) c"

text \<open>The requests of one broker: limits in the exact range, one time to live of whole seconds.\<close>

definition redis_fit :: "duration \<Rightarrow> reserve_request \<Rightarrow> bool" where
  "redis_fit ttl r \<longleftrightarrow>
     uint (rr_effective_limit r) < exact_max \<and> rr_reservation_ttl r = ttl \<and> nanos_per_second dvd ttl"

lemma redis_wfD:
  assumes "redis_wf lib L ttl srv"
  shows "chrono_laws lib" "lua_laws L" "redis_inv (ttl div nanos_per_second) (sv_redis srv)"
  using assms by (simp_all add: redis_wf_def)

definition call_lowers :: "('tz, 'more) chrono_scheme \<Rightarrow> lua \<Rightarrow> duration \<Rightarrow> server \<Rightarrow> server \<Rightarrow> bool" where
  "call_lowers lib L ttl srv srv' \<longleftrightarrow>
     redis_wf lib L ttl srv' \<and> (\<forall>c. redis_level srv' c \<le> redis_level srv c)"

lemma call_lowers_refl: "redis_wf lib L ttl srv \<Longrightarrow> call_lowers lib L ttl srv srv"
  by (simp add: call_lowers_def)

lemma call_lowers_trans:
  "call_lowers lib L ttl s t \<Longrightarrow> call_lowers lib L ttl t u \<Longrightarrow> call_lowers lib L ttl s u"
  unfolding call_lowers_def by (meson order_trans)

lemma lowers_call:
  "redis_wf lib L ttl srv \<Longrightarrow> lowers (ttl div nanos_per_second) (sv_redis srv) (sv_redis srv') \<Longrightarrow>
     call_lowers lib L ttl srv srv'"
  by (simp add: call_lowers_def redis_wf_def redis_level_def lowers_def)

lemma pool_get_lowers:
  assumes "redis_wf lib L ttl srv"
  shows "call_lowers lib L ttl srv (snd (pool_get srv))"
  using assms lowers_advance [OF redis_wfD(3) [OF assms]]
  by (intro lowers_call) (auto simp: pool_get_def lowers_refl redis_wf_def split: list.splits server_event.splits)

text \<open>A call is refused, or serves the script some time later, and may lose its reply.\<close>

lemma run_script_cases [case_names refused served]:
  obtains (refused) n m where "fst (run_script f srv) = Err m" "sv_redis (snd (run_script f srv)) = advance n (sv_redis srv)"
  | (served) n where "sv_redis (snd (run_script f srv)) = snd (f (advance n (sv_redis srv)))"
      "\<And>x. fst (run_script f srv) = Ok x \<Longrightarrow> fst (f (advance n (sv_redis srv))) = Inr x"
      "fst (run_script f srv) \<noteq> Panic" "sv_events srv = [] \<Longrightarrow> n = 0"
proof (cases "sv_events srv")
  case Nil
  then show ?thesis
    by (intro served [of 0]) (auto simp: run_script_def Let_def split: prod.splits sum.splits)
next
  case (Cons e es)
  show ?thesis
  proof (cases e)
    case (Served n)
    with Cons show ?thesis
      by (intro served [of n]) (auto simp: run_script_def Let_def split: prod.splits sum.splits)
  next
    case (Refused n m)
    with Cons show ?thesis by (intro refused [of "redis_error m" n]) (simp_all add: run_script_def Let_def)
  next
    case (Unanswered n m)
    with Cons show ?thesis by (intro served [of n]) (simp_all add: run_script_def Let_def)
  qed
qed

lemma run_script_lowers:
  assumes "redis_wf lib L ttl srv"
    and "\<And>s. redis_inv (ttl div nanos_per_second) s \<Longrightarrow> lowers (ttl div nanos_per_second) s (snd (f s))"
  shows "call_lowers lib L ttl srv (snd (run_script f srv))"
proof (cases rule: run_script_cases [where f = f and srv = srv])
  case (refused n m)
  then show ?thesis
    using lowers_advance [OF redis_wfD(3) [OF assms(1)], of n] by (intro lowers_call assms(1)) simp
next
  case (served n)
  then show ?thesis
    using lowers_advance [OF redis_wfD(3) [OF assms(1)], of n] assms(2)
    by (intro lowers_call assms(1)) (auto intro: lowers_trans dest: lowers_inv)
qed

lemma served_then_snd:
  "snd (served_then y f) = (case fst y of Ok x \<Rightarrow> snd (f x (snd y)) | _ \<Rightarrow> snd y)"
  by (cases y; cases "fst y") auto

lemma served_then_lowers:
  assumes "call_lowers lib L ttl srv (snd y)"
    and "\<And>x. fst y = Ok x \<Longrightarrow> redis_wf lib L ttl (snd y) \<Longrightarrow> call_lowers lib L ttl (snd y) (snd (f x (snd y)))"
  shows "call_lowers lib L ttl srv (snd (served_then y f))"
proof (cases "fst y")
  case (Ok x)
  then show ?thesis
    using assms(2) [OF Ok] assms(1) by (auto simp: served_then_snd call_lowers_def intro: order_trans)
qed (use assms(1) in \<open>simp_all add: served_then_snd\<close>)

lemma cleanup_call_lowers:
  assumes "redis_wf lib L ttl srv"
  shows "call_lowers lib L ttl srv (snd (redis_cleanup_expired lib L now srv))"
  unfolding redis_cleanup_expired_def
  by (intro served_then_lowers run_script_lowers assms cleanup_script_lowers redis_wfD(2) [OF assms])
    (simp_all add: call_lowers_refl)

section \<open>Usage and finish\<close>

lemma redis_usage_lowers:
  assumes "redis_wf lib L ttl srv"
  shows "call_lowers lib L ttl srv (snd (redis_usage lib L k w now srv))"
  unfolding redis_usage_def
proof (intro served_then_lowers pool_get_lowers cleanup_call_lowers assms run_script_lowers)
  fix s assume "redis_inv (ttl div nanos_per_second) s"
  then show "lowers (ttl div nanos_per_second) s (snd (usage_script L (redis_counter_key lib k w) s))"
    using usage_script_exact [OF redis_wfD(2) [OF assms]] by (simp add: lowers_refl)
qed (simp_all add: call_lowers_refl)

lemma redis_finish_lowers:
  assumes "redis_wf lib L ttl srv" "status \<in> {''committed'', ''refunded''}"
  shows "call_lowers lib L ttl srv (snd (redis_finish lib L now status rid srv))"
  unfolding redis_finish_def
  by (intro served_then_lowers pool_get_lowers assms run_script_lowers finish_script_lowers redis_wfD(2) [OF assms(1)])
    (simp_all add: call_lowers_refl assms(2) [simplified])

lemma served_then_Ok:
  assumes "served_then y f = (Ok z, srv')"
  obtains x srv where "y = (Ok x, srv)" "f x srv = (Ok z, srv')"
  using assms by (cases y; cases "fst y") auto

lemma redis_units_used:
  assumes "redis_inv ttl s" "counter_name c"
    and "usage_from_i64 (units_at s c ''committed'') (units_at s c ''reserved'') = Ok u"
  shows "unat (cu_used u) = redis_units s c"
  using usage_from_i64_used [OF _ _ _ assms(3)] counter_units_nonneg [OF assms(1,2)] assms(2)
  by (simp add: redis_units_def exact_max_def i64_max_def)

lemma redis_usage_reports:
  assumes "redis_wf lib L ttl srv" "redis_usage lib L k w now srv = (Ok u, srv')"
  shows "unat (cu_used u) = redis_level srv' (redis_counter_key lib k w)"
proof -
  let ?c = "redis_counter_key lib k w"
  obtain a srv1 where 1: "pool_get srv = (Ok a, srv1)" and rest: "served_then (redis_cleanup_expired lib L now srv1) (\<lambda>_ srv.
     served_then (run_script (usage_script L ?c) srv) (\<lambda>values srv. (usage_from_i64 (fst values) (snd values), srv))) = (Ok u, srv')"
    by (rule served_then_Ok [OF assms(2) [unfolded redis_usage_def]])
  obtain b srv2 where 2: "redis_cleanup_expired lib L now srv1 = (Ok b, srv2)" and rest2:
    "served_then (run_script (usage_script L ?c) srv2) (\<lambda>values srv. (usage_from_i64 (fst values) (snd values), srv)) = (Ok u, srv')"
    by (rule served_then_Ok [OF rest])
  obtain v where 3: "run_script (usage_script L ?c) srv2 = (Ok v, srv')" "usage_from_i64 (fst v) (snd v) = Ok u"
    by (rule served_then_Ok [OF rest2]) simp
  have wf1: "redis_wf lib L ttl srv1" using pool_get_lowers [OF assms(1)] 1 by (simp add: call_lowers_def)
  have wf2: "redis_wf lib L ttl srv2" using cleanup_call_lowers [OF wf1, of now] 2 by (simp add: call_lowers_def)
  show ?thesis
  proof (cases rule: run_script_cases [where f = "usage_script L ?c" and srv = srv2])
    case (refused n m)
    with 3 show ?thesis by simp
  next
    case (served n)
    have inv: "redis_inv (ttl div nanos_per_second) (advance n (sv_redis srv2))"
      by (rule redis_inv_advance [OF redis_wfD(3) [OF wf2]])
    note exact = usage_script_exact [OF redis_wfD(2) [OF wf2] inv counter_name_counter_key [of lib k w]]
    show ?thesis
      using served(1) served(2) [of v] 3 redis_units_used [OF inv counter_name_counter_key [of lib k w], of u]
      by (auto simp: exact redis_level_def)
  qed
qed

section \<open>Reserving\<close>

lemma timestamp_range:
  assumes "chrono_laws lib" "- max_instant \<le> e" "e \<le> max_instant"
  shows "- exact_max \<le> ch_timestamp lib e \<and> ch_timestamp lib e \<le> exact_max"
proof -
  have "(- max_instant) div nanos_per_second \<le> e div nanos_per_second"
    "e div nanos_per_second \<le> max_instant div nanos_per_second"
    using assms(2,3) by (simp_all add: zdiv_mono1)
  then show ?thesis
    by (simp add: chrono_timestamp [OF assms(1)] max_instant_def exact_max_def nanos_per_second_def)
qed

lemma timestamp_exact:
  assumes "chrono_laws lib" "ch_add lib t d = Some e"
  shows "- exact_max \<le> ch_timestamp lib e \<and> ch_timestamp lib e \<le> exact_max"
  using chrono_add_range [OF assms] by (intro timestamp_range [OF assms(1)]) simp_all

lemma retention_key_end:
  assumes "chrono_laws lib" "ch_add lib (wb_end w) ttl = Some e" "nanos_per_second dvd ttl"
  shows "ch_timestamp lib e = key_end (redis_counter_key lib k w) + ttl div nanos_per_second"
proof -
  have "e = wb_end w + ttl" by (rule chrono_add [OF assms(1,2)])
  then show ?thesis
    using assms(3) by (simp add: chrono_timestamp [OF assms(1)] codec_window_end_def div_plus_div_distrib_dvd_right)
qed

text \<open>The call of the reserve script an operation makes, for a request it does not refuse.\<close>

definition reserve_call ::
    "('tz, 'more) chrono_scheme \<Rightarrow> lua \<Rightarrow> reserve_request \<Rightarrow> datetime \<Rightarrow> datetime \<Rightarrow>
     (int \<times> int \<times> int \<times> int \<times> int) script" where
  "reserve_call lib L r expires_at retention =
     reserve_script L (redis_counter_key lib (rr_key r) (rr_window r)) (redis_idempotency_key lib (rr_key r) (rr_window r))
       (uint (rr_amount r)) (uint (rr_effective_limit r)) (ch_timestamp lib expires_at) (idempotency_argument r)
       (ch_timestamp lib retention)"

definition sendable :: "('tz, 'more) chrono_scheme \<Rightarrow> duration \<Rightarrow> reserve_request \<Rightarrow> datetime \<Rightarrow> datetime \<Rightarrow> bool" where
  "sendable lib ttl r e g \<longleftrightarrow>
     redis_fit ttl r \<and> rr_amount r \<noteq> 0 \<and> ch_add lib (rr_now r) (rr_reservation_ttl r) = Some e
   \<and> ch_add lib (wb_end (rr_window r)) (rr_reservation_ttl r) = Some g"

lemma reserve_call_cases [consumes 4, case_names failed existing denied admitted]:
  fixes lib :: "('tz, 'more) chrono_scheme" and r :: reserve_request and s :: redis and e g :: datetime
  assumes "chrono_laws lib" "lua_laws L" "redis_inv (ttl div nanos_per_second) s" "sendable lib ttl r e g"
  defines "c \<equiv> redis_counter_key lib (rr_key r) (rr_window r)"
  obtains (failed) m s' where "reserve_call lib L r e g s = (Inl m, s')" "lowers (ttl div nanos_per_second) s s'"
  | (existing) i x where "reserve_call lib L r e g s =
        (Inr (1, i, units_at s c ''committed'', units_at s c ''reserved'', x), s)" "rr_idempotency_key r \<noteq> None"
  | (denied) s' where "reserve_call lib L r e g s =
        (Inr (0, 0, units_at s c ''committed'', units_at s c ''reserved'', 0), s')"
      "lowers (ttl div nanos_per_second) s s'" "\<And>d. redis_units s' d = redis_units s d"
      "uint (rr_effective_limit r) < units_at s c ''committed'' + units_at s c ''reserved'' + uint (rr_amount r)"
  | (admitted) i s' where "reserve_call lib L r e g s =
        (Inr (1, i, units_at s c ''committed'', units_at s c ''reserved'' + uint (rr_amount r), ch_timestamp lib e), s')"
      "redis_inv (ttl div nanos_per_second) s'"
      "units_at s c ''committed'' + units_at s c ''reserved'' + uint (rr_amount r) \<le> uint (rr_effective_limit r)"
      "\<And>d. redis_units s' d =
        (if d = c then (if ch_timestamp lib g \<le> rd_clock s then 0 else redis_units s c + unat (rr_amount r))
         else redis_units s d)"
      "i = lua_reply L (rd_sequence s + 1)"
      "rd_clock s < ch_timestamp lib g \<Longrightarrow>
        fresh_row (redis_reservation_prefix @ lua_concat L (rd_sequence s + 1)) (lua_argument L (rd_sequence s + 1)) c
          (ch_timestamp lib e) s'" "rd_sequence s' = rd_sequence s + 1"
proof -
  have fit: "uint (rr_effective_limit r) < exact_max" "rr_reservation_ttl r = ttl" "nanos_per_second dvd ttl"
    and adds: "rr_amount r \<noteq> 0" "ch_add lib (rr_now r) (rr_reservation_ttl r) = Some e"
      "ch_add lib (wb_end (rr_window r)) ttl = Some g"
    using assms(4) by (auto simp: sendable_def redis_fit_def)
  have pos: "0 < uint (rr_amount r)" "0 \<le> uint (rr_effective_limit r)"
    using adds(1) uint_ge_0 [of "rr_amount r"] unsigned_eq_0_iff [where 'a = int and w = "rr_amount r"]
    by (auto simp: order_less_le)
  have keyed: "rr_idempotency_key r \<noteq> None" if "idempotency_argument r \<noteq> []"
    using that by (auto simp: idempotency_argument_def split: option.splits)
  have "retention = key_end c + ttl div nanos_per_second" if "retention = ch_timestamp lib g" for retention
    using that retention_key_end [OF assms(1) adds(3) fit(3), of "rr_key r"] by (simp add: c_def)
  note retention = this [OF refl]
  have call: "reserve_call lib L r e g s = reserve_script L c (redis_idempotency_key lib (rr_key r) (rr_window r))
      (uint (rr_amount r)) (uint (rr_effective_limit r)) (ch_timestamp lib e) (idempotency_argument r) (ch_timestamp lib g) s"
    by (simp add: reserve_call_def c_def)
  have name: "counter_name c" by (simp add: c_def)
  note other = idempotency_key_other [of lib "rr_key r" "rr_window r"]
  note times = timestamp_exact [OF assms(1) adds(2)] timestamp_exact [OF assms(1) adds(3)]
  from assms(2,3) name other pos(1) fit(1) times retention pos(2) show ?thesis
  proof (cases rule: reserve_script_cases [where idempotency = "idempotency_argument r"])
    case (failed m s')
    with that(1) show ?thesis by (simp add: call)
  next
    case (existing i x)
    with that(2) keyed show ?thesis by (simp add: call)
  next
    case (denied s')
    with that(3) show ?thesis by (simp add: call)
  next
    case (admitted i s')
    with that(4) show ?thesis by (simp add: call unsigned_def)
  qed
qed

lemma reserve_call_within:
  assumes "chrono_laws lib" "lua_laws L" "redis_inv (ttl div nanos_per_second) s" "sendable lib ttl r e g"
  shows "redis_inv (ttl div nanos_per_second) (snd (reserve_call lib L r e g s)) \<and>
    redis_units (snd (reserve_call lib L r e g s)) d \<le>
      (if d = redis_counter_key lib (rr_key r) (rr_window r)
       then max (redis_units s d) (unat (rr_effective_limit r)) else redis_units s d)"
  using assms
proof (cases rule: reserve_call_cases)
  case (admitted i s')
  let ?c = "redis_counter_key lib (rr_key r) (rr_window r)"
  have "redis_units s ?c + unat (rr_amount r) \<le> unat (rr_effective_limit r)"
  proof -
    have "int (redis_units s ?c + unat (rr_amount r)) \<le> int (unat (rr_effective_limit r))"
      using admitted(3) counter_units_nonneg [OF assms(3) counter_name_counter_key [of lib "rr_key r" "rr_window r"]]
      by (simp add: redis_units_def)
    then show ?thesis by (simp only: of_nat_le_iff)
  qed
  with admitted show ?thesis by simp
qed (use assms(3) in \<open>auto simp: lowers_def le_max_iff_disj\<close>)

text \<open>An operation up to its reserve script.\<close>

lemma redis_reserve_sends:
  assumes "redis_wf lib L ttl srv" "redis_fit ttl r"
  obtains (stopped) "\<And>x. fst (redis_reserve_if_allowed lib L r srv) \<noteq> Ok x"
      "call_lowers lib L ttl srv (snd (redis_reserve_if_allowed lib L r srv))"
  | (sent) e g srv2 where "sendable lib ttl r e g" "call_lowers lib L ttl srv srv2"
      "srv2 = snd (redis_cleanup_expired lib L (rr_now r) (snd (pool_get srv)))"
      "redis_reserve_if_allowed lib L r srv =
         served_then (run_script (reserve_call lib L r e g) srv2) (\<lambda>values srv. (redis_result lib values, srv))"
proof -
  let ?op = "redis_reserve_if_allowed lib L r srv"
  obtain p srv1 where pool: "pool_get srv = (p, srv1)" by fastforce
  have low1: "call_lowers lib L ttl srv srv1" using pool_get_lowers [OF assms(1)] pool by simp
  then have wf1: "redis_wf lib L ttl srv1" by (simp add: call_lowers_def)
  obtain q srv2 where clean: "redis_cleanup_expired lib L (rr_now r) srv1 = (q, srv2)" by fastforce
  have low2: "call_lowers lib L ttl srv srv2"
    using call_lowers_trans [OF low1 cleanup_call_lowers [OF wf1, of "rr_now r"]] clean by simp
  note op = redis_reserve_if_allowed_def Let_def
  show ?thesis
  proof (cases "reserve_request_validate r")
    case valid: (Ok u)
    show ?thesis
    proof (cases p)
      case p: (Ok v)
      show ?thesis
      proof (cases "uint (rr_amount r) \<le> i64_max")
        case amount: True
        have limit: "uint (rr_effective_limit r) \<le> i64_max"
          using assms(2) by (simp add: redis_fit_def exact_max_def i64_max_def)
        have i64: "to_i64 (rr_amount r) ''amount'' = Ok (uint (rr_amount r))"
          "to_i64 (rr_effective_limit r) ''effective limit'' = Ok (uint (rr_effective_limit r))"
          using amount limit by simp_all
        show ?thesis
        proof (cases "ch_add lib (rr_now r) (rr_reservation_ttl r)")
          case e: (Some e)
          show ?thesis
          proof (cases "ch_add lib (wb_end (rr_window r)) (rr_reservation_ttl r)")
            case g: (Some g)
            note here = op valid pool p i64 e g clean
            show ?thesis
            proof (cases q)
              case q: (Ok w)
              have "sendable lib ttl r e g"
                using assms(2) valid e g by (simp add: sendable_def)
              then show ?thesis
                using low2 by (rule sent)
                  (simp_all add: here q reserve_call_def [abs_def] del: reserve_request_validate_Ok to_i64_Ok)
            qed (use low2 in \<open>simp_all add: stopped here del: reserve_request_validate_Ok to_i64_Ok\<close>)
          qed (use low1 in \<open>simp_all add: stopped op valid pool p i64 e del: reserve_request_validate_Ok to_i64_Ok\<close>)
        qed (use low1 in \<open>simp_all add: stopped op valid pool p i64 del: reserve_request_validate_Ok to_i64_Ok\<close>)
      next
        case False
        then obtain m where "to_i64 (rr_amount r) ''amount'' = Err m" by (simp add: to_i64_def)
        then show ?thesis
          using low1 by (simp add: stopped op valid pool p del: reserve_request_validate_Ok to_i64_Ok)
      qed
    qed (use low1 in \<open>simp_all add: stopped op valid pool del: reserve_request_validate_Ok\<close>)
  qed (use call_lowers_refl [OF assms(1)] in \<open>simp_all add: stopped op\<close>)
qed

end
