(* ===== verification/Redis_Runs.thy ===== *)
theory Redis_Runs
  imports Redis_Contract Sqlite_Runs
begin

text \<open>
  The Redis store keeps the contract for limits below \<open>2 ^ 53\<close> and one time to live of whole seconds,
  settles reservations for good on a server that serves every call, and a broker over it keeps the
  invariant of runs: the interpretations the properties of this store rest on.
\<close>

section \<open>What a cleanup leaves alone\<close>

definition kept :: "redis \<Rightarrow> redis \<Rightarrow> bool" where
  "kept s s' \<longleftrightarrow> rd_sequence s' = rd_sequence s \<and> rd_clock s' = rd_clock s"

lemma kept_simps [simp]:
  "kept s s" "kept s (cmd_hset k f v s') = kept s s'" "kept s (cmd_zrem i s') = kept s s'"
  by (simp_all add: kept_def cmd_hset_def)

lemma script_then_kept:
  assumes "kept s (snd y)" "\<And>x s'. kept s s' \<Longrightarrow> kept s (snd (f x s'))"
  shows "kept s (snd (script_then y f))"
  using assms by (cases "(y, f)" rule: script_then.cases) auto

lemma needed_kept: "kept s s' \<Longrightarrow> kept s (snd (needed L v s'))"
  by (simp add: needed_def split: option.splits)

lemma lower_reserved_kept: "kept s s' \<Longrightarrow> kept s (snd (lower_reserved L k s'))"
  unfolding lower_reserved_def by (intro script_then_kept needed_kept) simp_all

lemma cleanup_one_kept:
  assumes "kept s s'"
  shows "kept s (snd (cleanup_one L i s'))"
  unfolding cleanup_one_def Let_def
proof (rule script_then_kept)
  show "kept s (snd (if cmd_hget (redis_reservation_prefix @ i) ''status'' s' = Some ''active''
         then script_then (lower_reserved L (redis_reservation_prefix @ i) s')
                (\<lambda>_ s. (Inr (), cmd_hset (redis_reservation_prefix @ i) ''status'' ''expired'' s))
         else (Inr (), s')))"
    by (cases "cmd_hget (redis_reservation_prefix @ i) ''status'' s' = Some ''active''")
      (simp_all only: if_True if_False refl, intro script_then_kept lower_reserved_kept assms, simp, simp add: assms)
qed simp

lemma cleanup_all_kept: "kept s s' \<Longrightarrow> kept s (snd (cleanup_all L ids s'))"
  by (induction ids arbitrary: s') (simp_all add: script_then_kept cleanup_one_kept)

lemma cleanup_script_kept: "kept s (snd (cleanup_script L now s))"
  unfolding cleanup_script_def Let_def by (intro script_then_kept needed_kept cleanup_all_kept) simp_all

definition redis_up :: "('tz, 'more) chrono_scheme \<Rightarrow> lua \<Rightarrow> duration \<Rightarrow> server \<Rightarrow> bool" where
  "redis_up lib L ttl srv \<longleftrightarrow> redis_wf lib L ttl srv \<and> sv_events srv = []"

lemma redis_upD:
  "redis_up lib L ttl srv \<Longrightarrow> redis_wf lib L ttl srv" "redis_up lib L ttl srv \<Longrightarrow> sv_events srv = []"
  by (simp_all add: redis_up_def)

lemma advance_0: "redis_inv ttl s \<Longrightarrow> advance 0 s = s"
  using redis_invD(4) [of ttl s] by (auto simp: advance_def Let_def not_le intro!: redis.equality filter_True split: option.splits)

lemma cleanup_kept:
  assumes "redis_up lib L ttl srv"
  shows "sv_events (snd (redis_cleanup_expired lib L now (snd (pool_get srv)))) = []"
    and "kept (sv_redis srv) (sv_redis (snd (redis_cleanup_expired lib L now (snd (pool_get srv)))))"
  using redis_upD(2) [OF assms] cleanup_script_kept [of "sv_redis srv" L "ch_timestamp lib now"]
  by (auto simp: redis_cleanup_expired_def served_then_snd pool_get_def run_script_def
      advance_0 [OF redis_wfD(3) [OF redis_upD(1) [OF assms]]] split: outcome.splits prod.splits sum.splits)

section \<open>The laws of reserving\<close>

lemma served_result [simp]:
  "snd (served_then y (\<lambda>v srv. (redis_result lib v, srv))) = snd y"
  by (simp add: served_then_snd split: outcome.splits)

lemma redis_inv_served:
  assumes "redis_wf lib L ttl srv" "call_lowers lib L ttl srv srv'"
  shows "redis_inv (ttl div nanos_per_second) (advance n (sv_redis srv'))"
    and "redis_units (advance n (sv_redis srv')) c \<le> redis_level srv c"
proof -
  have inv: "redis_inv (ttl div nanos_per_second) (sv_redis srv')" and le: "redis_level srv' c \<le> redis_level srv c"
    using assms(2) by (simp_all add: call_lowers_def redis_wf_def)
  from lowers_advance [OF inv, of n] le
  show "redis_inv (ttl div nanos_per_second) (advance n (sv_redis srv'))"
    and "redis_units (advance n (sv_redis srv')) c \<le> redis_level srv c"
    unfolding lowers_def redis_level_def by (auto intro: order_trans)
qed

lemma redis_reserve_within:
  assumes "redis_wf lib L ttl srv" "redis_fit ttl r"
  shows "redis_wf lib L ttl (snd (redis_reserve_if_allowed lib L r srv)) \<and>
    redis_level (snd (redis_reserve_if_allowed lib L r srv)) d \<le>
      (if d = redis_counter_key lib (rr_key r) (rr_window r)
       then max (redis_level srv d) (unat (rr_effective_limit r)) else redis_level srv d)"
  using assms
proof (cases rule: redis_reserve_sends)
  case stopped
  then show ?thesis by (auto simp: call_lowers_def le_max_iff_disj)
next
  case (sent e g srv2)
  note laws = redis_wfD(1,2) [OF assms(1)]
  let ?f = "reserve_call lib L r e g"
  show ?thesis
  proof (cases rule: run_script_cases [where f = ?f and srv = srv2])
    case (refused n m)
    then show ?thesis
      using redis_inv_served [OF assms(1) sent(2), where n = n] laws
      by (simp add: sent(4) redis_wf_def redis_level_def le_max_iff_disj)
  next
    case (served n)
    note at = redis_inv_served [OF assms(1) sent(2), where n = n]
    from reserve_call_within [OF laws at(1) sent(1), of d] at(2) [of d] laws served(1)
    show ?thesis
      by (auto simp: sent(4) redis_wf_def redis_level_def split: if_splits)
  qed
qed

lemma redis_reserve_sent:
  assumes "redis_wf lib L ttl srv" "redis_fit ttl r" "redis_reserve_if_allowed lib L r srv = (Ok x, srv')"
  obtains e g s v where "sendable lib ttl r e g" "redis_inv (ttl div nanos_per_second) s"
    "\<And>d. redis_units s d \<le> redis_level srv d" "reserve_call lib L r e g s = (Inr v, sv_redis srv')"
    "redis_result lib v = Ok x" "sv_events srv = [] \<Longrightarrow> kept (sv_redis srv) s"
  using assms(1,2)
proof (cases rule: redis_reserve_sends)
  case stopped
  from stopped(1) [of x] assms(3) show ?thesis by simp
next
  case (sent e g srv2)
  let ?f = "reserve_call lib L r e g"
  obtain v where v: "run_script ?f srv2 = (Ok v, srv')" "redis_result lib v = Ok x"
    using assms(3) unfolding sent(4) by (rule served_then_Ok) simp
  show ?thesis
  proof (cases rule: run_script_cases [where f = ?f and srv = srv2])
    case (refused n m)
    then show ?thesis using v by simp
  next
    case (served n)
    let ?s = "advance n (sv_redis srv2)"
    have "?f ?s = (Inr v, sv_redis srv')"
      using served(1) served(2) [of v] v(1) by (cases "?f ?s") simp
    moreover have "kept (sv_redis srv) ?s" if "sv_events srv = []"
    proof -
      have up: "redis_up lib L ttl srv" using assms(1) that by (simp add: redis_up_def)
      note clean = cleanup_kept [OF up, of "rr_now r", folded sent(3)]
      have "redis_inv (ttl div nanos_per_second) (sv_redis srv2)"
        using sent(2) by (simp add: call_lowers_def redis_wf_def)
      from advance_0 [OF this] clean served(4) show ?thesis by simp
    qed
    ultimately show ?thesis
      by (intro that [OF sent(1) redis_inv_served [OF assms(1) sent(2)] _ v(2)])
  qed
qed

lemma redis_result_usage:
  assumes "redis_result lib (v0, v1, v2, v3, v4) = Ok x"
  shows "usage_from_i64 v2 v3 = Ok (srr_usage x)" "srr_allowed x \<longleftrightarrow> v0 \<noteq> 0"
  using assms
  by (auto simp: redis_result_def srr_allow_def srr_deny_def split: if_splits option.splits)

lemma redis_reserve_reports:
  assumes "redis_wf lib L ttl srv" "redis_fit ttl r" "redis_reserve_if_allowed lib L r srv = (Ok x, srv')"
  shows "redis_level srv' (redis_counter_key lib (rr_key r) (rr_window r)) \<le> unat (cu_used (srr_usage x)) \<and>
    unat (cu_used (srr_usage x)) \<le>
      max (redis_level srv (redis_counter_key lib (rr_key r) (rr_window r))) (unat (rr_effective_limit r))"
proof -
  let ?c = "redis_counter_key lib (rr_key r) (rr_window r)"
  have name: "counter_name ?c" by simp
  obtain e g s v where sent: "sendable lib ttl r e g" and inv: "redis_inv (ttl div nanos_per_second) s"
    and below: "redis_units s ?c \<le> redis_level srv ?c"
    and call: "reserve_call lib L r e g s = (Inr v, sv_redis srv')" and result: "redis_result lib v = Ok x"
    by (rule redis_reserve_sent [OF assms]) (rule that)
  note nonneg = counter_units_nonneg [OF inv name]
  have same: ?thesis if "v = (a, i, units_at s ?c ''committed'', units_at s ?c ''reserved'', b)"
    "redis_units (sv_redis srv') ?c = redis_units s ?c" for a i b
    using redis_units_used [OF inv name redis_result_usage(1) [OF result [unfolded that(1)]]] that(2) below
    by (simp add: redis_level_def le_max_iff_disj)
  show ?thesis
    using redis_wfD(1,2) [OF assms(1)] inv sent
  proof (cases rule: reserve_call_cases)
    case (failed m s')
    with call show ?thesis by simp
  next
    case (existing i y)
    with call show ?thesis by (intro same [of 1 i y]) auto
  next
    case (denied s')
    with call show ?thesis by (intro same [of 0 0 0]) auto
  next
    case (admitted i s')
    let ?t = "units_at s ?c ''committed'' + units_at s ?c ''reserved'' + uint (rr_amount r)"
    have v: "v = (1, i, units_at s ?c ''committed'', units_at s ?c ''reserved'' + uint (rr_amount r), ch_timestamp lib e)"
      and s': "sv_redis srv' = s'" using admitted(1) call by simp_all
    have small: "?t \<le> i64_max"
      using admitted(3) sent by (simp add: sendable_def redis_fit_def exact_max_def i64_max_def)
    have "unat (cu_used (srr_usage x)) = nat ?t"
      using usage_from_i64_used [OF nonneg(1) _ _ redis_result_usage(1) [OF result [unfolded v]]] nonneg small
      by (simp add: add.assoc)
    moreover have "nat ?t = redis_units s ?c + unat (rr_amount r)"
      using nonneg by (simp add: redis_units_def nat_add_distrib)
    moreover have "nat ?t \<le> unat (rr_effective_limit r)"
      using admitted(3) by (simp add: nat_le_iff)
    ultimately show ?thesis
      using admitted(4) [of ?c] by (simp add: redis_level_def s' le_max_iff_disj)
  qed
qed

lemma redis_reserve_returns:
  assumes "redis_reserve_if_allowed lib L r srv = (Ok x, srv')"
  shows "srr_allowed x = (srr_reservation x \<noteq> None)"
proof -
  have "\<exists>v. redis_result lib v = Ok x"
    using assms unfolding redis_reserve_if_allowed_def Let_def
    by (elim served_then_Ok) blast
  then show ?thesis
    by (auto simp: redis_result_def srr_allow_def srr_deny_def split: if_splits option.splits)
qed

lemma redis_reserve_admits:
  assumes "redis_wf lib L ttl srv" "redis_fit ttl r" "redis_usage lib L (rr_key r) (rr_window r) (rr_now r) srv = (Ok u, srv1)"
    and "sat_add (cu_used u) (rr_amount r) \<le> rr_effective_limit r" "rr_idempotency_key r = None"
    and "redis_reserve_if_allowed lib L r srv1 = (Ok x, srv')"
  shows "srr_allowed x"
proof -
  let ?c = "redis_counter_key lib (rr_key r) (rr_window r)"
  have name: "counter_name ?c" by simp
  have wf1: "redis_wf lib L ttl srv1"
    using redis_usage_lowers [OF assms(1), of "rr_key r" "rr_window r" "rr_now r"] assms(3) by (simp add: call_lowers_def)
  obtain e g s v where sent: "sendable lib ttl r e g" and inv: "redis_inv (ttl div nanos_per_second) s"
    and below: "redis_units s ?c \<le> redis_level srv1 ?c"
    and call: "reserve_call lib L r e g s = (Inr v, sv_redis srv')" and result: "redis_result lib v = Ok x"
    by (rule redis_reserve_sent [OF wf1 assms(2,6)]) (rule that)
  have limit: "rr_effective_limit r < u64_max"
    using assms(2) by (simp add: redis_fit_def exact_max_def word_less_def u64_max_def)
  have used: "unat (cu_used u) = redis_level srv1 ?c" by (rule redis_usage_reports [OF assms(1,3)])
  have "unat (cu_used u) + unat (rr_amount r) \<le> unat (rr_effective_limit r)"
    using assms(4) limit by (auto simp: word_le_nat_alt word_less_nat_alt unat_sat_add unat_u64_max min_le_iff_disj)
  with used below have fits: "redis_units s ?c + unat (rr_amount r) \<le> unat (rr_effective_limit r)" by simp
  show ?thesis
    using redis_wfD(1,2) [OF wf1] inv sent
  proof (cases rule: reserve_call_cases)
    case (denied s')
    have "int (redis_units s ?c + unat (rr_amount r)) \<le> int (unat (rr_effective_limit r))" using fits by (simp only: of_nat_le_iff)
    then show ?thesis
      using denied(4) counter_units_nonneg [OF inv name] by (simp add: redis_units_def)
  next
    case (admitted i s')
    then have "v = (1, i, units_at s ?c ''committed'', units_at s ?c ''reserved'' + uint (rr_amount r), ch_timestamp lib e)"
      using call by simp
    with redis_result_usage(2) result show ?thesis by fastforce
  next
    case (existing i y)
    with assms(5) show ?thesis by simp
  qed (use call in simp)
qed

section \<open>Settling for good\<close>

lemma script_then_Inr: "script_then y f = (Inr z, s') \<longleftrightarrow> (\<exists>x s. y = (Inr x, s) \<and> f x s = (Inr z, s'))"
  by (cases "(y, f)" rule: script_then.cases) auto

lemma cmd_hget_zrem [simp]: "cmd_hget k f (cmd_zrem i s) = cmd_hget k f s"
  by (simp add: cmd_hget_def hash_at_def)

lemma finish_script_settles:
  assumes "finish_script L k target i now s = (Inr v, s')" "v = 1 \<or> v = 2" "target \<in> {''committed'', ''refunded''}"
  shows "cmd_exists k s' \<and> cmd_hget k ''status'' s' \<in> {Some ''committed'', Some ''refunded''}"
proof -
  have there: "cmd_exists k t" if "cmd_hget k f t = Some w" for f t w
    using that by (auto simp: cmd_exists_def cmd_hget_def)
  have "cmd_hget k ''status'' s' \<in> {Some ''committed'', Some ''refunded''}"
  proof (cases "cmd_hget k ''status'' s \<in> {Some ''committed'', Some ''refunded''} \<or> \<not> cmd_exists k s
      \<or> cmd_hget k ''status'' s = Some ''expired''")
    case True
    with assms(1,2) show ?thesis
      by (cases "cmd_exists k s") (auto simp: finish_script_def Let_def dest: there [THEN notE [rotated]])
  next
    case False
    with assms(1) obtain e n :: int and u where
      "(if e \<le> n then script_then (lower_reserved L k u) (\<lambda>_ s.
            (Inr (- 1), cmd_zrem (int_text i) (cmd_hset k ''status'' ''expired'' s)))
        else script_then (lower_reserved L k u) (\<lambda>counter_key s.
          script_then
            (if target = ''committed''
             then script_then (needed L (number_at L k ''amount'' s) s) (\<lambda>amount s.
                    cmd_hincrby L counter_key ''committed'' (lua_argument L amount) s)
             else (Inr (), s)) (\<lambda>_ s.
          (Inr 1, cmd_zrem (int_text i) (cmd_hset k ''status'' target s))))) = (Inr v, s')"
      by (simp add: finish_script_def Let_def script_then_Inr) (elim exE conjE, rule that)
    then obtain w where "s' = cmd_zrem (int_text i) (cmd_hset k ''status'' target w)"
      using assms(2) by (cases "e \<le> n") (auto simp: script_then_Inr)
    then show ?thesis
      using assms(3) by auto
  qed
  with there show ?thesis by auto
qed

lemma redis_finish_calm:
  assumes "redis_inv ttl (sv_redis srv)" "sv_events srv = []"
  shows "redis_finish lib L now status rid srv =
    (let i = uint (as_u64 rid) in
       if i \<le> i64_max
       then (case finish_script L (redis_reservation_key i) status i (ch_timestamp lib now) (sv_redis srv) of
            (Inl m, s) \<Rightarrow> (Err (redis_error m), srv\<lparr>sv_redis := s\<rparr>)
          | (Inr v, s) \<Rightarrow>
              (if v = 1 \<or> v = 2 then Ok () else if v = 0 then Err StReservationNotFound
               else if v = - 1 then Err StReservationExpired
               else Err (StOther ''unexpected redis finish result''), srv\<lparr>sv_redis := s\<rparr>))
       else (Err (StInvalidInput (''reservation id'' @ '' is too large for backend integer'')), srv))"
  using assms(2)
  by (simp add: redis_finish_def pool_get_def run_script_def Let_def advance_0 [OF assms(1)] to_i64_def
      del: to_i64_Ok split: prod.splits sum.splits)

lemma redis_finish_settles:
  assumes "redis_wf lib L ttl srv" "sv_events srv = []" "status \<in> {''committed'', ''refunded''}"
    and "redis_finish lib L now status rid srv = (Ok (), srv')"
  shows "fst (redis_finish lib L now' status' rid srv') = Ok ()"
proof -
  note inv = redis_wfD(3) [OF assms(1)]
  have "redis_wf lib L ttl srv'" using redis_finish_lowers [OF assms(1,3), of now rid] assms(4) by (simp add: call_lowers_def)
  note inv' = redis_wfD(3) [OF this]
  obtain i v s where i: "i = uint (as_u64 rid)" "i \<le> i64_max"
    and f: "finish_script L (redis_reservation_key i) status i (ch_timestamp lib now) (sv_redis srv) = (Inr v, s)"
    and v: "v = 1 \<or> v = 2" and srv': "srv' = srv\<lparr>sv_redis := s\<rparr>"
    using assms(4) unfolding redis_finish_calm [OF inv assms(2)]
    by (auto simp: Let_def split: prod.splits sum.splits if_splits)
  from finish_script_settles [OF f v assms(3)]
  have "finish_script L (redis_reservation_key i) status' i (ch_timestamp lib now') s = (Inr 2, s)"
    by (auto simp: finish_script_def Let_def)
  then show ?thesis
    using i redis_finish_calm [OF inv', of lib L now' status' rid] assms(2) by (simp add: srv' Let_def)
qed

section \<open>The contract\<close>

lemma redis_ops_simps [simp]:
  "st_reserve_if_allowed (redis_ops lib L) = redis_reserve_if_allowed lib L"
  "st_commit (redis_ops lib L) = redis_commit lib L" "st_refund (redis_ops lib L) = redis_refund lib L"
  "st_usage (redis_ops lib L) = redis_usage lib L"
  by (simp_all add: redis_ops_def)

lemmas redis_laws =
  redis_usage_lowers [unfolded call_lowers_def, THEN conjunct1]
  redis_usage_lowers [unfolded call_lowers_def, THEN conjunct2, rule_format]
  redis_finish_lowers [unfolded call_lowers_def, THEN conjunct1]
  redis_finish_lowers [unfolded call_lowers_def, THEN conjunct2, rule_format]
  redis_reserve_within [THEN conjunct1] redis_reserve_within [THEN conjunct2]

interpretation redis: budget_store "redis_ops lib L" "redis_wf lib L ttl" "redis_counter_key lib" redis_level "redis_fit ttl"
  for lib :: "('tz, 'more) chrono_scheme" and L :: lua and ttl :: duration
proof unfold_locales
  fix srv srv' :: server and r x
  assume "redis_wf lib L ttl srv" "redis_fit ttl r" "st_reserve_if_allowed (redis_ops lib L) r srv = (Ok x, srv')"
  then show "redis_level srv' (redis_counter_key lib (rr_key r) (rr_window r)) \<le> unat (cu_used (srr_usage x)) \<and>
      unat (cu_used (srr_usage x)) \<le>
        max (redis_level srv (redis_counter_key lib (rr_key r) (rr_window r))) (unat (rr_effective_limit r))"
    by (intro redis_reserve_reports) simp_all
next
  fix srv srv' srv1 :: server and r u x
  assume "redis_wf lib L ttl srv" "redis_fit ttl r"
    "st_usage (redis_ops lib L) (rr_key r) (rr_window r) (rr_now r) srv = (Ok u, srv1)"
    "sat_add (cu_used u) (rr_amount r) \<le> rr_effective_limit r" "rr_idempotency_key r = None"
    "st_reserve_if_allowed (redis_ops lib L) r srv1 = (Ok x, srv')"
  then show "srr_allowed x" by (auto intro: redis_reserve_admits)
qed (simp_all add: redis_commit_def redis_refund_def redis_laws redis_usage_reports redis_reserve_returns)

lemma run_script_events: "sv_events srv = [] \<Longrightarrow> sv_events (snd (run_script f srv)) = []"
  by (simp add: run_script_def split: prod.splits sum.splits)

lemma served_then_events:
  assumes "sv_events (snd y) = []" "\<And>x srv. sv_events srv = [] \<Longrightarrow> sv_events (snd (f x srv)) = []"
  shows "sv_events (snd (served_then y f)) = []"
  using assms by (simp add: served_then_snd split: outcome.splits)

lemma redis_events:
  assumes "sv_events srv = []"
  shows "sv_events (snd (redis_usage lib L k w now srv)) = []"
    and "sv_events (snd (redis_reserve_if_allowed lib L r srv)) = []"
    and "sv_events (snd (redis_finish lib L now status rid srv)) = []"
  unfolding redis_usage_def redis_reserve_if_allowed_def redis_finish_def redis_cleanup_expired_def Let_def
  by (intro served_then_events run_script_events; simp add: assms pool_get_def)+

lemma redis_up_keeps:
  assumes "redis_up lib L ttl srv"
  shows "redis_up lib L ttl (snd (redis_usage lib L k w now srv))"
    and "redis_fit ttl r \<Longrightarrow> redis_up lib L ttl (snd (redis_reserve_if_allowed lib L r srv))"
    and "status \<in> {''committed'', ''refunded''} \<Longrightarrow> redis_up lib L ttl (snd (redis_finish lib L now status rid srv))"
  using redis_upD [OF assms] by (simp_all add: redis_up_def redis_laws redis_events)

lemmas redis_up_laws =
  redis.usage_level [OF redis_upD(1)] redis.usage_reports [OF redis_upD(1)] redis.reserve_level [OF redis_upD(1)]
  redis.reserve_reports [OF redis_upD(1)] redis.reserve_returns [OF redis_upD(1)] redis.reserve_admits [OF redis_upD(1)]
  redis.commit_level [OF redis_upD(1)] redis.refund_level [OF redis_upD(1)]

interpretation redis_up: settling_store "redis_ops lib L" "redis_up lib L ttl" "redis_counter_key lib" redis_level "redis_fit ttl"
  for lib :: "('tz, 'more) chrono_scheme" and L :: lua and ttl :: duration
proof unfold_locales
  fix srv srv' :: server and t t' rid
  assume up: "redis_up lib L ttl srv"
  note settles = redis_finish_settles [OF redis_upD [OF up]]
  show "st_commit (redis_ops lib L) t rid srv = (Ok (), srv') \<Longrightarrow>
      fst (st_commit (redis_ops lib L) t' rid srv') = Ok () \<and> fst (st_refund (redis_ops lib L) t' rid srv') = Ok ()"
    "st_refund (redis_ops lib L) t rid srv = (Ok (), srv') \<Longrightarrow>
      fst (st_commit (redis_ops lib L) t' rid srv') = Ok () \<and> fst (st_refund (redis_ops lib L) t' rid srv') = Ok ()"
    using settles [of "''committed''" t rid srv' t'] settles [of "''refunded''" t rid srv' t']
    by (simp_all add: redis_commit_def redis_refund_def)
qed (simp_all add: redis_commit_def redis_refund_def redis_up_keeps
    redis_up_laws [unfolded redis_ops_simps redis_commit_def redis_refund_def] split del: if_split)

section \<open>Reservations just made\<close>

lemma redis_result_reservation:
  assumes "redis_result lib (1, i, c, r, z) = Ok x" "srr_reservation x = Some v" "chrono_laws lib"
  shows "id_from_i64 i = Ok (sr_id v)" "sr_expires_at v = z * nanos_per_second"
  using assms
  by (auto simp: redis_result_def srr_allow_def store_reservation_new_def
      chrono_from_timestamp [OF assms(3)] split: option.splits)

lemma redis_reserve_fresh:
  assumes "redis_up lib L ttl srv" "redis_fit ttl r" "rr_idempotency_key r = None"
    and "redis_reserve_if_allowed lib L r srv = (Ok x, srv')" "srr_reservation x = Some v"
    and "0 \<le> rd_sequence (sv_redis srv)" "rd_sequence (sv_redis srv) < 99999999999999"
    and "rd_clock (sv_redis srv) * nanos_per_second < wb_end (rr_window r)"
  obtains e where "ch_add lib (rr_now r) ttl = Some e" "sr_expires_at v = ch_timestamp lib e * nanos_per_second"
    "sr_id v = ReservationId (word_of_int (rd_sequence (sv_redis srv) + 1))"
    "fresh_row (redis_reservation_key (rd_sequence (sv_redis srv) + 1)) (int_text (rd_sequence (sv_redis srv) + 1))
       (redis_counter_key lib (rr_key r) (rr_window r)) (ch_timestamp lib e) (sv_redis srv')"
    "rd_sequence (sv_redis srv') = rd_sequence (sv_redis srv) + 1"
proof -
  let ?n = "rd_sequence (sv_redis srv) + 1"
  note wf = redis_upD(1) [OF assms(1)] and laws = redis_wfD(1,2) [OF redis_upD(1) [OF assms(1)]]
  obtain e g s w where sent: "sendable lib ttl r e g" and inv: "redis_inv (ttl div nanos_per_second) s"
    and call: "reserve_call lib L r e g s = (Inr w, sv_redis srv')" and result: "redis_result lib w = Ok x"
    and kept: "rd_sequence s = rd_sequence (sv_redis srv)" "rd_clock s = rd_clock (sv_redis srv)"
    by (rule redis_reserve_sent [OF wf assms(2,4)]) (use redis_upD(2) [OF assms(1)] that in \<open>simp add: kept_def\<close>)
  have adds: "ch_add lib (rr_now r) ttl = Some e" "ch_add lib (wb_end (rr_window r)) ttl = Some g" "0 < ttl"
    "nanos_per_second dvd ttl"
  proof -
    have "reserve_request_validate r = Ok ()"
      using assms(4) unfolding redis_reserve_if_allowed_def
      by (rule served_then_Ok) (simp del: reserve_request_validate_Ok)
    then show "0 < ttl" using assms(2) by (simp add: redis_fit_def)
  qed (use sent in \<open>auto simp: sendable_def redis_fit_def\<close>)
  have later: "rd_clock s < ch_timestamp lib g"
  proof -
    have "nanos_per_second \<le> ttl" using adds(3,4) by (simp add: zdvd_imp_le)
    with assms(8) have "(rd_clock s + 1) * nanos_per_second \<le> g"
      using chrono_add [OF laws(1) adds(2)] by (simp add: kept(2) distrib_right)
    then show ?thesis
      using zdiv_mono1 [of "(rd_clock s + 1) * nanos_per_second" g nanos_per_second]
      by (simp add: chrono_timestamp [OF laws(1)] nanos_per_second_def)
  qed
  have texts: "lua_concat L ?n = int_text ?n" "lua_reply L ?n = ?n" "lua_argument L ?n = int_text ?n"
    using laws(2) assms(6,7) by (simp_all add: lua_laws_def)
  have id: "id_from_i64 ?n = Ok (ReservationId (word_of_int ?n))"
    using assms(6) by (simp add: id_from_i64_def u64_from_i64_def)
  show ?thesis
    using laws inv sent
  proof (cases rule: reserve_call_cases)
    case (admitted i s')
    then have "w = (1, ?n, units_at s (redis_counter_key lib (rr_key r) (rr_window r)) ''committed'',
        units_at s (redis_counter_key lib (rr_key r) (rr_window r)) ''reserved'' + uint (rr_amount r), ch_timestamp lib e)"
      and s': "sv_redis srv' = s'"
      using call texts kept by simp_all
    note out = redis_result_reservation [OF result [unfolded this(1)] assms(5) laws(1)]
    show ?thesis
      using that [OF adds(1)] out id texts admitted(6) [OF later] admitted(7) by (simp add: s' kept redis_reservation_key_def)
  next
    case (denied s')
    with call result assms(5) show ?thesis by (auto simp: redis_result_def srr_deny_def)
  next
    case (existing i y)
    with assms(3) show ?thesis by simp
  qed (use call in simp)
qed

section \<open>Runs of a broker\<close>

interpretation redis_runs: stepwise "broker_step lib wd"
    "run_ok (redis_ops lib L) (redis_wf lib L ttl) (redis_counter_key lib) redis_level (redis_fit ttl) wd"
  for lib :: "('tz, 'more) chrono_scheme" and L :: lua and ttl :: duration and wd :: "server budget_warden"
  by unfold_locales (rule redis.step_run_ok)

lemma counter_key_policy_name:
  assumes "colon_free (bp_name p)" "colon_free (bp_name q)"
    and "redis_counter_key lib (policy_store_key p k) v = redis_counter_key lib (policy_store_key q l) w"
  shows "bp_name p = bp_name q"
  using assms colon_split [of "bp_name p" "bp_name q"]
  by (simp add: redis_counter_key_def codec_key_def compact_def policy_store_key_def store_key_new_def Let_def
      del: colon_free.simps)

lemma redis_policies_apart:
  assumes "warden_wf wd" "list_all (\<lambda>p. colon_free (bp_name p)) (wd_policies wd)"
  shows "policies_apart (redis_counter_key lib) wd"
proof -
  have "p = q" if "p \<in> set (wd_policies wd)" "q \<in> set (wd_policies wd)"
    "redis_counter_key lib (policy_store_key p k) v = redis_counter_key lib (policy_store_key q l) w" for p q k l v w
  proof -
    have "bp_name p = bp_name q"
      using assms(2) that by (intro counter_key_policy_name) (auto simp: list_all_iff simp del: colon_free.simps)
    with assms(1) that(1,2) show ?thesis by (auto simp: warden_wf_def distinct_map dest: inj_onD)
  qed
  then show ?thesis unfolding policies_apart_def by blast
qed

definition empty_server :: "int \<Rightarrow> server_event list \<Rightarrow> server" where
  "empty_server clock events = \<lparr>sv_redis = empty_redis clock, sv_events = events\<rparr>"

lemma redis_level_empty [simp]: "redis_level (empty_server clock events) c = 0"
  by (simp add: redis_level_def redis_units_def empty_server_def empty_redis_def units_at_def cmd_hget_def hash_at_def)

lemma redis_run_start_ok:
  assumes "wd_store wd = redis_ops lib L" "warden_wf wd" "list_all (\<lambda>p. colon_free (bp_name p)) (wd_policies wd)"
    and "chrono_laws lib" "lua_laws L" "nanos_per_second dvd wd_reservation_ttl wd"
    and "list_all (\<lambda>p. uint (bp_hard_limit p) < exact_max) (wd_policies wd)"
  shows "run_ok (redis_ops lib L) (redis_wf lib L (wd_reservation_ttl wd)) (redis_counter_key lib) redis_level
    (redis_fit (wd_reservation_ttl wd)) wd (run_start (empty_server clock events))"
proof -
  have "redis_fit (wd_reservation_ttl wd) r"
    if "p \<in> set (wd_policies wd)" "rr_effective_limit r \<le> bp_hard_limit p" "rr_reservation_ttl r = wd_reservation_ttl wd" for p r
    using assms(6,7) that by (auto simp: redis_fit_def list_all_iff word_le_def intro: order.strict_trans1)
  then have "requests_fit (redis_fit (wd_reservation_ttl wd)) wd" by (simp add: requests_fit_def)
  then show ?thesis
    using assms(1,4,5) redis_policies_apart [OF assms(2,3)]
    by (simp add: run_ok_def run_start_def within_limits_def redis_wf_def empty_server_def [THEN arg_cong, of sv_redis] redis_inv_empty)
qed

end
