(* ===== verification/Redis_Rounds.thy ===== *)
theory Redis_Rounds
  imports Redis_Runs
begin

text \<open>
  The round trips of the operations of the Redis store. Between the cleanup script and the script of one
  operation the scripts of other clients may run, so here the round trips are the steps: every
  interleaving of the operations of any number of clients is a list of them.
\<close>

section \<open>Round trips\<close>

datatype round_trip =
  Connect
| CleanupRound datetime
| ReserveRound reserve_request datetime datetime
| FinishRound string reservation_id datetime
| UsageRound store_key window_bounds

fun redis_round :: "('tz, 'more) chrono_scheme \<Rightarrow> lua \<Rightarrow> round_trip \<Rightarrow> server \<Rightarrow> server" where
  "redis_round lib L Connect srv = snd (pool_get srv)"
| "redis_round lib L (CleanupRound now) srv = snd (redis_cleanup_expired lib L now srv)"
| "redis_round lib L (ReserveRound r e g) srv = snd (run_script (reserve_call lib L r e g) srv)"
| "redis_round lib L (FinishRound status rid now) srv =
     snd (run_script (finish_script L (redis_reservation_key (uint (as_u64 rid))) status (uint (as_u64 rid))
       (ch_timestamp lib now)) srv)"
| "redis_round lib L (UsageRound k w) srv = snd (run_script (usage_script L (redis_counter_key lib k w)) srv)"

text \<open>The script of a round trip; getting a connection is one without effect, and fails alike.\<close>

fun round_script :: "('tz, 'more) chrono_scheme \<Rightarrow> lua \<Rightarrow> round_trip \<Rightarrow> redis \<Rightarrow> redis" where
  "round_script lib L Connect s = s"
| "round_script lib L (CleanupRound now) s = snd (cleanup_script L (ch_timestamp lib now) s)"
| "round_script lib L (ReserveRound r e g) s = snd (reserve_call lib L r e g s)"
| "round_script lib L (FinishRound status rid now) s =
     snd (finish_script L (redis_reservation_key (uint (as_u64 rid))) status (uint (as_u64 rid)) (ch_timestamp lib now) s)"
| "round_script lib L (UsageRound k w) s = snd (usage_script L (redis_counter_key lib k w) s)"

text \<open>The round trips clients make: the requests of one broker, sent once their instants are computed.\<close>

fun round_fits :: "('tz, 'more) chrono_scheme \<Rightarrow> duration \<Rightarrow> round_trip \<Rightarrow> bool" where
  "round_fits lib ttl (ReserveRound r e g) = sendable lib ttl r e g"
| "round_fits lib ttl (FinishRound status rid now) = (status \<in> {''committed'', ''refunded''})"
| "round_fits lib ttl _ = True"

lemma redis_cleanup_run:
  "snd (redis_cleanup_expired lib L now srv) = snd (run_script (cleanup_script L (ch_timestamp lib now)) srv)"
  by (simp add: redis_cleanup_expired_def served_then_snd split: outcome.split)

lemma run_script_effect:
  "\<exists>n. sv_redis (snd (run_script f srv)) = advance n (sv_redis srv)
     \<or> sv_redis (snd (run_script f srv)) = snd (f (advance n (sv_redis srv)))"
  by (cases rule: run_script_cases [where f = f and srv = srv]) blast+

text \<open>Some seconds pass, then the script runs or does not.\<close>

lemma redis_round_effect:
  assumes "redis_wf lib L ttl srv"
  obtains n where "sv_redis (redis_round lib L d srv) = advance n (sv_redis srv)
    \<or> sv_redis (redis_round lib L d srv) = round_script lib L d (advance n (sv_redis srv))"
proof -
  have "\<exists>n. sv_redis (snd (pool_get srv)) = advance n (sv_redis srv)"
  proof (cases "sv_events srv")
    case Nil
    then show ?thesis by (intro exI [of _ 0]) (simp add: pool_get_def advance_0 [OF redis_wfD(3) [OF assms]])
  next
    case (Cons e es)
    then show ?thesis by (cases e) (auto simp: pool_get_def)
  qed
  note connect = this
  show ?thesis
  proof (cases d)
    case Connect
    with connect that show ?thesis by auto
  next
    case (CleanupRound now)
    then show ?thesis
      using run_script_effect [of "cleanup_script L (ch_timestamp lib now)" srv] that
      by (auto simp: redis_cleanup_run)
  next
    case (ReserveRound r e g)
    then show ?thesis using run_script_effect [of "reserve_call lib L r e g" srv] that by auto
  next
    case (FinishRound status rid now)
    then show ?thesis
      using run_script_effect [of "finish_script L (redis_reservation_key (uint (as_u64 rid))) status (uint (as_u64 rid))
        (ch_timestamp lib now)" srv] that by auto
  next
    case (UsageRound k w)
    then show ?thesis using run_script_effect [of "usage_script L (redis_counter_key lib k w)" srv] that by auto
  qed
qed

section \<open>Safety\<close>

lemma round_script_within:
  assumes "redis_wf lib L ttl srv" "redis_inv (ttl div nanos_per_second) s" "round_fits lib ttl d"
  shows "redis_inv (ttl div nanos_per_second) (round_script lib L d s) \<and>
    redis_units (round_script lib L d s) c \<le> max (redis_units s c)
      (case d of ReserveRound r e g \<Rightarrow>
         if c = redis_counter_key lib (rr_key r) (rr_window r) then unat (rr_effective_limit r) else 0 | _ \<Rightarrow> 0)"
proof -
  note laws = redis_wfD(1,2) [OF assms(1)]
  show ?thesis
  proof (cases d)
    case Connect
    with assms(2) show ?thesis by simp
  next
    case (CleanupRound now)
    with cleanup_script_lowers [OF laws(2) assms(2)] show ?thesis by (simp add: lowers_def)
  next
    case (ReserveRound r e g)
    with reserve_call_within [OF laws assms(2), of r e g c] assms(3) show ?thesis by (auto split: if_splits)
  next
    case (FinishRound status rid now)
    with finish_script_lowers [OF laws(2) assms(2)] assms(3) show ?thesis by (simp add: lowers_def)
  next
    case (UsageRound k w)
    with usage_script_exact [OF laws(2) assms(2)] assms(2) show ?thesis by simp
  qed
qed

text \<open>The limits of the reservations a list of round trips asks for.\<close>

fun round_within :: "('tz, 'more) chrono_scheme \<Rightarrow> (string \<Rightarrow> nat) \<Rightarrow> round_trip \<Rightarrow> bool" where
  "round_within lib limit (ReserveRound r e g) =
     (unat (rr_effective_limit r) \<le> limit (redis_counter_key lib (rr_key r) (rr_window r)))"
| "round_within lib limit _ = True"

lemma redis_round_within:
  assumes "redis_wf lib L ttl srv" "round_fits lib ttl d"
  shows "redis_wf lib L ttl (redis_round lib L d srv)"
    and "round_within lib limit d \<Longrightarrow> redis_level srv c \<le> limit c \<Longrightarrow> redis_level (redis_round lib L d srv) c \<le> limit c"
proof -
  note laws = redis_wfD [OF assms(1)]
  obtain n where n: "sv_redis (redis_round lib L d srv) = advance n (sv_redis srv)
    \<or> sv_redis (redis_round lib L d srv) = round_script lib L d (advance n (sv_redis srv))"
    by (rule redis_round_effect [OF assms(1)])
  have at: "redis_inv (ttl div nanos_per_second) (advance n (sv_redis srv))" by (rule redis_inv_advance [OF laws(3)])
  note script = round_script_within [OF assms(1) at assms(2)]
  show "redis_wf lib L ttl (redis_round lib L d srv)"
    using n at script laws by (auto simp: redis_wf_def)
  show "redis_level (redis_round lib L d srv) c \<le> limit c"
    if "round_within lib limit d" "redis_level srv c \<le> limit c"
    using n script [of c] redis_units_advance [OF laws(3), of n c] that
    by (cases d) (auto simp: redis_level_def split: if_splits)
qed

lemma redis_rounds_within:
  assumes "redis_wf lib L ttl srv" "list_all (round_fits lib ttl) ds"
  shows "redis_wf lib L ttl (fold (redis_round lib L) ds srv)"
    and "list_all (round_within lib limit) ds \<Longrightarrow> redis_level srv c \<le> limit c \<Longrightarrow>
      redis_level (fold (redis_round lib L) ds srv) c \<le> limit c"
  using assms
proof (induction ds arbitrary: srv)
  case (Cons d ds)
  note step = redis_round_within [of lib L ttl _ d]
  { case 1
    with Cons.IH(1) [of "redis_round lib L d srv"] step(1) [of srv] show ?case by simp }
  { case 2
    with Cons.IH(2) [of "redis_round lib L d srv"] step [of srv] show ?case by simp }
qed simp_all

text \<open>An operation of the store is such a list.\<close>

definition trips :: "('tz, 'more) chrono_scheme \<Rightarrow> lua \<Rightarrow> duration \<Rightarrow> round_trip set \<Rightarrow> server \<Rightarrow> server \<Rightarrow> bool" where
  "trips lib L ttl D srv srv' \<longleftrightarrow>
     (\<exists>ds. set ds \<subseteq> D \<and> list_all (round_fits lib ttl) ds \<and> srv' = fold (redis_round lib L) ds srv)"

lemma trips_none [simp]: "trips lib L ttl D srv srv"
  unfolding trips_def by (intro exI [of _ "[]"]) simp

lemma trips_one: "d \<in> D \<Longrightarrow> round_fits lib ttl d \<Longrightarrow> srv' = redis_round lib L d srv \<Longrightarrow> trips lib L ttl D srv srv'"
  unfolding trips_def by (intro exI [of _ "[d]"]) simp

lemma trips_then:
  assumes "trips lib L ttl D srv (snd y)" "\<And>x. fst y = Ok x \<Longrightarrow> trips lib L ttl D (snd y) (snd (f x (snd y)))"
  shows "trips lib L ttl D srv (snd (served_then y f))"
proof (cases "fst y")
  case (Ok x)
  obtain ds ds' where "set ds \<subseteq> D" "list_all (round_fits lib ttl) ds" "snd y = fold (redis_round lib L) ds srv"
    "set ds' \<subseteq> D" "list_all (round_fits lib ttl) ds'" "snd (f x (snd y)) = fold (redis_round lib L) ds' (snd y)"
    using assms(1) assms(2) [OF Ok] unfolding trips_def by blast
  then show ?thesis
    unfolding trips_def by (intro exI [of _ "ds @ ds'"]) (simp add: served_then_snd Ok)
qed (use assms(1) in \<open>simp_all add: served_then_snd\<close>)

fun call_trips :: "store_call \<Rightarrow> round_trip set" where
  "call_trips (ReserveCall r) = {Connect, CleanupRound (rr_now r)} \<union> {ReserveRound r e g | e g. True}"
| "call_trips (CommitCall t rid) = {Connect, FinishRound ''committed'' rid t}"
| "call_trips (RefundCall t rid) = {Connect, FinishRound ''refunded'' rid t}"
| "call_trips (UsageCall k w t) = {Connect, CleanupRound t, UsageRound k w}"

lemma served_pure: "snd (served_then y (\<lambda>x srv. (f x, srv))) = snd y"
  by (simp add: served_then_snd split: outcome.split)

lemma trips_connect: "Connect \<in> D \<Longrightarrow> trips lib L ttl D srv (snd (pool_get srv))"
  by (rule trips_one [of Connect]) simp_all

lemma trips_cleanup: "CleanupRound now \<in> D \<Longrightarrow> trips lib L ttl D srv (snd (redis_cleanup_expired lib L now srv))"
  by (rule trips_one [of "CleanupRound now"]) simp_all

lemma redis_reserve_trips:
  assumes "redis_fit ttl r"
  shows "trips lib L ttl (call_trips (ReserveCall r)) srv (snd (redis_reserve_if_allowed lib L r srv))"
  unfolding redis_reserve_if_allowed_def Let_def served_pure
proof (intro trips_then; simp add: trips_connect trips_cleanup)
  fix e g
  let ?srv = "snd (redis_cleanup_expired lib L (rr_now r) (snd (pool_get srv)))"
  assume sent: "rr_amount r \<noteq> 0 \<and> rr_effective_limit r \<le> rr_hard_limit r \<and> 0 < rr_reservation_ttl r"
    "ch_add lib (rr_now r) (rr_reservation_ttl r) = Some e"
    "ch_add lib (wb_end (rr_window r)) (rr_reservation_ttl r) = Some g"
  show "trips lib L ttl
      (insert Connect (insert (CleanupRound (rr_now r)) {d. \<exists>e g. d = ReserveRound r e g})) ?srv
      (snd (run_script (reserve_script L (redis_counter_key lib (rr_key r) (rr_window r))
        (redis_idempotency_key lib (rr_key r) (rr_window r)) (uint (rr_amount r)) (uint (rr_effective_limit r))
        (ch_timestamp lib e) (idempotency_argument r) (ch_timestamp lib g)) ?srv))"
    using assms sent
    by (intro trips_one [of "ReserveRound r e g"]) (simp_all add: sendable_def reserve_call_def [abs_def])
qed

lemma redis_finish_trips:
  assumes "status \<in> {''committed'', ''refunded''}" "Connect \<in> D" "FinishRound status rid now \<in> D"
  shows "trips lib L ttl D srv (snd (redis_finish lib L now status rid srv))"
  unfolding redis_finish_def served_pure
  using assms by (intro trips_then) (auto simp: trips_connect served_pure intro: trips_one [of "FinishRound status rid now"])

lemma redis_usage_trips:
  "trips lib L ttl (call_trips (UsageCall k w now)) srv (snd (redis_usage lib L k w now srv))"
  unfolding redis_usage_def served_pure
  by (intro trips_then) (auto simp: trips_connect trips_cleanup intro: trips_one [of "UsageRound k w"])

lemma redis_call_is_trips:
  assumes "call_fits (redis_fit ttl) c"
  shows "trips lib L ttl (call_trips c) srv (store_after (redis_ops lib L) c srv)"
  using assms redis_reserve_trips redis_usage_trips
  by (cases c) (auto simp: redis_commit_def redis_refund_def intro: redis_finish_trips)

section \<open>What a round trip leaves alone\<close>

text \<open>
  \<open>s'\<close> is \<open>s\<close> after commands that leave the keys of \<open>K\<close> and the members of \<open>M\<close> in the sorted set
  alone; no command sets the clock or lowers the sequence number.
\<close>

definition spares :: "string set \<Rightarrow> string set \<Rightarrow> redis \<Rightarrow> redis \<Rightarrow> bool" where
  "spares K M s s' \<longleftrightarrow>
     rd_sequence s \<le> rd_sequence s' \<and> rd_clock s' = rd_clock s \<and> (\<forall>k\<in>K. hash_at s' k = hash_at s k)
   \<and> (\<forall>i\<in>M. \<forall>e. (i, e) \<in> set (rd_expirations s') \<longleftrightarrow> (i, e) \<in> set (rd_expirations s))"

lemma spares_trans: "spares K M s t \<Longrightarrow> spares K M t u \<Longrightarrow> spares K M s u"
  unfolding spares_def by (metis order_trans)

lemma hash_at_hdel: "l \<noteq> k \<Longrightarrow> hash_at (cmd_hdel k f s) l = hash_at s l"
  by (simp add: cmd_hdel_def Let_def, simp add: hash_at_def hmap_simps)

lemma hdel_simps [simp]:
  "rd_clock (cmd_hdel k f s) = rd_clock s" "rd_sequence (cmd_hdel k f s) = rd_sequence s"
  "rd_expirations (cmd_hdel k f s) = rd_expirations s"
  by (simp_all add: cmd_hdel_def Let_def delete_key_def)

lemma spares_simps [simp]:
  "spares K M s s"
  "k \<notin> K \<Longrightarrow> spares K M s (cmd_hset k f v s') = spares K M s s'"
  "k \<notin> K \<Longrightarrow> spares K M s (cmd_hdel k f s') = spares K M s s'"
  "k \<notin> K \<Longrightarrow> spares K M s (cmd_expireat k t s') = spares K M s s'"
  "i \<notin> M \<Longrightarrow> spares K M s (cmd_zrem i s') = spares K M s s'"
  "i \<notin> M \<Longrightarrow> spares K M s (cmd_zadd e i s') = spares K M s s'"
proof -
  have ne: "l \<in> K \<Longrightarrow> k \<notin> K \<Longrightarrow> l \<noteq> k" "l \<in> M \<Longrightarrow> i \<notin> M \<Longrightarrow> l \<noteq> i" for l by blast+
  show "spares K M s s" by (simp add: spares_def)
  show "k \<notin> K \<Longrightarrow> spares K M s (cmd_hset k f v s') = spares K M s s'"
    by (simp add: spares_def ne cong: ball_cong)
  show "k \<notin> K \<Longrightarrow> spares K M s (cmd_hdel k f s') = spares K M s s'"
    by (simp add: spares_def ne hash_at_hdel cong: ball_cong)
  show "k \<notin> K \<Longrightarrow> spares K M s (cmd_expireat k t s') = spares K M s s'"
    by (simp add: spares_def ne cong: ball_cong)
  show "i \<notin> M \<Longrightarrow> spares K M s (cmd_zrem i s') = spares K M s s'"
    by (simp add: spares_def ne hash_at_def cmd_zrem_def cong: ball_cong)
  show "i \<notin> M \<Longrightarrow> spares K M s (cmd_zadd e i s') = spares K M s s'"
    by (simp add: spares_def ne hash_at_def cmd_zadd_def set_insort_key cong: ball_cong)
qed

lemma script_then_spares:
  assumes "spares K M s (snd y)" "\<And>x s'. spares K M s s' \<Longrightarrow> spares K M s (snd (f x s'))"
  shows "spares K M s (snd (script_then y f))"
  using assms by (cases "(y, f)" rule: script_then.cases) auto

lemma settle_writes_spares: "c \<notin> K \<Longrightarrow> k \<notin> K \<Longrightarrow> spares K M s (settle_writes st k c a s') = spares K M s s'"
  by (simp add: settle_writes_def Let_def)

lemma cleanup_all_spares:
  assumes "lua_laws L" "redis_inv ttl s" "K \<subseteq> Collect row_key"
    and "\<And>i. i \<in> set ids \<Longrightarrow> i \<notin> M \<and> redis_reservation_prefix @ i \<notin> K"
  shows "spares K M s (snd (cleanup_all L ids s))"
  using assms(2,4)
proof (induction ids arbitrary: s)
  case (Cons i ids)
  obtain s' where s': "cleanup_one L i s = (Inr (), cmd_zrem i s')" "lowers ttl s (cmd_zrem i s')"
    "s' = s \<or> (\<exists>c a. counter_name c \<and> s' = settle_writes ''expired'' (redis_reservation_prefix @ i) c a s)"
    by (rule cleanup_one_cases [OF assms(1) Cons.prems(1)]) (rule that)
  have "c \<notin> K" if "counter_name c" for c using that assms(3) row_key_not_counter by blast
  with s'(3) Cons.prems(2) [of i] have "spares K M s (cmd_zrem i s')" by (auto simp: settle_writes_spares)
  moreover have "spares K M (cmd_zrem i s') (snd (cleanup_all L ids (cmd_zrem i s')))"
    by (rule Cons.IH [OF lowers_inv [OF s'(2)]]) (use Cons.prems(2) in simp)
  ultimately show ?case by (simp add: s'(1)) (rule spares_trans)
qed simp

lemma finish_script_spares:
  assumes "lua_laws L" "redis_inv ttl s" "row_key k" "target \<in> {''committed'', ''refunded''}"
    and "K \<subseteq> Collect row_key" "k \<notin> K" "int_text i \<notin> M"
  shows "spares K M s (snd (finish_script L k target i now s))"
proof (cases "cmd_hget k ''status'' s = Some ''active''")
  case False
  have "cmd_hget k ''status'' s \<in> Some ` {''committed'', ''refunded'', ''expired''}" if "cmd_exists k s"
    using redis_invD(3) [OF assms(2,3)] that False unfolding cmd_exists_def reservation_wf_def by auto
  then show ?thesis by (auto simp: finish_script_def Let_def)
next
  case True
  have c: "c \<notin> K" if "counter_name c" for c using that assms(5) row_key_not_counter by blast
  show ?thesis
    by (rule finish_script_active [OF assms(1-3) True assms(4), of i now])
      (simp add: settle_writes_spares c assms(6,7) split: option.split)
qed

lemma reserve_admit_spares:
  assumes "c \<notin> K" "ik \<notin> K" "redis_reservation_prefix @ lua_concat L (rd_sequence s + 1) \<notin> K"
    and "lua_argument L (rd_sequence s + 1) \<notin> M"
  shows "spares K M s (snd (reserve_admit L c ik a e idempotency retention committed reserved s))"
proof (cases "i64_max \<le> rd_sequence s")
  case False
  have start: "spares K M s (s\<lparr>rd_sequence := rd_sequence s + 1\<rparr>)" by (simp add: spares_def hash_at_def)
  have incr: "spares K M s (snd (cmd_hincrby L c f n s'))" if "spares K M s s'" for f n s'
    using that assms(1) by (simp add: cmd_hincrby_def split: option.split)
  have expire: "spares K M s (snd (script_expireat L k d s'))" if "spares K M s s'" "k \<notin> K" for k d s'
    using that by (simp add: script_expireat_def split: option.split)
  show ?thesis
    unfolding reserve_admit_def cmd_incr_def Let_def using False assms start
    by (simp, intro script_then_spares incr expire) (simp_all add: expire)
qed (simp add: reserve_admit_def cmd_incr_def)

lemma reserve_script_spares:
  assumes "lua_laws L" "redis_inv ttl s" "counter_name c" "\<not> counter_name ik" "\<not> row_key ik" "K \<subseteq> Collect row_key"
    and "redis_reservation_prefix @ lua_concat L (rd_sequence s + 1) \<notin> K" "lua_argument L (rd_sequence s + 1) \<notin> M"
  shows "spares K M s (snd (reserve_script L c ik a limit e idempotency retention s))"
proof -
  have K: "c \<notin> K" "ik \<notin> K" using assms(3,5,6) row_key_not_counter by blast+
  show ?thesis
    using assms(1-5)
  proof (cases rule: reserve_existing_cases [where idempotency = idempotency])
    case (failed m)
    then show ?thesis by (simp add: reserve_script_def)
  next
    case (found i x)
    then show ?thesis by (simp add: reserve_script_def)
  next
    case (none s')
    have s': "spares K M s s'" "rd_sequence s' = rd_sequence s" using none(5) K(2) by auto
    have "spares K M s' (snd (reserve_admit L c ik a e idempotency retention committed reserved s'))"
      for a e retention committed reserved
      using reserve_admit_spares [OF K] assms(7,8) s'(2) by simp
    then have admit: "spares K M s (snd (reserve_admit L c ik a e idempotency retention committed reserved s'))"
      for a e retention committed reserved using spares_trans [OF s'(1)] by blast
    show ?thesis
      using s'(1)
      by (simp add: reserve_script_def none(1) needed_def admit split: option.split)
  qed
qed

text \<open>When a round trip's script leaves the keys of \<open>K\<close> and the members of \<open>M\<close> alone.\<close>

fun round_clear :: "('tz, 'more) chrono_scheme \<Rightarrow> lua \<Rightarrow> string set \<Rightarrow> string set \<Rightarrow> round_trip \<Rightarrow> redis \<Rightarrow> bool" where
  "round_clear lib L K M (CleanupRound now) s \<longleftrightarrow>
     (\<forall>t. lua_tonumber L (int_text (ch_timestamp lib now)) = Some t \<longrightarrow>
        (\<forall>i\<in>set (cmd_zrangebyscore t s). i \<notin> M \<and> redis_reservation_prefix @ i \<notin> K))"
| "round_clear lib L K M (ReserveRound r e g) s \<longleftrightarrow>
     redis_reservation_prefix @ lua_concat L (rd_sequence s + 1) \<notin> K \<and> lua_argument L (rd_sequence s + 1) \<notin> M"
| "round_clear lib L K M (FinishRound status rid now) s \<longleftrightarrow>
     redis_reservation_key (uint (as_u64 rid)) \<notin> K \<and> int_text (uint (as_u64 rid)) \<notin> M"
| "round_clear lib L K M _ s \<longleftrightarrow> True"

lemma round_script_spares:
  assumes "redis_wf lib L ttl srv" "redis_inv (ttl div nanos_per_second) s" "round_fits lib ttl d"
    and "K \<subseteq> Collect row_key" "round_clear lib L K M d s"
  shows "spares K M s (round_script lib L d s)"
proof -
  note laws = redis_wfD(1,2) [OF assms(1)]
  show ?thesis
  proof (cases d)
    case (CleanupRound now)
    show ?thesis
    proof (cases "lua_tonumber L (int_text (ch_timestamp lib now))")
      case (Some t)
      obtain s' where s': "cleanup_all L (cmd_zrangebyscore t s) s = (Inr (), s')"
        using cleanup_all_lowers [OF laws(2) assms(2)] by blast
      have "spares K M s s'"
        using cleanup_all_spares [OF laws(2) assms(2,4), of "cmd_zrangebyscore t s" M] assms(5) CleanupRound Some
        by (simp add: s')
      with CleanupRound Some s' show ?thesis by (simp add: cleanup_script_def Let_def)
    qed (simp add: CleanupRound cleanup_script_def)
  next
    case (ReserveRound r e g)
    then show ?thesis
      using reserve_script_spares [OF laws(2) assms(2) counter_name_counter_key [of lib "rr_key r" "rr_window r"]
          idempotency_key_other [of lib "rr_key r" "rr_window r"] assms(4)] assms(5)
      by (simp add: reserve_call_def)
  next
    case (FinishRound status rid now)
    with finish_script_spares [OF laws(2) assms(2) row_key_reservation _ assms(4)] assms(3,5) show ?thesis by simp
  next
    case (UsageRound k w)
    with usage_script_exact [OF laws(2) assms(2)] show ?thesis by simp
  qed simp
qed

definition later :: "redis \<Rightarrow> redis \<Rightarrow> bool" where
  "later s s' \<longleftrightarrow> rd_clock s \<le> rd_clock s' \<and> rd_sequence s \<le> rd_sequence s'"

lemma advance_rest [simp]: "rd_sequence (advance n s) = rd_sequence s" "rd_expirations (advance n s) = rd_expirations s"
  by (simp_all add: advance_def Let_def)

lemma redis_round_later:
  assumes "redis_wf lib L ttl srv" "round_fits lib ttl d"
  obtains n where "later (sv_redis srv) (advance n (sv_redis srv))"
    "later (advance n (sv_redis srv)) (sv_redis (redis_round lib L d srv))"
    "sv_redis (redis_round lib L d srv) = advance n (sv_redis srv)
     \<or> sv_redis (redis_round lib L d srv) = round_script lib L d (advance n (sv_redis srv))"
proof -
  obtain n where n: "sv_redis (redis_round lib L d srv) = advance n (sv_redis srv)
    \<or> sv_redis (redis_round lib L d srv) = round_script lib L d (advance n (sv_redis srv))"
    by (rule redis_round_effect [OF assms(1)])
  have "spares {} {} (advance n (sv_redis srv)) (round_script lib L d (advance n (sv_redis srv)))"
    by (rule round_script_spares [OF assms(1) redis_inv_advance [OF redis_wfD(3) [OF assms(1)]] assms(2)])
      (cases d; simp)+
  with n show ?thesis by (intro that [of n]) (auto simp: later_def spares_def advance_simps)
qed

lemma redis_rounds_later:
  assumes "redis_wf lib L ttl srv" "list_all (round_fits lib ttl) ds"
  shows "later (sv_redis srv) (sv_redis (fold (redis_round lib L) ds srv))"
  using assms
proof (induction ds arbitrary: srv)
  case (Cons d ds)
  have fits: "round_fits lib ttl d" using Cons.prems(2) by simp
  have "later (sv_redis srv) (sv_redis (redis_round lib L d srv))"
    by (rule redis_round_later [OF Cons.prems(1) fits]) (auto simp: later_def)
  moreover have "later (sv_redis (redis_round lib L d srv)) (sv_redis (fold (redis_round lib L) (d # ds) srv))"
    using Cons.IH [OF redis_round_within(1) [OF Cons.prems(1) fits]] Cons.prems(2) by simp
  ultimately show ?case by (simp add: later_def)
qed (simp add: later_def)

lemma redis_reserve_later:
  assumes "redis_wf lib L ttl srv" "redis_fit ttl r" "redis_reserve_if_allowed lib L r srv = (z, srv')"
  shows "later (sv_redis srv) (sv_redis srv')"
  using redis_reserve_trips [OF assms(2), of lib L srv] redis_rounds_later [OF assms(1)]
  by (auto simp: trips_def assms(3))

lemma redis_reserve_ttl:
  assumes "redis_fit ttl r" "redis_reserve_if_allowed lib L r srv = (Ok x, srv')"
  shows "nanos_per_second \<le> ttl"
proof -
  have "reserve_request_validate r = Ok ()"
    using assms(2) unfolding redis_reserve_if_allowed_def
    by (rule served_then_Ok) (simp del: reserve_request_validate_Ok)
  then show ?thesis using assms(1) by (simp add: redis_fit_def zdvd_imp_le)
qed

section \<open>Reservations between the round trips of others\<close>

text \<open>The round trips of other clients before the expiry of a reservation by their clocks.\<close>

fun round_leaves :: "reservation_id \<Rightarrow> datetime \<Rightarrow> round_trip \<Rightarrow> bool" where
  "round_leaves rid expiry (CleanupRound now) \<longleftrightarrow> - max_instant \<le> now \<and> now < expiry"
| "round_leaves rid expiry (FinishRound status rid' now) \<longleftrightarrow> rid' \<noteq> rid"
| "round_leaves rid expiry _ \<longleftrightarrow> True"

lemma fresh_row_spared: "fresh_row k i c e s \<Longrightarrow> spares {k} {i} s s' \<Longrightarrow> fresh_row k i c e s'"
  by (simp add: fresh_row_def spares_def cmd_hget_def)

lemma fresh_row_advance:
  assumes "redis_inv T s" "fresh_row k i c e s" "rd_clock s + int n < key_end c + T"
  shows "fresh_row k i c e (advance n s)"
proof -
  have row: "row_key k" "cmd_hget k ''status'' s = Some ''active''" "cmd_hget k ''counter_key'' s = Some c"
    using assms(2) by (simp_all add: fresh_row_def)
  have "hm_get (rd_deadlines s) k = Some (key_end c + T)"
    by (rule active_rowD [OF assms(1) row(1,2)]) (use row(3) in simp)
  then have "\<not> past n s k" using assms(3) by (simp add: past_def)
  with assms(2) show ?thesis by (simp add: fresh_row_def hget_advance)
qed

lemma fresh_row_round:
  fixes n e :: int and c :: string
  assumes "redis_wf lib L ttl srv" "round_fits lib ttl d"
    and "round_leaves (ReservationId (word_of_int n)) (e * nanos_per_second) d"
    and "fresh_row (redis_reservation_key n) (int_text n) c e (sv_redis srv)"
    and "0 \<le> n" "n \<le> rd_sequence (sv_redis srv)" "- exact_max \<le> e \<and> e \<le> exact_max"
    and "rd_clock (sv_redis (redis_round lib L d srv)) < key_end c + ttl div nanos_per_second"
    and "rd_sequence (sv_redis (redis_round lib L d srv)) < 99999999999999"
  shows "fresh_row (redis_reservation_key n) (int_text n) c e (sv_redis (redis_round lib L d srv))"
proof -
  let ?K = "{redis_reservation_key n}" and ?M = "{int_text n}"
  note laws = redis_wfD [OF assms(1)]
  obtain m where m: "later (sv_redis srv) (advance m (sv_redis srv))"
    "later (advance m (sv_redis srv)) (sv_redis (redis_round lib L d srv))"
    "sv_redis (redis_round lib L d srv) = advance m (sv_redis srv)
     \<or> sv_redis (redis_round lib L d srv) = round_script lib L d (advance m (sv_redis srv))"
    by (rule redis_round_later [OF assms(1,2)])
  let ?s = "advance m (sv_redis srv)"
  have inv: "redis_inv (ttl div nanos_per_second) ?s" by (rule redis_inv_advance [OF laws(3)])
  have row: "fresh_row (redis_reservation_key n) (int_text n) c e ?s"
    using m(2) assms(8) by (intro fresh_row_advance [OF laws(3) assms(4)]) (simp add: later_def advance_simps)
  have small: "rd_sequence ?s < 99999999999999" "n \<le> rd_sequence ?s"
    using m(2) assms(6,9) by (simp_all add: later_def)
  have "round_clear lib L ?K ?M d ?s"
  proof (cases d)
    case (CleanupRound now)
    have "ch_timestamp lib now < e"
      using assms(3) CleanupRound by (simp add: chrono_timestamp [OF laws(1)] nanos_per_second_def) linarith
    moreover have "- exact_max \<le> ch_timestamp lib now"
    proof -
      have "(- max_instant) div nanos_per_second \<le> now div nanos_per_second"
        using assms(3) CleanupRound by (intro zdiv_mono1) (simp_all add: nanos_per_second_def)
      then show ?thesis
        by (simp add: chrono_timestamp [OF laws(1)] max_instant_def exact_max_def nanos_per_second_def)
    qed
    ultimately have now: "lua_tonumber L (int_text (ch_timestamp lib now)) = Some (ch_timestamp lib now)"
      "ch_timestamp lib now < e"
      using assms(7) lua_lawsD(1) [OF laws(2)] by simp_all
    then show ?thesis
      using row CleanupRound by (auto simp: cmd_zrangebyscore_def fresh_row_def redis_reservation_key_def)
  next
    case (ReserveRound r e' g)
    then show ?thesis
      using laws(2) small assms(5) by (simp add: lua_laws_def redis_reservation_key_def)
  next
    case (FinishRound status rid now)
    have "uint (as_u64 rid) \<noteq> n"
      using assms(3) FinishRound by (cases rid) auto
    then show ?thesis using FinishRound by (simp add: redis_reservation_key_def)
  qed simp_all
  then have "spares ?K ?M ?s (round_script lib L d ?s)"
    by (intro round_script_spares [OF assms(1) inv assms(2)]) simp_all
  with m(3) row show ?thesis by (auto intro: fresh_row_spared)
qed

lemma fresh_row_rounds:
  fixes n e :: int and c :: string
  assumes "redis_wf lib L ttl srv" "list_all (round_fits lib ttl) ds"
    and "list_all (round_leaves (ReservationId (word_of_int n)) (e * nanos_per_second)) ds"
    and "fresh_row (redis_reservation_key n) (int_text n) c e (sv_redis srv)"
    and "0 \<le> n" "n \<le> rd_sequence (sv_redis srv)" "- exact_max \<le> e \<and> e \<le> exact_max"
    and "rd_clock (sv_redis (fold (redis_round lib L) ds srv)) < key_end c + ttl div nanos_per_second"
    and "rd_sequence (sv_redis (fold (redis_round lib L) ds srv)) < 99999999999999"
  shows "fresh_row (redis_reservation_key n) (int_text n) c e (sv_redis (fold (redis_round lib L) ds srv))"
  using assms
proof (induction ds arbitrary: srv)
  case (Cons d ds)
  let ?srv = "redis_round lib L d srv"
  have fits: "round_fits lib ttl d" "list_all (round_fits lib ttl) ds" using Cons.prems(2) by simp_all
  note wf = redis_round_within(1) [OF Cons.prems(1) fits(1)]
  have "later (sv_redis ?srv) (sv_redis (fold (redis_round lib L) ds ?srv))" by (rule redis_rounds_later [OF wf fits(2)])
  moreover have "later (sv_redis srv) (sv_redis ?srv)"
    using redis_rounds_later [OF Cons.prems(1), of "[d]"] fits(1) by simp
  ultimately have bounds: "rd_clock (sv_redis ?srv) < key_end c + ttl div nanos_per_second"
    "rd_sequence (sv_redis ?srv) < 99999999999999" "n \<le> rd_sequence (sv_redis ?srv)"
    using Cons.prems(6,8,9) by (simp_all add: later_def)
  have "fresh_row (redis_reservation_key n) (int_text n) c e (sv_redis ?srv)"
    by (rule fresh_row_round [OF Cons.prems(1) fits(1) _ Cons.prems(4-7) bounds(1,2)]) (use Cons.prems(3) in simp)
  with Cons.IH [OF wf fits(2)] Cons.prems bounds(3) show ?case by simp
qed simp

end
