(* ===== verification/Redis_Properties.thy ===== *)
theory Redis_Properties
  imports Fixtures Redis_Rounds
begin

text \<open>
  What the Redis store promises, the range of limits it promises it for, and where it departs from the
  other stores.
\<close>

section \<open>Fixtures\<close>

text \<open>
  The numbers of the scripts' language: doubles that hold integers. \<open>shift_of n\<close> is the number of bits a
  double drops from \<open>n\<close>; \<open>general_text p\<close> prints with \<open>p\<close> significant digits, like the format
  \<open>%.<p>g\<close>.
\<close>

function shift_of :: "int \<Rightarrow> nat" where
  "shift_of n = (if n \<le> 9007199254740992 then 0 else Suc (shift_of (n div 2)))"
  by pat_completeness auto
termination
  by (relation "measure nat") (auto simp: nat_less_eq_zless)

declare shift_of.simps [simp del]

text \<open>To the nearest multiple of \<open>m\<close>, to an even one from the middle.\<close>

definition round_even :: "int \<Rightarrow> int \<Rightarrow> int" where
  "round_even m n =
     (let q = n div m; r = n mod m
      in (if m < 2 * r \<or> m = 2 * r \<and> odd q then q + 1 else q) * m)"

definition round_double :: "int \<Rightarrow> int" where
  "round_double n = sgn n * round_even (2 ^ shift_of \<bar>n\<bar>) \<bar>n\<bar>"

definition strip_zeros :: "string \<Rightarrow> string" where
  "strip_zeros ds = rev (dropWhile (\<lambda>c. c = CHR ''0'') (rev ds))"

definition general_text :: "nat \<Rightarrow> int \<Rightarrow> string" where
  "general_text p n =
     (if \<bar>n\<bar> < 10 ^ p then int_text n
      else
        let m = round_even (10 ^ (length (int_digits \<bar>n\<bar>) - p)) \<bar>n\<bar>;
            ds = int_digits m;
            rest = strip_zeros (take (p - 1) (tl ds))
        in (if n < 0 then ''-'' else []) @ take 1 ds @ (if rest = [] then [] else CHR ''.'' # rest) @ ''e+'' @
           int_digits (int (length ds) - 1))"

definition demo_lua :: lua where
  "demo_lua =
     \<lparr>lua_tonumber = (\<lambda>v. if v \<noteq> [] \<and> int_text (signed_value v) = v then Some (round_double (signed_value v)) else None),
      lua_round = round_double, lua_concat = general_text 14, lua_argument = general_text 17, lua_reply = (\<lambda>n. n),
      lua_error = (\<lambda>cause. ''ERR user script: '' @ cause)\<rparr>"

lemma round_double_exact: "\<bar>n\<bar> \<le> 9007199254740992 \<Longrightarrow> round_double n = n"
  by (simp add: round_double_def shift_of.simps round_even_def sgn_if)

lemma shift_of_below:
  "9007199254740992 < n \<Longrightarrow> 0 < shift_of n \<and> 4503599627370496 * 2 ^ shift_of n \<le> n"
proof (induction n rule: shift_of.induct)
  case (1 n)
  show ?case
  proof (cases "9007199254740992 < n div 2")
    case True
    have "2 * (n div 2) \<le> n" by simp
    with True 1 show ?thesis by (simp add: shift_of.simps [of n])
  next
    case False
    with 1(2) show ?thesis by (simp add: shift_of.simps [of n] shift_of.simps [of "n div 2"])
  qed
qed

lemma round_double_large:
  assumes "9007199254740992 < n"
  shows "9007199254740992 \<le> round_double n"
proof -
  let ?m = "2 ^ shift_of n :: int"
  obtain k where k: "shift_of n = Suc k" using shift_of_below [OF assms] by (cases "shift_of n") simp_all
  have "4503599627370496 * ?m div ?m \<le> n div ?m"
    using shift_of_below [OF assms] by (intro zdiv_mono1) simp_all
  then have q: "4503599627370496 \<le> n div ?m" by simp
  have "9007199254740992 \<le> 4503599627370496 * ?m" by (simp add: k)
  also have "\<dots> \<le> n div ?m * ?m" using q by simp
  also have "\<dots> \<le> round_even ?m n" by (simp add: round_even_def Let_def)
  finally show ?thesis using assms by (simp add: round_double_def)
qed

lemma demo_lua_laws: "lua_laws demo_lua"
proof -
  have nonempty: "int_text n \<noteq> []" for n using int_text_last_digit by blast
  show ?thesis
    unfolding lua_laws_def
    by (simp add: demo_lua_def nonempty signed_value_int_text round_double_exact round_double_large general_text_def)
qed

definition demo_redis_warden :: "server budget_warden" where
  "demo_redis_warden =
     \<lparr>wd_store = redis_ops utc_chrono demo_lua, wd_policies = [demo_policy HardLimitOnly], wd_clock = system_clock,
      wd_reservation_ttl = default_reservation_ttl\<rparr>"

definition demo_redis_builder :: "server warden_builder" where
  "demo_redis_builder =
     \<lparr>wbd_store = Some (redis_ops utc_chrono demo_lua), wbd_policies = [demo_policy HardLimitOnly], wbd_clock = None,
      wbd_reservation_ttl = None\<rparr>"

lemma demo_redis_warden_built: "warden_build demo_redis_builder = Ok demo_redis_warden"
  by (simp add: warden_build_def demo_redis_builder_def demo_redis_warden_def registry_new_def unwrap_or_def
      default_reservation_ttl_def duration_defs)

text \<open>A server at the hour of the requests, before and after a reservation of three units.\<close>

definition demo_server :: "server_event list \<Rightarrow> server" where
  "demo_server events = empty_server (demo_now div nanos_per_second) events"

definition demo_redis_request :: "duration \<Rightarrow> u64 \<Rightarrow> u64 \<Rightarrow> idempotency_key option \<Rightarrow> reserve_request" where
  "demo_redis_request ttl amount limit i =
     (demo_reserve amount limit i)\<lparr>rr_hard_limit := limit, rr_reservation_ttl := ttl\<rparr>"

section \<open>Safety\<close>

text \<open>C6: no interleaving of operations on one warden over the Redis store takes a counter of a policy
  above its hard limit, whatever calls to the server fail or lose their reply and whenever keys expire,
  as long as limits are below \<open>2 ^ 53\<close>, the time to live is whole seconds, and no policy name holds a
  colon.\<close>

theorem redis_hard_limit:
  assumes "warden_build b = Ok wd" "wbd_store b = Some (redis_ops lib L)" "chrono_laws lib" "lua_laws L"
    and "list_all (\<lambda>p. colon_free (bp_name p) \<and> uint (bp_hard_limit p) < 9007199254740992) (wbd_policies b)"
    and "nanos_per_second dvd wd_reservation_ttl wd"
    and "(broker_step lib wd)\<^sup>*\<^sup>* (run_start (empty_server clock events)) st"
    and "p \<in> set (wbd_policies b)"
  shows "redis_level (run_store st) (redis_counter_key lib (policy_store_key p k) w) \<le> unat (bp_hard_limit p)"
proof -
  have wd: "wd_store wd = redis_ops lib L" "warden_wf wd" "wd_policies wd = wbd_policies b"
    "list_all (\<lambda>p. colon_free (bp_name p)) (wd_policies wd)"
    "list_all (\<lambda>p. uint (bp_hard_limit p) < exact_max) (wd_policies wd)"
    using assms(1,2,5) by (auto elim!: warden_build_OkE simp: list_all_iff exact_max_def)
  have "run_ok (redis_ops lib L) (redis_wf lib L (wd_reservation_ttl wd)) (redis_counter_key lib) redis_level
      (redis_fit (wd_reservation_ttl wd)) wd st"
    by (rule redis_runs.run_inv [OF assms(7) redis_run_start_ok [OF wd(1,2,4) assms(3,4,6) wd(5)]])
  with assms(8) wd(3) show ?thesis by (simp add: run_ok_def within_limits_def)
qed

theorem redis_hard_limit_witness:
  "case race demo_redis_warden (demo_server (replicate 8 (Served 1) @ [Unanswered 2 ''timeout''])) 6 4 of
     None \<Rightarrow> False
   | Some st \<Rightarrow> redis_level (run_store st) (redis_counter_key utc_chrono (policy_store_key (demo_policy HardLimitOnly) demo_key) demo_window) \<le> 10
       \<and> list_all (\<lambda>v. rs_amount v = 4) (run_handles st)"
proof -
  let ?es = "replicate 8 (Served 1) @ [Unanswered 2 ''timeout'']"
  have "case race demo_redis_warden (demo_server ?es) 6 4 of Some st \<Rightarrow> list_all (\<lambda>v. rs_amount v = 4) (run_handles st) | None \<Rightarrow> False"
    by code_simp
  then obtain st where st: "race demo_redis_warden (demo_server ?es) 6 4 = Some st"
    and "list_all (\<lambda>v. rs_amount v = 4) (run_handles st)" by (auto split: option.splits)
  moreover have "list_all (\<lambda>p. colon_free (bp_name p) \<and> uint (bp_hard_limit p) < 9007199254740992) (wbd_policies demo_redis_builder)"
    "nanos_per_second dvd wd_reservation_ttl demo_redis_warden"
    by (simp_all add: demo_redis_builder_def demo_policy_def demo_redis_warden_def default_reservation_ttl_def duration_defs)
  from redis_hard_limit [OF demo_redis_warden_built _ utc_chrono_laws demo_lua_laws this race_runs [OF st, unfolded demo_server_def]]
  have "redis_level (run_store st) (redis_counter_key utc_chrono (policy_store_key (demo_policy HardLimitOnly) demo_key) demo_window) \<le> 10"
    by (simp add: demo_redis_builder_def policy_store_key_def demo_policy_def)
  ultimately show ?thesis by simp
qed

text \<open>C21: between the two scripts of one operation the scripts of any number of clients may run. Over
  every list of single round trips to the server, whatever fails and whenever keys expire, a counter
  stays within the limit of the reservations sent for it, as long as limits are below \<open>2 ^ 53\<close> and all
  reservations have one time to live of whole seconds. Every operation of the store is such a list
  (\<open>redis_call_is_trips\<close>).\<close>

theorem redis_rounds_safe:
  assumes "chrono_laws lib" "lua_laws L" "list_all (round_fits lib ttl) ds" "list_all (round_within lib limit) ds"
  shows "redis_level (fold (redis_round lib L) ds (empty_server clock events)) c \<le> limit c"
proof (rule redis_rounds_within(2) [OF _ assms(3,4)])
  show "redis_wf lib L ttl (empty_server clock events)"
    using assms(1,2) by (simp add: redis_wf_def empty_server_def redis_inv_empty)
qed simp

text \<open>Two clients whose round trips interleave: both have cleaned up before either reserves. A third
  reservation is denied, and a reply is lost.\<close>

definition demo_trip :: "u64 \<Rightarrow> round_trip" where
  "demo_trip amount =
     ReserveRound (demo_redis_request (duration_minutes 5) amount 10 None) (demo_now + duration_minutes 5)
       (wb_end demo_window + duration_minutes 5)"

definition demo_trips :: "round_trip list" where
  "demo_trips = [CleanupRound demo_now, CleanupRound demo_now, demo_trip 6, demo_trip 4, demo_trip 1]"

abbreviation "demo_counter \<equiv> redis_counter_key utc_chrono demo_store_key demo_window"

lemma demo_trip_fits: "amount \<noteq> 0 \<Longrightarrow> round_fits utc_chrono (duration_minutes 5) (demo_trip amount)"
proof -
  have "ch_add utc_chrono demo_now (duration_minutes 5) = Some (demo_now + duration_minutes 5)"
    "ch_add utc_chrono (wb_end demo_window) (duration_minutes 5) = Some (wb_end demo_window + duration_minutes 5)"
    by code_simp+
  then show "amount \<noteq> 0 \<Longrightarrow> round_fits utc_chrono (duration_minutes 5) (demo_trip amount)"
    by (simp add: demo_trip_def sendable_def demo_redis_request_def demo_reserve_def)
      (simp add: redis_fit_def exact_max_def duration_defs)
qed

theorem redis_rounds_safe_witness:
  "redis_level (fold (redis_round utc_chrono demo_lua) demo_trips (demo_server [Served 1, Served 1, Unanswered 1 ''timeout''])) demo_counter \<le> 10
   \<and> cmd_hget demo_counter ''reserved''
       (sv_redis (fold (redis_round utc_chrono demo_lua) demo_trips (demo_server [Served 1, Served 1, Unanswered 1 ''timeout'']))) = Some ''10''"
proof
  have "list_all (round_fits utc_chrono (duration_minutes 5)) demo_trips"
    by (simp add: demo_trips_def demo_trip_fits)
  moreover have "list_all (round_within utc_chrono (\<lambda>_. 10)) demo_trips"
    by (simp add: demo_trips_def demo_trip_def demo_redis_request_def demo_reserve_def)
  ultimately show "redis_level (fold (redis_round utc_chrono demo_lua) demo_trips
      (demo_server [Served 1, Served 1, Unanswered 1 ''timeout''])) demo_counter \<le> 10"
    unfolding demo_server_def by (rule redis_rounds_safe [OF utc_chrono_laws demo_lua_laws])
qed code_simp

text \<open>Beyond that range the limit does not hold: with a limit of \<open>2 ^ 53\<close> units all reserved, a
  reservation of one more unit is allowed, because the script compares rounded numbers while the counter
  is incremented exactly.\<close>

lemma redis_limit_overshoot:
  "case redis_reserve_if_allowed utc_chrono demo_lua
          (demo_redis_request (duration_minutes 5) 9007199254740992 9007199254740992 None) (demo_server []) of
     (Ok x1, srv1) \<Rightarrow>
       (case redis_reserve_if_allowed utc_chrono demo_lua
               (demo_redis_request (duration_minutes 5) 1 9007199254740992 None) srv1 of
          (Ok x2, srv2) \<Rightarrow> srr_allowed x1 \<and> srr_allowed x2
            \<and> cmd_hget demo_counter ''reserved'' (sv_redis srv2) = Some ''9007199254740993''
        | _ \<Rightarrow> False)
   | _ \<Rightarrow> False"
  by code_simp

text \<open>C14: whatever clients call, with limits below \<open>2 ^ 53\<close> and one time to live of whole seconds, and
  whatever fails, the key space stays well formed: a counter holds at least the units of its active reservations and fewer than \<open>2 ^ 53\<close>, its key expires exactly one time to
  live after its window, no earlier than the key of any active reservation, and every reservation names
  its counter, a positive amount and one of the four statuses.\<close>

theorem redis_keys_well_formed:
  assumes "chrono_laws lib" "lua_laws L" "list_all (call_fits (redis_fit ttl)) cs"
  shows "redis_inv (ttl div nanos_per_second)
    (sv_redis (fold (store_after (redis_ops lib L)) cs (empty_server clock events)))"
proof -
  have "redis_wf lib L ttl srv \<Longrightarrow> redis_wf lib L ttl (fold (store_after (redis_ops lib L)) cs srv)" for srv
    using assms(3) by (induction cs arbitrary: srv) (simp_all add: redis.after_wf)
  moreover have "redis_wf lib L ttl (empty_server clock events)"
    using assms(1,2) by (simp add: redis_wf_def empty_server_def redis_inv_empty)
  ultimately show ?thesis using redis_wfD(3) by blast
qed

definition demo_redis_calls :: "store_call list" where
  "demo_redis_calls =
     [ReserveCall (demo_redis_request (duration_minutes 5) 3 10 None), CommitCall demo_now (ReservationId 1)]"

theorem redis_keys_well_formed_witness:
  "redis_inv 300 (sv_redis (fold (store_after (redis_ops utc_chrono demo_lua)) demo_redis_calls (demo_server [])))
   \<and> cmd_hget (redis_counter_key utc_chrono demo_store_key demo_window) ''committed''
       (sv_redis (fold (store_after (redis_ops utc_chrono demo_lua)) demo_redis_calls (demo_server []))) = Some ''3''"
proof
  have "list_all (call_fits (redis_fit (duration_minutes 5))) demo_redis_calls"
    by (simp add: demo_redis_calls_def demo_redis_request_def demo_reserve_def redis_fit_def exact_max_def duration_defs)
  from redis_keys_well_formed [OF utc_chrono_laws demo_lua_laws this, of "demo_now div nanos_per_second" "[]"]
  show "redis_inv 300 (sv_redis (fold (store_after (redis_ops utc_chrono demo_lua)) demo_redis_calls (demo_server [])))"
    by (simp add: duration_defs demo_server_def)
qed code_simp

section \<open>Liveness\<close>

text \<open>C27: a reservation without an idempotency key, made on a server that answers and before its window
  ends, stands whatever happens next: any round trips of other clients, lost or failed calls and time
  passing. As long as the window has not ended by the server's clock, nobody else settles that
  reservation, no client cleans up at an instant from its expiry on and fewer than \<open>10 ^ 14\<close> ids were
  given out, a commit that the server answers succeeds exactly at the instants before the expiry the
  reservation was returned with, and fails as expired from then on; that expiry is the instant asked
  for, cut to whole seconds. Limits are below \<open>2 ^ 53\<close> and the one time to live is whole seconds.\<close>

theorem redis_commit_in_time:
  assumes "redis_up lib L ttl srv" "redis_fit ttl r" "rr_idempotency_key r = None"
    and "redis_reserve_if_allowed lib L r srv = (Ok x, srv1)" "srr_reservation x = Some v"
    and "0 \<le> rd_sequence (sv_redis srv)" "list_all (round_fits lib ttl) ds"
    and "list_all (round_leaves (sr_id v) (sr_expires_at v)) ds"
    and "srv2 = fold (redis_round lib L) ds (srv1\<lparr>sv_events := events\<rparr>)"
    and "rd_sequence (sv_redis srv2) < 99999999999999"
    and "rd_clock (sv_redis srv2) * nanos_per_second < wb_end (rr_window r)"
    and "- max_instant \<le> t" "t \<le> max_instant"
  shows "fst (redis_commit lib L t (sr_id v) (srv2\<lparr>sv_events := []\<rparr>)) =
      (if t < sr_expires_at v then Ok () else Err StReservationExpired)
    \<and> sr_expires_at v = (rr_now r + ttl) div nanos_per_second * nanos_per_second"
proof -
  let ?c = "redis_counter_key lib (rr_key r) (rr_window r)" and ?srv = "srv1\<lparr>sv_events := events\<rparr>"
  define n where "n = rd_sequence (sv_redis srv) + 1"
  note laws = redis_wfD(1,2) [OF redis_upD(1) [OF assms(1)]]
  have up: "redis_up lib L ttl srv1" using redis_up_keeps(2) [OF assms(1,2)] assms(4) by (metis snd_conv)
  then have wf: "redis_wf lib L ttl ?srv" by (simp add: redis_up_def redis_wf_def)
  note rounds = redis_rounds_within(1) [OF wf assms(7), folded assms(9)]
    redis_rounds_later [OF wf assms(7), folded assms(9)]
  note before = redis_reserve_later [OF redis_upD(1) [OF assms(1)] assms(2,4)]
  have start: "rd_sequence (sv_redis srv) < 99999999999999"
    "rd_clock (sv_redis srv) * nanos_per_second < wb_end (rr_window r)"
    using rounds(2) before assms(10,11) by (simp_all add: later_def nanos_per_second_def)
  obtain e where e: "ch_add lib (rr_now r) ttl = Some e" "sr_expires_at v = ch_timestamp lib e * nanos_per_second"
    and id: "sr_id v = ReservationId (word_of_int n)"
    and row: "fresh_row (redis_reservation_key n) (int_text n) ?c (ch_timestamp lib e) (sv_redis srv1)"
    and seq: "rd_sequence (sv_redis srv1) = n"
    by (rule redis_reserve_fresh [OF assms(1-6) start, folded n_def]) (rule that)
  have "0 \<le> n" "n \<le> i64_max" using assms(6) start(1) by (simp_all add: n_def i64_max_def)
  then have n: "uint (word_of_int n :: u64) = n" "n \<le> i64_max" "0 \<le> n" by (simp_all add: uint_word_of_i64)
  have open_window: "rd_clock (sv_redis srv2) < key_end ?c + ttl div nanos_per_second"
    using assms(11) redis_reserve_ttl [OF assms(2,4)] zdiv_mono1 [of nanos_per_second ttl nanos_per_second]
      zdiv_mono1 [of "rd_clock (sv_redis srv2) * nanos_per_second" "wb_end (rr_window r)" nanos_per_second]
    by (simp add: codec_window_end_def chrono_timestamp [OF laws(1)] nanos_per_second_def)
  have kept: "fresh_row (redis_reservation_key n) (int_text n) ?c (ch_timestamp lib e) (sv_redis srv2)"
    unfolding assms(9)
    by (rule fresh_row_rounds [OF wf assms(7) _ _ n(3) _ timestamp_exact [OF laws(1) e(1)]])
      (use assms(8,10) id e(2) row seq open_window in \<open>simp_all add: assms(9)\<close>)
  have times: "- exact_max \<le> ch_timestamp lib t \<and> ch_timestamp lib t \<le> exact_max"
    by (rule timestamp_range [OF laws(1) assms(12,13)])
  note inv = redis_wfD(3) [OF rounds(1)]
  have "fst (finish_script L (redis_reservation_key n) ''committed'' n (ch_timestamp lib t) (sv_redis srv2))
      = Inr (if ch_timestamp lib e \<le> ch_timestamp lib t then - 1 else 1)"
    by (rule finish_script_fresh [OF laws(2) inv kept _ timestamp_exact [OF laws(1) e(1)] times]) simp
  then obtain s where "finish_script L (redis_reservation_key n) ''committed'' n (ch_timestamp lib t) (sv_redis srv2)
      = (Inr (if ch_timestamp lib e \<le> ch_timestamp lib t then - 1 else 1), s)"
    by (cases "finish_script L (redis_reservation_key n) ''committed'' n (ch_timestamp lib t) (sv_redis srv2)") auto
  moreover have "ch_timestamp lib e \<le> ch_timestamp lib t \<longleftrightarrow> \<not> t < sr_expires_at v"
    by (simp add: e(2) chrono_timestamp [OF laws(1)] nanos_per_second_def) linarith
  ultimately show ?thesis
    using n(1,2) chrono_add [OF laws(1) e(1)] e(2) inv
    by (simp add: redis_commit_def redis_finish_calm id Let_def chrono_timestamp [OF laws(1)])
qed

definition demo_reserved_server :: server where
  "demo_reserved_server =
     store_after (redis_ops utc_chrono demo_lua) (ReserveCall (demo_redis_request (duration_minutes 5) 3 10 None)) (demo_server [])"

text \<open>Another client reserves and refunds in between, a cleanup's reply is lost, and minutes pass.\<close>

definition demo_others :: "round_trip list" where
  "demo_others =
     [Connect, CleanupRound (demo_now + duration_minutes 1), demo_trip 4,
      FinishRound ''refunded'' (ReservationId 2) (demo_now + duration_minutes 2), UsageRound demo_store_key demo_window]"

definition demo_later_server :: server where
  "demo_later_server =
     fold (redis_round utc_chrono demo_lua) demo_others
       (demo_reserved_server\<lparr>sv_events := [Served 30, Unanswered 30 ''timeout'', Served 60, Served 60]\<rparr>)"

theorem redis_commit_in_time_witness:
  "fst (redis_commit utc_chrono demo_lua (demo_now + duration_minutes 5 - 1) (ReservationId 1)
     (demo_later_server\<lparr>sv_events := []\<rparr>)) = Ok ()
   \<and> fst (redis_commit utc_chrono demo_lua (demo_now + duration_minutes 5) (ReservationId 1)
     (demo_later_server\<lparr>sv_events := []\<rparr>)) = Err StReservationExpired"
proof -
  let ?r = "demo_redis_request (duration_minutes 5) 3 10 None"
    and ?v = "store_reservation_new (ReservationId 1) (demo_now + duration_minutes 5)"
  have "case redis_reserve_if_allowed utc_chrono demo_lua ?r (demo_server []) of
      (Ok x, _) \<Rightarrow> srr_reservation x = Some ?v | _ \<Rightarrow> False"
    by code_simp
  then obtain x where x: "redis_reserve_if_allowed utc_chrono demo_lua ?r (demo_server []) = (Ok x, demo_reserved_server)"
    "srr_reservation x = Some ?v"
    by (auto simp: demo_reserved_server_def split: prod.splits outcome.splits)
  have up: "redis_up utc_chrono demo_lua (duration_minutes 5) (demo_server [])"
    by (simp add: redis_up_def redis_wf_def utc_chrono_laws demo_lua_laws demo_server_def empty_server_def redis_inv_empty)
  have fit: "redis_fit (duration_minutes 5) ?r"
    by (simp add: demo_redis_request_def demo_reserve_def redis_fit_def exact_max_def duration_defs)
  have others: "list_all (round_fits utc_chrono (duration_minutes 5)) demo_others"
    by (simp add: demo_others_def demo_trip_fits)
  have leaves: "list_all (round_leaves (sr_id ?v) (sr_expires_at ?v)) demo_others" by code_simp
  have nums: "rr_idempotency_key ?r = None" "0 \<le> rd_sequence (sv_redis (demo_server []))"
    "rd_sequence (sv_redis demo_later_server) < 99999999999999"
    "rd_clock (sv_redis demo_later_server) * nanos_per_second < wb_end (rr_window ?r)"
    "- max_instant \<le> demo_now + duration_minutes 5 - 1" "demo_now + duration_minutes 5 - 1 \<le> max_instant"
    "- max_instant \<le> demo_now + duration_minutes 5" "demo_now + duration_minutes 5 \<le> max_instant"
    by code_simp+
  note commit = redis_commit_in_time [OF up fit nums(1) x nums(2) others leaves demo_later_server_def nums(3,4)]
  show ?thesis
    using conjunct1 [OF commit [OF nums(5,6)]] conjunct1 [OF commit [OF nums(7,8)]]
    by (simp add: store_reservation_new_def)
qed

text \<open>Instants are cut to whole seconds, so a reservation with a time to live below a second, made at
  the start of a second, is allowed and has expired at once: committing it at the very instant it was
  made is refused, while the in-memory store accepts it.\<close>

lemma redis_subsecond_expired:
  "(case redis_reserve_if_allowed utc_chrono demo_lua (demo_redis_request (nanos_per_second div 2) 3 10 None) (demo_server []) of
      (Ok x, srv) \<Rightarrow> srr_allowed x
        \<and> fst (redis_commit utc_chrono demo_lua demo_now (ReservationId 1) srv) = Err StReservationExpired
    | _ \<Rightarrow> False)
   \<and> (case memory_reserve_if_allowed utc_chrono (demo_redis_request (nanos_per_second div 2) 3 10 None) memory_store_new of
      (Ok x, m) \<Rightarrow> srr_allowed x \<and> fst (memory_commit demo_now (ReservationId 1) m) = Ok ()
    | _ \<Rightarrow> False)"
  by (rule conjI; code_simp)

definition demo_retry_after_refund :: "'s store_ops \<Rightarrow> 's \<Rightarrow> store_reply" where
  "demo_retry_after_refund ops s =
     (let r = ReserveCall (demo_redis_request (duration_minutes 5) 3 10 (Some (IdempotencyKey ''a'')))
      in store_reply_to ops r (store_after ops (RefundCall demo_now (ReservationId 1)) (store_after ops r s)))"

text \<open>The stores disagree on the idempotency key of a refunded reservation: the Redis store reserves
  anew under it, while the in-memory store denies the request though it fits.\<close>

lemma refunded_key_differs:
  "(case demo_retry_after_refund (redis_ops utc_chrono demo_lua) (demo_server []) of
      ReserveReply (Ok x) \<Rightarrow> srr_allowed x \<and> cu_used (srr_usage x) = 3 | _ \<Rightarrow> False)
   \<and> (case demo_retry_after_refund (memory_ops utc_chrono) memory_store_new of
      ReserveReply (Ok x) \<Rightarrow> \<not> srr_allowed x \<and> cu_used (srr_usage x) = 0 | _ \<Rightarrow> False)"
  by (rule conjI; code_simp)

end
