(* ===== verification/Config.thy ===== *)
theory Config
  imports Policies Broker_Safety Memory_Store
begin

text \<open>
  \<open>config/model.rs\<close> and \<open>config/toml.rs\<close>: policies written as configuration. The TOML parser with
  serde's deserialisation and the file system are not in the repository: they are the parameters
  \<open>parse\<close> (a text to the configuration it denotes, or the text of its error) and \<open>read_file\<close>.
\<close>

section \<open>The configuration\<close>

datatype window_config = CalendarDayConfig string | CalendarMonthConfig string

datatype strategy_config =
    HardLimitOnlyConfig
  | PreserveForWindowConfig u8 u8 "u64 option"
  | ReserveCapacityConfig u64 string

record config_policy =
  cp_name :: string
  cp_provider :: string
  cp_domain :: "string option"
  cp_resource :: "string option"
  cp_subject :: "string option"
  cp_unit :: string
  cp_hard_limit :: u64
  cp_window :: window_config
  cp_exhausted_action :: string
  cp_low_budget_action :: "string option"
  cp_fail_mode :: "string option"
  cp_strategy :: strategy_config

record policy_config =
  pc_policies :: "config_policy list"

section \<open>Names\<close>

text \<open>\<open>to_ascii_lowercase\<close> and \<open>replace\<close> act on ASCII bytes only, which no other code point contains.\<close>

definition ascii_lower :: "char \<Rightarrow> char" where
  "ascii_lower c = (if 65 \<le> (of_char c :: nat) \<and> (of_char c :: nat) \<le> 90 then char_of ((of_char c :: nat) + 32) else c)"

definition normalized :: "string \<Rightarrow> string" where
  "normalized v = map (\<lambda>c. if c = CHR ''-'' then CHR ''_'' else c) (map ascii_lower (trim v))"

text \<open>\<open>trim_start_matches\<close> removes the prefix as often as it occurs.\<close>

definition trim_start_matches :: "string \<Rightarrow> string \<Rightarrow> string" where
  "trim_start_matches p v = strip_with [p] v"

definition parse_unit :: "string \<Rightarrow> (budget_unit, budget_error) outcome" where
  "parse_unit v =
     (let n = normalized v in
      if n = ''requests'' then Ok Requests
      else if n = ''tokens'' then Ok Tokens
      else if n = ''credits'' then Ok Credits
      else if n = ''cents'' then Ok Cents
      else if n = ''bytes'' then Ok Bytes
      else if n = ''messages'' then Ok Messages
      else if prefix ''custom:'' n then Ok (CustomUnit (trim_start_matches ''custom:'' n))
      else Err (ConfigError (''unknown budget unit `'' @ v @ ''`'')))"

definition parse_priority :: "string \<Rightarrow> (priority, budget_error) outcome" where
  "parse_priority v =
     (let n = normalized v in
      if n = ''background'' then Ok Background
      else if n = ''normal'' then Ok Normal
      else if n = ''important'' then Ok Important
      else if n = ''critical'' then Ok Critical
      else Err (ConfigError (''unknown priority `'' @ v @ ''`'')))"

definition parse_action :: "string \<Rightarrow> (fallback_action, budget_error) outcome" where
  "parse_action v =
     (let n = normalized v in
      if n = ''use_fresh_cache'' then Ok UseFreshCache
      else if n = ''use_stale_cache'' then Ok UseStaleCache
      else if n = ''queue_for_later'' then Ok QueueForLater
      else if n = ''use_cheaper_provider'' then Ok UseCheaperProvider
      else if n = ''downgrade_quality'' then Ok DowngradeQuality
      else if n = ''reject'' then Ok Reject
      else if n = ''return_unavailable'' then Ok ReturnUnavailable
      else if prefix ''custom:'' n then Ok (CustomAction (trim_start_matches ''custom:'' n))
      else Err (ConfigError (''unknown fallback action `'' @ v @ ''`'')))"

text \<open>The error of an unknown fail mode quotes the normalised text, unlike the others.\<close>

definition parse_fail_mode :: "string option \<Rightarrow> (fail_mode, budget_error) outcome" where
  "parse_fail_mode v =
     (case map_option normalized v of
        None \<Rightarrow> Ok Closed
      | Some n \<Rightarrow>
          if n = ''closed'' then Ok Closed
          else if n = ''open'' then Ok Open
          else Err (ConfigError (''unknown fail mode `'' @ n @ ''`'')))"

fun parse_strategy :: "strategy_config \<Rightarrow> (budget_strategy, budget_error) outcome" where
  "parse_strategy HardLimitOnlyConfig = Ok HardLimitOnly"
| "parse_strategy (PreserveForWindowConfig ahead emergency minimum) =
     Ok (PreserveForWindow (preserve_for_window_new ahead emergency minimum))"
| "parse_strategy (ReserveCapacityConfig units reserved_for) =
     and_then (parse_priority reserved_for) (\<lambda>p. Ok (ReserveCapacity (reserve_capacity_new units p)))"

section \<open>Policies\<close>

fun set_window_config :: "window_config \<Rightarrow> budget_policy_builder \<Rightarrow> budget_policy_builder" where
  "set_window_config (CalendarDayConfig timezone) b = pb_set_calendar_day timezone b"
| "set_window_config (CalendarMonthConfig timezone) b = pb_set_calendar_month timezone b"

definition policy_from_config ::
    "('tz, 'more) chrono_scheme \<Rightarrow> config_policy \<Rightarrow> (budget_policy, budget_error) outcome" where
  "policy_from_config lib c =
     (let b0 = pb_set_provider (cp_provider c) (policy_builder (cp_name c)) in
      and_then (parse_unit (cp_unit c)) (\<lambda>u.
      let b1 = pb_set_hard_limit (cp_hard_limit c) (pb_set_unit u b0) in
      and_then (parse_strategy (cp_strategy c)) (\<lambda>strategy.
      and_then (parse_action (cp_exhausted_action c)) (\<lambda>exhausted.
      and_then (parse_fail_mode (cp_fail_mode c)) (\<lambda>mode.
      let b2 = pb_set_fail_mode mode (pb_set_exhausted_action exhausted (pb_set_strategy strategy b1));
          b3 = when_set pb_set_domain (cp_domain c) b2;
          b4 = when_set pb_set_resource (cp_resource c) b3;
          b5 = when_set pb_set_subject (cp_subject c) b4
      in
      and_then (case cp_low_budget_action c of
                  None \<Rightarrow> Ok b5
                | Some a \<Rightarrow> and_then (parse_action a) (\<lambda>action. Ok (pb_set_low_budget_action action b5))) (\<lambda>b6.
      policy_build lib (set_window_config (cp_window c) b6)))))))"

text \<open>\<open>collect\<close> into a \<open>Result\<close>: the policies in order, or the first error.\<close>

fun policies_from_config ::
    "('tz, 'more) chrono_scheme \<Rightarrow> config_policy list \<Rightarrow> (budget_policy list, budget_error) outcome" where
  "policies_from_config lib [] = Ok []"
| "policies_from_config lib (c # cs) =
     and_then (policy_from_config lib c) (\<lambda>p.
     and_then (policies_from_config lib cs) (\<lambda>ps. Ok (p # ps)))"

definition policies_from_toml_str ::
    "(string \<Rightarrow> string + policy_config) \<Rightarrow> ('tz, 'more) chrono_scheme \<Rightarrow> string \<Rightarrow>
     (budget_policy list, budget_error) outcome" where
  "policies_from_toml_str parse lib input =
     (case parse input of
        Inl e \<Rightarrow> Err (ConfigError e)
      | Inr config \<Rightarrow> policies_from_config lib (pc_policies config))"

definition warden_from_toml_str ::
    "(string \<Rightarrow> string + policy_config) \<Rightarrow> ('tz, 'more) chrono_scheme \<Rightarrow> string \<Rightarrow>
     's warden_builder \<Rightarrow> ('s budget_warden, budget_error) outcome" where
  "warden_from_toml_str parse lib input builder =
     and_then (policies_from_toml_str parse lib input) (\<lambda>policies.
     warden_build (fold wbd_add_policy policies builder))"

definition warden_from_toml_file ::
    "(string \<Rightarrow> string + string) \<Rightarrow> (string \<Rightarrow> string + policy_config) \<Rightarrow>
     ('tz, 'more) chrono_scheme \<Rightarrow> string \<Rightarrow> (memory_store budget_warden \<times> memory_store, budget_error) outcome" where
  "warden_from_toml_file read_file parse lib path =
     (case read_file path of
        Inl e \<Rightarrow> Err (ConfigError e)
      | Inr input \<Rightarrow>
          and_then (warden_from_toml_str parse lib input
                      (wbd_set_store (memory_ops lib) warden_builder_new)) (\<lambda>wd.
          Ok (wd, memory_store_new)))"

end
