(* ===== verification/Config_Properties.thy ===== *)
theory Config_Properties
  imports Config Fixtures
begin

text \<open>
  What a configuration denotes: which policies can be written as configuration and read back, what a
  loaded warden holds, and what the parsing of names loses.
\<close>

section \<open>Writing a policy as configuration\<close>

fun unit_config :: "budget_unit \<Rightarrow> string" where
  "unit_config (CustomUnit v) = ''custom:'' @ v"
| "unit_config u = unit_as_str u"

fun action_config :: "fallback_action \<Rightarrow> string" where
  "action_config UseFreshCache = ''use_fresh_cache''"
| "action_config UseStaleCache = ''use_stale_cache''"
| "action_config QueueForLater = ''queue_for_later''"
| "action_config UseCheaperProvider = ''use_cheaper_provider''"
| "action_config DowngradeQuality = ''downgrade_quality''"
| "action_config Reject = ''reject''"
| "action_config ReturnUnavailable = ''return_unavailable''"
| "action_config (CustomAction v) = ''custom:'' @ v"

fun priority_config :: "priority \<Rightarrow> string" where
  "priority_config Background = ''background''"
| "priority_config Normal = ''normal''"
| "priority_config Important = ''important''"
| "priority_config Critical = ''critical''"

fun strategy_config_of :: "budget_strategy \<Rightarrow> strategy_config" where
  "strategy_config_of HardLimitOnly = HardLimitOnlyConfig"
| "strategy_config_of (PreserveForWindow s) =
     PreserveForWindowConfig (pw_max_spend_ahead_percent s) (pw_emergency_reserve_percent s)
       (pw_minimum_remaining_units s)"
| "strategy_config_of (ReserveCapacity s) =
     ReserveCapacityConfig (rc_reserved_units s) (priority_config (rc_reserved_for s))"

fun window_config_of :: "budget_window \<Rightarrow> window_config option" where
  "window_config_of (CalendarDay tz) = Some (CalendarDayConfig tz)"
| "window_config_of (CalendarMonth tz) = Some (CalendarMonthConfig tz)"
| "window_config_of (Fixed d) = None"
| "window_config_of (Rolling d) = None"

definition config_of :: "window_config \<Rightarrow> budget_policy \<Rightarrow> config_policy" where
  "config_of w p =
     \<lparr>cp_name = bp_name p, cp_provider = kp_provider (bp_key p), cp_domain = kp_domain (bp_key p),
      cp_resource = kp_resource (bp_key p), cp_subject = kp_subject (bp_key p),
      cp_unit = unit_config (bp_unit p), cp_hard_limit = bp_hard_limit p, cp_window = w,
      cp_exhausted_action = action_config (bp_exhausted_action p),
      cp_low_budget_action = map_option action_config (bp_low_budget_action p),
      cp_fail_mode = Some (if bp_fail_mode p = Open then ''open'' else ''closed''),
      cp_strategy = strategy_config_of (bp_strategy p)\<rparr>"

text \<open>
  A custom name survives when it is written as it is read: lower case, without hyphens, without
  trailing white space and without another \<open>custom:\<close> at its start.
\<close>

definition custom_kept :: "string \<Rightarrow> bool" where
  "custom_kept v \<longleftrightarrow> normalized (''custom:'' @ v) = ''custom:'' @ v \<and> \<not> prefix ''custom:'' v"

fun unit_kept :: "budget_unit \<Rightarrow> bool" where
  "unit_kept (CustomUnit v) = custom_kept v"
| "unit_kept u = True"

fun action_kept :: "fallback_action \<Rightarrow> bool" where
  "action_kept (CustomAction v) = custom_kept v"
| "action_kept a = True"

section \<open>Reading it back\<close>

lemma trim_start_matches_once:
  assumes "p \<noteq> []" "\<not> prefix p v"
  shows "trim_start_matches p (p @ v) = v"
proof -
  have "trim_start_matches p (p @ v) = strip_with [p] v"
    using assms(1) by (simp add: trim_start_matches_def strip_with.simps [of "[p]" "p @ v"])
  also have "\<dots> = v" using assms(2) by (intro strip_with_id) simp
  finally show ?thesis .
qed

lemma custom_read:
  "custom_kept v \<Longrightarrow> normalized (''custom:'' @ v) = ''custom:'' @ v \<and>
     trim_start_matches ''custom:'' (''custom:'' @ v) = v"
  using trim_start_matches_once [of "''custom:''" v] by (simp add: custom_kept_def)

lemma normalized_names:
  "list_all (\<lambda>n. normalized n = n)
     [''requests'', ''tokens'', ''credits'', ''cents'', ''bytes'', ''messages'', ''background'', ''normal'',
      ''important'', ''critical'', ''use_fresh_cache'', ''use_stale_cache'', ''queue_for_later'',
      ''use_cheaper_provider'', ''downgrade_quality'', ''reject'', ''return_unavailable'', ''open'', ''closed'']"
  by code_simp

lemmas normalized_name = normalized_names [simplified]

lemma parse_unit_config: "unit_kept u \<Longrightarrow> parse_unit (unit_config u) = Ok u"
  by (cases u) (auto simp: parse_unit_def normalized_name dest: custom_read)

lemma parse_action_config: "action_kept a \<Longrightarrow> parse_action (action_config a) = Ok a"
  by (cases a) (auto simp: parse_action_def normalized_name dest: custom_read)

lemma parse_priority_config: "parse_priority (priority_config p) = Ok p"
  by (cases p) (simp_all add: parse_priority_def normalized_name)

lemma parse_strategy_config: "parse_strategy (strategy_config_of s) = Ok s"
  by (cases s) (simp_all add: parse_priority_config preserve_for_window_new_def reserve_capacity_new_def)

lemma parse_fail_mode_config: "parse_fail_mode (Some (if m = Open then ''open'' else ''closed'')) = Ok m"
  by (cases m) (simp_all add: parse_fail_mode_def normalized_name)

lemma key_pattern_rebuilt:
  "when_set with_subject (kp_subject k) (when_set with_resource (kp_resource k)
     (when_set with_domain (kp_domain k)
       \<lparr>kp_provider = kp_provider k, kp_domain = None, kp_resource = None, kp_subject = None\<rparr>)) = k"
  by (cases "kp_domain k"; cases "kp_resource k"; cases "kp_subject k")
    (simp_all add: with_domain_def with_resource_def with_subject_def)

lemma set_optional:
  "pb_domain b = None \<Longrightarrow> when_set pb_set_domain v b = b\<lparr>pb_domain := v\<rparr>"
  "pb_resource b = None \<Longrightarrow> when_set pb_set_resource v b = b\<lparr>pb_resource := v\<rparr>"
  "pb_subject b = None \<Longrightarrow> when_set pb_set_subject v b = b\<lparr>pb_subject := v\<rparr>"
  by (cases v; simp add: pb_set_domain_def pb_set_resource_def pb_set_subject_def)+

lemmas builder_steps =
  policy_builder_def pb_set_provider_def pb_set_unit_def pb_set_hard_limit_def pb_set_strategy_def
  pb_set_exhausted_action_def pb_set_fail_mode_def pb_set_low_budget_action_def

text \<open>The builder a readable configuration fills.\<close>

lemma policy_from_config_build:
  assumes "parse_unit (cp_unit c) = Ok u" "parse_strategy (cp_strategy c) = Ok strategy"
    and "parse_action (cp_exhausted_action c) = Ok exhausted" "parse_fail_mode (cp_fail_mode c) = Ok mode"
    and "case cp_low_budget_action c of None \<Rightarrow> low = None
      | Some a \<Rightarrow> (\<exists>action. parse_action a = Ok action \<and> low = Some action)"
    and "window_config_of window = Some (cp_window c)"
  shows "policy_from_config lib c = policy_build lib
    \<lparr>pb_name = cp_name c, pb_provider = Some (cp_provider c), pb_domain = cp_domain c,
     pb_resource = cp_resource c, pb_subject = cp_subject c, pb_unit = u,
     pb_hard_limit = Some (cp_hard_limit c), pb_window = Some window, pb_strategy = strategy,
     pb_exhausted_action = exhausted, pb_low_budget_action = low, pb_fail_mode = mode\<rparr>"
proof -
  have win: "set_window_config (cp_window c) b = b\<lparr>pb_window := Some window\<rparr>" for b
    using assms(6) by (cases window) (auto simp: pb_set_calendar_day_def pb_set_calendar_month_def dest!: sym [of _ "cp_window c"])
  show ?thesis
  proof (cases "cp_low_budget_action c")
    case None
    with assms(5) have "low = None" by simp
    with None show ?thesis
      by (simp add: policy_from_config_def assms(1-4) Let_def builder_steps set_optional win)
  next
    case (Some a)
    with assms(5) obtain action where "parse_action a = Ok action" "low = Some action" by auto
    with Some show ?thesis
      by (simp add: policy_from_config_def assms(1-4) Let_def builder_steps set_optional win)
  qed
qed

text \<open>C35: every valid policy with a calendar window and with custom names that survive can be written as
  configuration, and reading that configuration gives the policy back.\<close>

theorem config_roundtrip:
  assumes "policy_wf lib p" "window_config_of (bp_window p) = Some w"
    and "unit_kept (bp_unit p)" "action_kept (bp_exhausted_action p)"
    and "case bp_low_budget_action p of None \<Rightarrow> True | Some a \<Rightarrow> action_kept a"
  shows "policy_from_config lib (config_of w p) = Ok p"
proof -
  have pat: "when_set with_subject (kp_subject (bp_key p)) (when_set with_resource (kp_resource (bp_key p))
     (when_set with_domain (kp_domain (bp_key p))
       \<lparr>kp_provider = kp_provider (bp_key p), kp_domain = None, kp_resource = None, kp_subject = None\<rparr>)) = bp_key p"
    by (rule key_pattern_rebuilt)
  have "policy_from_config lib (config_of w p) = policy_build lib
    \<lparr>pb_name = bp_name p, pb_provider = Some (kp_provider (bp_key p)), pb_domain = kp_domain (bp_key p),
      pb_resource = kp_resource (bp_key p), pb_subject = kp_subject (bp_key p), pb_unit = bp_unit p,
      pb_hard_limit = Some (bp_hard_limit p), pb_window = Some (bp_window p), pb_strategy = bp_strategy p,
      pb_exhausted_action = bp_exhausted_action p, pb_low_budget_action = bp_low_budget_action p,
      pb_fail_mode = bp_fail_mode p\<rparr>"
    using assms(2-5)
    by (subst policy_from_config_build [of _ "bp_unit p" "bp_strategy p" "bp_exhausted_action p" "bp_fail_mode p"
          "bp_low_budget_action p" "bp_window p"])
      (simp_all add: config_of_def parse_unit_config parse_strategy_config parse_action_config
        parse_fail_mode_config split: option.splits)
  also have "\<dots> = Ok p"
  proof -
    have key: "key_pattern_new (kp_provider (bp_key p)) =
        Ok \<lparr>kp_provider = kp_provider (bp_key p), kp_domain = None, kp_resource = None, kp_subject = None\<rparr>"
      using assms(1) by (simp add: key_pattern_new_Ok policy_wf_def)
    have "validate_strategy (bp_strategy p) (bp_hard_limit p) = Ok ()" "window_validate lib (bp_window p) = Ok ()"
      "trim (bp_name p) \<noteq> []" "bp_hard_limit p \<noteq> 0"
      using assms(1) by (simp_all add: policy_wf_def is_blank_def u64_pos_iff)
    then show ?thesis
      by (simp add: policy_build_def key Let_def pat del: validate_strategy_Ok)
  qed
  finally show ?thesis .
qed

theorem config_roundtrip_witness:
  "policy_from_config utc_chrono (config_of (CalendarDayConfig ''UTC'') (demo_policy (ReserveCapacity (reserve_capacity_new 4 Critical))))
     = Ok (demo_policy (ReserveCapacity (reserve_capacity_new 4 Critical)))"
proof (rule config_roundtrip)
  show "policy_wf utc_chrono (demo_policy (ReserveCapacity (reserve_capacity_new 4 Critical)))" by code_simp
qed (simp_all add: demo_policy_def)

text \<open>Names are folded before they are read, so a custom unit loses its case and its hyphens, and every
  \<open>custom:\<close> at its start; different units of a configuration become one, and an empty name is accepted.\<close>

lemma custom_names_merge:
  "parse_unit ''custom:GPU-Seconds'' = Ok (CustomUnit ''gpu_seconds'')
   \<and> parse_unit ''custom:gpu_seconds'' = Ok (CustomUnit ''gpu_seconds'')
   \<and> parse_unit ''custom:custom:gpu_seconds'' = Ok (CustomUnit ''gpu_seconds'')
   \<and> parse_unit ''custom:'' = Ok (CustomUnit [])
   \<and> parse_action ''custom:Page-Oncall'' = Ok (CustomAction ''page_oncall'')"
  by code_simp

section \<open>Loading a warden\<close>

lemma policies_from_config_Ok:
  "policies_from_config lib cs = Ok ps \<Longrightarrow>
     list_all2 (\<lambda>c p. policy_from_config lib c = Ok p) cs ps"
  by (induction cs arbitrary: ps) auto

text \<open>What an entry of the configuration says of the policy it becomes, field by field.\<close>

definition configures :: "('tz, 'more) chrono_scheme \<Rightarrow> config_policy \<Rightarrow> budget_policy \<Rightarrow> bool" where
  "configures lib c p \<longleftrightarrow>
     policy_wf lib p \<and> bp_name p = cp_name c
   \<and> bp_key p = \<lparr>kp_provider = cp_provider c, kp_domain = cp_domain c, kp_resource = cp_resource c, kp_subject = cp_subject c\<rparr>
   \<and> parse_unit (cp_unit c) = Ok (bp_unit p) \<and> bp_hard_limit p = cp_hard_limit c
   \<and> window_config_of (bp_window p) = Some (cp_window c)
   \<and> parse_strategy (cp_strategy c) = Ok (bp_strategy p)
   \<and> parse_action (cp_exhausted_action c) = Ok (bp_exhausted_action p)
   \<and> (case cp_low_budget_action c of
        None \<Rightarrow> bp_low_budget_action p = None
      | Some a \<Rightarrow> (\<exists>action. parse_action a = Ok action \<and> bp_low_budget_action p = Some action))
   \<and> parse_fail_mode (cp_fail_mode c) = Ok (bp_fail_mode p)"

lemma policy_from_config_OkD:
  assumes "policy_from_config lib c = Ok p"
  shows "configures lib c p"
proof -
  obtain u strategy exhausted mode where parsed: "parse_unit (cp_unit c) = Ok u" "parse_strategy (cp_strategy c) = Ok strategy"
    "parse_action (cp_exhausted_action c) = Ok exhausted" "parse_fail_mode (cp_fail_mode c) = Ok mode"
    using assms by (auto simp: policy_from_config_def Let_def)
  obtain low where low: "case cp_low_budget_action c of None \<Rightarrow> low = None
      | Some a \<Rightarrow> (\<exists>action. parse_action a = Ok action \<and> low = Some action)"
    using assms by (cases "cp_low_budget_action c") (auto simp: policy_from_config_def Let_def)
  obtain window where window: "window_config_of window = Some (cp_window c)"
    by (metis window_config.exhaust window_config_of.simps(1,2))
  note built = policy_from_config_build [OF parsed low window, of lib, unfolded assms, symmetric]
  have key: "when_set with_subject v (when_set with_resource r (when_set with_domain d
      \<lparr>kp_provider = q, kp_domain = None, kp_resource = None, kp_subject = None\<rparr>)) =
      \<lparr>kp_provider = q, kp_domain = d, kp_resource = r, kp_subject = v\<rparr>" for q d r v
    using key_pattern_rebuilt [of "\<lparr>kp_provider = q, kp_domain = d, kp_resource = r, kp_subject = v\<rparr>"] by simp
  show ?thesis
    using policy_build_policy_wf [OF built] built parsed low window
    by (auto elim!: policy_build_OkE simp: configures_def key split: option.splits)
qed

lemma fold_add_policy:
  "fold wbd_add_policy ps b = b\<lparr>wbd_policies := wbd_policies b @ ps\<rparr>"
  by (induction ps arbitrary: b) (simp_all add: wbd_add_policy_def)

text \<open>C36: a warden loaded from a file has one policy for each entry of the file, in their order, each valid and
  with the name, key, unit, limit, window, strategy, actions and fail mode its entry states, no two of
  the same name, over an empty in-memory store with the system clock and the default time to live.\<close>

theorem loaded_warden:
  assumes "warden_from_toml_file read_file parse lib path = Ok (wd, s)"
  shows "\<exists>input config. read_file path = Inr input \<and> parse input = Inr config
    \<and> list_all2 (configures lib) (pc_policies config) (wd_policies wd)
    \<and> distinct (map cp_name (pc_policies config)) \<and> wd_store wd = memory_ops lib \<and> wd_clock wd = system_clock
    \<and> wd_reservation_ttl wd = default_reservation_ttl \<and> s = memory_store_new"
proof -
  from assms obtain input where input: "read_file path = Inr input"
    by (auto simp: warden_from_toml_file_def split: sum.splits)
  with assms obtain config ps where config: "parse input = Inr config"
    "policies_from_config lib (pc_policies config) = Ok ps"
    and built: "warden_build (fold wbd_add_policy ps (wbd_set_store (memory_ops lib) warden_builder_new)) = Ok wd"
      "s = memory_store_new"
    by (auto simp: warden_from_toml_file_def warden_from_toml_str_def policies_from_toml_str_def split: sum.splits)
  have wd: "wd_policies wd = ps" "wd_reservation_ttl wd = default_reservation_ttl" "distinct (map bp_name ps)"
    "wd_store wd = memory_ops lib" "wd_clock wd = system_clock"
    using built(1) by (auto elim!: warden_build_OkE
        simp: fold_add_policy wbd_set_store_def warden_builder_new_def unwrap_or_def warden_wf_def)
  have all: "list_all2 (configures lib) (pc_policies config) ps"
    using policies_from_config_Ok [OF config(2)] by (rule list_all2_mono) (rule policy_from_config_OkD)
  then have "map cp_name (pc_policies config) = map bp_name ps"
    by (induction rule: list_all2_induct) (simp_all add: configures_def)
  with all input config(1) built(2) wd show ?thesis by auto
qed

text \<open>A file of two policies, the second one renamed.\<close>

definition demo_config :: policy_config where
  "demo_config =
     \<lparr>pc_policies =
        [config_of (CalendarDayConfig ''UTC'') (demo_policy HardLimitOnly),
         (config_of (CalendarDayConfig ''UTC'') (demo_policy HardLimitOnly))\<lparr>cp_name := ''spare''\<rparr>]\<rparr>"

definition demo_loaded :: "(memory_store budget_warden \<times> memory_store, budget_error) outcome" where
  "demo_loaded = warden_from_toml_file (\<lambda>path. if path = ''budgets.toml'' then Inr ''two policies'' else Inl ''not found'')
     (\<lambda>input. if input = ''two policies'' then Inr demo_config else Inl ''expected a table'')
     utc_chrono ''budgets.toml''"

definition loaded_names :: "(memory_store budget_warden \<times> memory_store, budget_error) outcome \<Rightarrow> string list" where
  "loaded_names r = (case r of Ok x \<Rightarrow> map bp_name (wd_policies (fst x)) | _ \<Rightarrow> [])"

theorem loaded_warden_witness:
  "\<exists>wd s. demo_loaded = Ok (wd, s) \<and> map bp_name (wd_policies wd) = [''daily'', ''spare'']
     \<and> wd_reservation_ttl wd = default_reservation_ttl"
proof -
  have names: "loaded_names demo_loaded = [''daily'', ''spare'']" by code_simp
  then obtain wd s where loaded: "demo_loaded = Ok (wd, s)"
    by (auto simp: loaded_names_def split: outcome.splits)
  from names have "map bp_name (wd_policies wd) = [''daily'', ''spare'']"
    unfolding loaded loaded_names_def by simp
  moreover have "wd_reservation_ttl wd = default_reservation_ttl"
    using loaded_warden [OF loaded [unfolded demo_loaded_def]] by blast
  ultimately show ?thesis using loaded by (intro exI conjI)
qed

end
