(* ===== verification/Spec2Isabelle.thy ===== *)
theory Spec2Isabelle
  imports Policy_Properties Store_Properties Broker_Policies Broker_Decisions Broker_Races
    Sql_Properties Redis_Properties Config_Properties
begin

text \<open>
  A verification development for budget-warden, a Rust library that keeps calls to metered external
  services within budgets. A \<^emph>\<open>policy\<close> gives a key pattern a hard limit per time window and a
  strategy for spending it; the \<^emph>\<open>broker\<close> (\<open>BudgetWarden\<close>) finds the policy of a request, asks a
  \<^emph>\<open>store\<close> for the usage of the window's counter, lets the \<^emph>\<open>pacing\<close> evaluation decide, and reserves
  units in the store atomically; the caller commits or refunds the reservation, or it expires.

  \<^bold>\<open>Theories and the code they model\<close> (all under \<open>src/src/\<close>):
  \<^item> Prelude: results with panics, \<open>u64\<close> arithmetic (saturating, checked), hash maps as association
    lists, \<open>str::trim\<close>, and two locales for transition systems with an invariant or a relation that
    every run keeps.
  \<^item> Errors (\<open>error.rs\<close>), Vocabulary (\<open>priority.rs\<close>, \<open>unit.rs\<close>, enums of \<open>decision.rs\<close>), Keys
    (\<open>key.rs\<close>, the identifiers of \<open>reservation.rs\<close>, the store keys of \<open>store/contract.rs\<close>).
  \<^item> Windows (\<open>window.rs\<close>). The crates chrono and chrono-tz are the parameter \<open>lib\<close>, a record of the
    functions the code calls; \<open>chrono_laws\<close> states their documented behaviour. Utc\_Library defines an
    instance (UTC, Gregorian calendar, chrono's range) that satisfies the laws and runs the examples.
  \<^item> Requests (\<open>request.rs\<close>), Policies (\<open>policy.rs\<close>), Pacing (\<open>pacing/evaluate.rs\<close>), with the decision
    table \<open>denial_spec\<close> over natural numbers as reference.
  \<^item> Store\_Contract (\<open>store/contract.rs\<close>): the trait \<open>BudgetStore\<close> as a record of operations, and the
    locales \<open>budget_store\<close> and \<open>settling_store\<close>, what a store promises its clients.
  \<^item> Memory\_Store (\<open>store/memory.rs\<close>): state and operations; Memory\_Invariant: every counter holds
    exactly the units of its reservations; Memory\_Operations: what each operation does on every branch,
    and the interpretation of the contract; Memory\_Lifecycle: runs, and what never changes along them;
    Memory\_Ledger: the abstract store without counters that the detailed one refines.
  \<^item> Codec (\<open>store/codec.rs\<close>): integers between \<open>u64\<close> and the databases' \<open>i64\<close>. Sql\_Tables (the
    migrations): rows, keys, and the effect of each statement; Sqlite\_Store (\<open>store/sqlite.rs\<close>) and
    Postgres\_Store (\<open>store/postgres.rs\<close>): the statements, transactions and operations, on a database
    whose calls may fail. Sql\_Invariant: every counter row holds exactly the units of its reservations;
    Sql\_Transactions: an operation is all or nothing; Sqlite\_Operations: what each does on a working
    database; Sqlite\_Contract and Sqlite\_Runs: the laws of the contract, its interpretation, runs;
    Sqlite\_Ledger: the tables as a copy of the in-memory store's ledger.
    Postgres\_Sessions and Postgres\_Interleaving: the statements of concurrent PostgreSQL transactions,
    and that the locks keep the counters right; Postgres\_Alone: an uninterrupted one is the operation;
    Postgres\_Progress: every transaction ends, and waits for nothing but locks.
  \<^item> Decimal\_Text: integers as decimal text. Redis\_Server: the key space, the commands and the failures
    of a server; Redis\_Store (\<open>store/redis_store.rs\<close>): the four scripts, line by line, and the operations;
    Redis\_Invariant: a counter covers its active reservations and lives as long as they do;
    Redis\_Contract and Redis\_Runs: the laws of the contract, its interpretation, runs.
  \<^item> Config (\<open>config/model.rs\<close>, \<open>config/toml.rs\<close>): the configuration and how a warden is loaded from it.
  \<^item> Usage (\<open>usage.rs\<close>, \<open>report/mod.rs\<close>, \<open>telemetry/mod.rs\<close>), Reservations (\<open>reservation.rs\<close> and the
    decisions of \<open>decision.rs\<close>), Broker (\<open>broker.rs\<close>, \<open>clock.rs\<close>).
  \<^item> Broker\_Safety proves the broker's lemmas inside the contract, for any store; Broker\_Runs interleaves
    the operations of many tasks as a step relation and proves its invariant. Broker\_Agreement: the
    locale \<open>agreeing_stores\<close>, two stores a warden cannot tell apart; Memory\_Ledger and Sqlite\_Ledger
    interpret it for the in-memory store with the ledger and with SQLite.
  \<^item> Fixtures holds concrete data; Policy\_Properties, Store\_Properties, Sql\_Properties,
    Redis\_Properties, Config\_Properties, Broker\_Policies, Broker\_Decisions and Broker\_Races state the
    properties, each with an instance on that data.

  \<^bold>\<open>How state and effects are modelled.\<close> A store operation maps a state to an outcome (a value, an
  error, or a panic) and a new state; the in-memory store takes one step per call since it holds its
  write lock throughout, and a panic under the lock poisons it. The instant a call reads from the system
  clock is an argument. \<open>reserve\<close> suspends at two store calls: \<open>reserve_begin\<close> is its code up to the
  second, \<open>reserve_finish\<close> the rest, and a run may do anything between the two, or never resume. Telemetry
  events are returned in a list, as they are emitted with the feature \<open>tracing\<close>. An \<open>f64\<close> is the symbolic
  expression that computes it. Integers keep their width; where the code adds without a check
  (\<open>used + amount\<close> in the pacing evaluation) the sum wraps, as in a release build. No definition uses
  fuel: every loop of the code runs over a finite list or string, and all functions are total.

  \<^bold>\<open>External stores.\<close> A row or hash holds what the database holds: integers within 64 bits, texts,
  instants as the driver reads them back. What sqlx does is the parameter \<open>dr\<close>: how it stores and compares
  instants, which sequence numbers it skips, the texts of its errors, and whether a sum beyond 64 bits is
  an error (PostgreSQL) or not (SQLite). A database or server comes with a list of events for its next
  calls: a call works, fails, or takes effect while its reply is lost; statements of a transaction that
  was not committed leave no trace. An SQL operation is one step of a run: its writes happen in one
  transaction. Postgres\_Sessions takes that step apart: there every statement of every session is a step,
  under the row locks of PostgreSQL's isolation level READ COMMITTED, and a session may stop anywhere. A
  Redis script runs to its end or its first error, which keeps what it did;
  the numbers of its language are the parameter \<open>L\<close> with the laws \<open>lua_laws\<close> (exact up to \<open>2 ^ 53\<close>), and
  keys vanish at their deadline on the server's own clock, which the events move. TOML parsing with serde
  and the file system are parameters of the configuration.

  \<^bold>\<open>What is shown.\<close> No interleaving of tasks takes a counter above its policy's hard limit: over the
  in-memory store for limits below \<open>u64::MAX\<close> (there the saturating test admits everything), over the SQL
  stores for policy names without colons, and over the Redis store for limits below \<open>2 ^ 53\<close> and a time to
  live of whole seconds; for the external stores whatever calls fail, and on PostgreSQL
  whatever way the statements of concurrent transactions interleave. An uninterrupted reserve decides
  exactly by the decision table. The in-memory store refines the ledger, keeps its counters exact, admits
  exactly what fits, moves and releases exactly the reserved units, reserves once per idempotency key, and
  settles each reservation for good. The SQL stores are all or nothing and keep their tables well formed, and
  SQLite answers every orderly sequence of calls as the in-memory store does, so that two wardens over
  them return the same decisions and reports; a PostgreSQL transaction ends in a bounded number of steps;
  the Redis store keeps its keys well formed, and a reservation in it can be committed exactly until the
  expiry it was returned with. For the builders, the policy selection, store failures, reports, fixed
  windows and the configuration: the exact conditions and results. A last group of properties shows where
  the code falls short: reserved capacity is not protected against interleaving, an idempotent retry can be
  denied, spent idempotency keys defeat the budget under a fail-open policy, an expiry out of range poisons
  the store, windows below a second panic, limits from \<open>2 ^ 53\<close> on do not hold in Redis.

  \<^bold>\<open>Not modelled.\<close> \<open>lib.rs\<close> only re-exports; tests, examples and the derived \<open>Debug\<close> output.
\<close>

end
